(* ===== verification/Lab_Prelude.thy ===== *)
theory Lab_Prelude
  imports Main "HOL-Library.Word" "HOL-Library.Signed_Division"
begin

text \<open>
  The vocabulary every component theory shares: C strings and fixed-size character
  buffers (\<open>strncpy\<close>, \<open>snprintf\<close>, \<open>strchr\<close>, \<open>strrchr\<close>, \<open>strncmp\<close>), the
  conversions of \<open>printf\<close> and \<open>atoi\<close>, and \<open>int\<close> conversion at 32 bits.
  A buffer is the list of its bytes, so truncation, padding and termination are visible;
  a C string is the part of a buffer before its first NUL.
\<close>

unbundle bit_operations_syntax

named_theorems cbuf \<open>rewriting of C buffers to the strings they hold\<close>
named_theorems frame \<open>fields an operation leaves alone\<close>

type_synonym cbuffer = "char list"
type_synonym u8 = "8 word"
type_synonym u16 = "16 word"
type_synonym u32 = "32 word"
type_synonym u64 = "64 word"
type_synonym s32 = "32 word"

section \<open>Strings and buffers\<close>

abbreviation NUL :: char where
  "NUL \<equiv> CHR 0x00"

abbreviation newline :: char where
  "newline \<equiv> CHR 0x0A"

definition cstr :: "cbuffer \<Rightarrow> string" where
  "cstr b = takeWhile (\<lambda>c. c \<noteq> NUL) b"

definition nul_free :: "string \<Rightarrow> bool" where
  "nul_free s \<longleftrightarrow> NUL \<notin> set s"

definition strncpy :: "cbuffer \<Rightarrow> string \<Rightarrow> nat \<Rightarrow> cbuffer" where
  "strncpy dst src n = take n (src @ replicate n NUL) @ drop n dst"

definition snprintf :: "cbuffer \<Rightarrow> nat \<Rightarrow> string \<Rightarrow> cbuffer" where
  "snprintf dst sz s =
     (if sz = 0 then dst
      else take (sz - 1) s @ [NUL] @ drop (Suc (min (sz - 1) (length s))) dst)"

definition strncmp_eq :: "string \<Rightarrow> string \<Rightarrow> nat \<Rightarrow> bool" where
  "strncmp_eq a b n \<longleftrightarrow> take n a = take n b"

fun strchr :: "string \<Rightarrow> char \<Rightarrow> nat option" where
  "strchr [] c = None"
| "strchr (x # xs) c = (if x = c then Some 0 else map_option Suc (strchr xs c))"

fun strrchr :: "string \<Rightarrow> char \<Rightarrow> nat option" where
  "strrchr [] c = None"
| "strrchr (x # xs) c =
     (case strrchr xs c of
        Some i \<Rightarrow> Some (Suc i)
      | None \<Rightarrow> if x = c then Some 0 else None)"

lemma nul_free_simps [simp]:
  "nul_free []"
  "nul_free (c # s) \<longleftrightarrow> c \<noteq> NUL \<and> nul_free s"
  "nul_free (s @ t) \<longleftrightarrow> nul_free s \<and> nul_free t"
  by (auto simp: nul_free_def)

lemma nul_free_take [simp, intro]: "nul_free s \<Longrightarrow> nul_free (take n s)"
  by (auto simp: nul_free_def dest: in_set_takeD)

lemma nul_free_drop [simp, intro]: "nul_free s \<Longrightarrow> nul_free (drop n s)"
  by (auto simp: nul_free_def dest: in_set_dropD)

lemma nul_free_cstr [simp]: "nul_free (cstr b)"
  by (auto simp: nul_free_def cstr_def dest: set_takeWhileD)

lemma cstr_nul_free [cbuf]: "nul_free s \<Longrightarrow> cstr s = s"
  by (auto simp: nul_free_def cstr_def takeWhile_eq_all_conv)

lemma cstr_append_nul [cbuf]: "nul_free s \<Longrightarrow> cstr (s @ NUL # r) = s"
  by (induction s) (auto simp: cstr_def)

lemma cstr_Nil [simp]: "cstr [] = []"
  by (simp add: cstr_def)

lemma cstr_replicate [cbuf]: "cstr (replicate n NUL) = []"
  by (cases n) (auto simp: cstr_def)

lemma cstr_pad [cbuf]: "nul_free s \<Longrightarrow> cstr (s @ replicate n NUL) = s"
  by (cases n) (auto simp: cbuf)

lemma length_cstr_le: "length (cstr b) \<le> length b"
  by (simp add: cstr_def length_takeWhile_le)

lemma length_strncpy [cbuf]: "n \<le> length dst \<Longrightarrow> length (strncpy dst src n) = length dst"
  by (simp add: strncpy_def)

lemma strncpy_nth_end [cbuf]: "n < length dst \<Longrightarrow> strncpy dst src n ! n = dst ! n"
  by (auto simp: strncpy_def nth_append min_def)

lemma cstr_strncpy [cbuf]:
  assumes "nul_free src" "n < length dst" "dst ! n = NUL"
  shows "cstr (strncpy dst src n) = take n src"
proof (cases "n \<le> length src")
  case True
  then have "strncpy dst src n = take n src @ NUL # drop (Suc n) dst"
    using assms(2,3) by (simp add: strncpy_def Cons_nth_drop_Suc [symmetric])
  then show ?thesis using assms(1) by (simp add: cstr_append_nul nul_free_take)
next
  case False
  then obtain k where k: "n - length src = Suc k" by (cases "n - length src") auto
  from False have "take n (src @ replicate n NUL) = src @ replicate (Suc k) NUL"
    by (simp add: k [symmetric])
  with False assms(1) show ?thesis by (simp add: strncpy_def cstr_append_nul)
qed

lemma length_snprintf [cbuf]: "sz \<le> length dst \<Longrightarrow> length (snprintf dst sz s) = length dst"
  by (auto simp: snprintf_def min_def)

lemma cstr_append_free [cbuf]: "nul_free x \<Longrightarrow> cstr (x @ y) = x @ cstr y"
  by (induction x) (auto simp: cstr_def)

lemma take_length_cstr: "take (length (cstr b)) b = cstr b"
  unfolding cstr_def by (induction b) auto

lemma cstr_snprintf [cbuf]:
  "nul_free s \<Longrightarrow> 0 < sz \<Longrightarrow> cstr (snprintf dst sz s) = take (sz - 1) s"
  by (simp add: snprintf_def cstr_append_nul nul_free_take)

lemma strchr_Some: "strchr s c = Some i \<Longrightarrow> i < length s \<and> s ! i = c \<and> c \<notin> set (take i s)"
  by (induction s arbitrary: i) (auto split: if_splits)

lemma strchr_None: "strchr s c = None \<longleftrightarrow> c \<notin> set s"
  by (induction s) auto

lemma strrchr_None: "strrchr s c = None \<longleftrightarrow> c \<notin> set s"
  by (induction s) (auto split: option.splits)

lemma strrchr_Some:
  "strrchr s c = Some i \<Longrightarrow> i < length s \<and> s ! i = c \<and> c \<notin> set (drop (Suc i) s)"
  by (induction s arbitrary: i) (auto split: option.splits if_splits simp: strrchr_None)

section \<open>Number conversions\<close>

definition digit :: "nat \<Rightarrow> char" where
  "digit d = char_of (48 + d)"

fun dec_nat :: "nat \<Rightarrow> string" where
  "dec_nat n = (if n < 10 then [digit n] else dec_nat (n div 10) @ [digit (n mod 10)])"

declare dec_nat.simps [simp del]

definition dec_int :: "int \<Rightarrow> string" where
  "dec_int i = (if i < 0 then CHR ''-'' # dec_nat (nat (- i)) else dec_nat (nat i))"

definition dec02 :: "int \<Rightarrow> string" where
  "dec02 i = (let s = dec_int i in if length s < 2 then CHR ''0'' # s else s)"

definition hex_digit :: "nat \<Rightarrow> char" where
  "hex_digit d = (if d < 10 then char_of (48 + d) else char_of (55 + d))"

definition hex02 :: "u8 \<Rightarrow> string" where
  "hex02 b = [hex_digit (unat b div 16), hex_digit (unat b mod 16)]"

definition c_int :: "int \<Rightarrow> int" where
  "c_int i = signed_take_bit 31 i"

definition is_digit :: "char \<Rightarrow> bool" where
  "is_digit c \<longleftrightarrow> 48 \<le> (of_char c :: nat) \<and> (of_char c :: nat) \<le> 57"

definition is_space :: "char \<Rightarrow> bool" where
  "is_space c \<longleftrightarrow> c = CHR '' '' \<or> (9 \<le> (of_char c :: nat) \<and> (of_char c :: nat) \<le> 13)"

fun digits_val :: "nat \<Rightarrow> string \<Rightarrow> nat" where
  "digits_val acc [] = acc"
| "digits_val acc (c # cs) = digits_val (10 * acc + (of_char c - 48)) cs"

definition split_sign :: "string \<Rightarrow> bool \<times> string" where
  "split_sign s =
     (case s of
        [] \<Rightarrow> (False, [])
      | c # r \<Rightarrow> if c = CHR ''-'' then (True, r) else if c = CHR ''+'' then (False, r) else (False, s))"

definition atoi :: "string \<Rightarrow> int" where
  "atoi s =
     (let (neg, r) = split_sign (dropWhile is_space s);
          v = int (digits_val 0 (takeWhile is_digit r));
          l = max (- (2 ^ 63)) (min (2 ^ 63 - 1) (if neg then - v else v))
      in c_int l)"

lemma of_char_digit [simp]: "d < 10 \<Longrightarrow> (of_char (digit d) :: nat) = 48 + d"
  by (simp add: digit_def)

lemma is_digit_digit [simp]: "d < 10 \<Longrightarrow> is_digit (digit d)"
  by (simp add: is_digit_def)

lemma dec_nat_nonempty [simp]: "dec_nat n \<noteq> []"
  by (subst dec_nat.simps) simp

lemma dec_nat_digits: "\<forall>c \<in> set (dec_nat n). is_digit c"
proof (induction n rule: dec_nat.induct)
  case (1 n)
  show ?case
  proof (cases "n < 10")
    case True
    then show ?thesis by (subst dec_nat.simps) simp
  next
    case False
    with 1 show ?thesis by (subst dec_nat.simps) auto
  qed
qed

lemma length_dec_nat: "n < 10 ^ k \<Longrightarrow> 0 < k \<Longrightarrow> length (dec_nat n) \<le> k"
proof (induction n arbitrary: k rule: dec_nat.induct)
  case (1 n)
  show ?case
  proof (cases "n < 10")
    case True
    with 1 show ?thesis by (subst dec_nat.simps) simp
  next
    case False
    with 1(2,3) obtain j where k: "k = Suc j" "0 < j" by (cases k; cases "k - 1") auto
    with 1(2) have "n div 10 < 10 ^ j" by (simp add: less_mult_imp_div_less)
    with 1(1) False k show ?thesis by (subst dec_nat.simps) simp
  qed
qed

lemma digits_val_append: "digits_val acc (xs @ ys) = digits_val (digits_val acc xs) ys"
  by (induction xs arbitrary: acc) auto

lemma digits_val_dec_nat: "digits_val 0 (dec_nat n) = n"
proof (induction n rule: dec_nat.induct)
  case (1 n)
  show ?case
  proof (cases "n < 10")
    case True
    then show ?thesis by (subst dec_nat.simps) simp
  next
    case False
    with 1 show ?thesis
      by (subst dec_nat.simps) (simp add: digits_val_append)
  qed
qed

lemma is_digit_not_nul: "is_digit c \<Longrightarrow> c \<noteq> NUL"
  by (auto simp: is_digit_def)

lemma nul_free_dec_nat [simp]: "nul_free (dec_nat n)"
  using dec_nat_digits [of n] by (auto simp: nul_free_def dest: is_digit_not_nul)

lemma nul_free_dec_int [simp]: "nul_free (dec_int i)"
  by (simp add: dec_int_def)

lemma nul_free_dec02 [simp]: "nul_free (dec02 i)"
  by (simp add: dec02_def Let_def)

lemma c_int_id: "- (2 ^ 31) \<le> i \<Longrightarrow> i < 2 ^ 31 \<Longrightarrow> c_int i = i"
  by (simp add: c_int_def signed_take_bit_int_eq_self)

lemma c_int_range: "- (2 ^ 31) \<le> c_int i \<and> c_int i < 2 ^ 31"
  using signed_take_bit_int_greater_eq_minus_exp [of 31 i] signed_take_bit_int_less_exp [of 31 i]
  by (simp add: c_int_def)

lemma dec_nat_hd: "\<exists>c cs. dec_nat n = c # cs \<and> is_digit c"
  using dec_nat_digits [of n] by (cases "dec_nat n") auto

lemma is_digit_not_space: "is_digit c \<Longrightarrow> \<not> is_space c"
  by (auto simp: is_digit_def is_space_def)

lemma is_digit_not_sign: "is_digit c \<Longrightarrow> c \<noteq> CHR ''-'' \<and> c \<noteq> CHR ''+''"
  by (auto simp: is_digit_def)

lemma takeWhile_dec_nat [simp]: "takeWhile is_digit (dec_nat n) = dec_nat n"
  using dec_nat_digits [of n] by (simp add: takeWhile_eq_all_conv)

text \<open>Printing with \<open>%d\<close> and reading with \<open>atoi\<close> is the identity on \<open>int\<close>.\<close>

lemma atoi_dec_int:
  assumes "- (2 ^ 31) \<le> i" "i < 2 ^ 31"
  shows "atoi (dec_int i) = i"
proof (cases "i < 0")
  case True
  have "\<not> is_space (CHR ''-'')" by (simp add: is_space_def)
  with True assms show ?thesis
    by (simp add: atoi_def dec_int_def split_sign_def digits_val_dec_nat c_int_id)
next
  case False
  obtain c cs where c: "dec_nat (nat i) = c # cs" "is_digit c"
    using dec_nat_hd by blast
  have "dropWhile is_space (dec_nat (nat i)) = dec_nat (nat i)"
    using c is_digit_not_space by simp
  moreover have "split_sign (dec_nat (nat i)) = (False, dec_nat (nat i))"
    using c is_digit_not_sign by (simp add: split_sign_def)
  ultimately show ?thesis
    using False assms by (simp add: atoi_def dec_int_def digits_val_dec_nat c_int_id)
qed

lemma hex_digit_not_nul: "d < 16 \<Longrightarrow> hex_digit d \<noteq> NUL"
proof -
  assume "d < 16"
  then have "(of_char (hex_digit d) :: nat) \<noteq> of_char NUL"
    by (simp add: hex_digit_def)
  then show ?thesis by metis
qed

lemma unat_u8_less: "unat (b :: u8) < 256"
  using unsigned_less [of b] by simp

lemma nul_free_hex02 [simp]: "nul_free (hex02 b)"
proof -
  have "unat b div 16 < 16" using unat_u8_less [of b] by simp
  then show ?thesis by (simp add: hex02_def hex_digit_not_nul)
qed

lemma length_hex02 [simp]: "length (hex02 b) = 2"
  by (simp add: hex02_def)

lemma hex_digit_inj: "d < 16 \<Longrightarrow> e < 16 \<Longrightarrow> hex_digit d = hex_digit e \<Longrightarrow> d = e"
proof -
  assume b: "d < 16" "e < 16" and "hex_digit d = hex_digit e"
  then have "(of_char (hex_digit d) :: nat) = of_char (hex_digit e)" by simp
  with b show ?thesis by (auto simp: hex_digit_def split: if_splits)
qed

lemma hex02_inj: "hex02 a = hex02 b \<Longrightarrow> a = b"
proof -
  assume "hex02 a = hex02 b"
  moreover have "unat a div 16 < 16" "unat b div 16 < 16"
    using unat_u8_less [of a] unat_u8_less [of b] by simp_all
  ultimately have "unat a div 16 = unat b div 16" "unat a mod 16 = unat b mod 16"
    by (auto simp: hex02_def intro: hex_digit_inj)
  then have "unat a = unat b" by (metis div_mult_mod_eq)
  then show ?thesis by (simp add: word_unat_eq_iff)
qed

end
