(* ===== verification/Getopt.thy ===== *)
theory Getopt
  imports Lab_Prelude
begin

text \<open>
  \<open>getopt(3)\<close> of the C library for short options, as both programs use it: option letters may be
  clustered (\<open>-dd\<close>), an argument may be attached (\<open>-iwlan1\<close>) or the next word, words that are
  not options are skipped, \<open>--\<close> ends the options, and an unknown letter or a missing argument
  gives \<open>'?'\<close>.
\<close>

fun opt_spec :: "string \<Rightarrow> char \<Rightarrow> bool option" where
  "opt_spec [] c = None"
| "opt_spec (o1 # os) c =
     (if c = CHR '':'' then None
      else if o1 = c then Some (case os of x # _ \<Rightarrow> x = CHR '':'' | [] \<Rightarrow> False)
      else opt_spec os c)"

function getopt_run :: "string \<Rightarrow> string \<Rightarrow> string list \<Rightarrow> (char \<times> string option) list" where
  "getopt_run spec [] [] = []"
| "getopt_run spec [] (w # ws) =
     (if w = ''--'' then []
      else (case w of
              x # y # ys \<Rightarrow> if x = CHR ''-'' then getopt_run spec (y # ys) ws else getopt_run spec [] ws
            | _ \<Rightarrow> getopt_run spec [] ws))"
| "getopt_run spec (c # cs) ws =
     (case opt_spec spec c of
        None \<Rightarrow> (CHR ''?'', None) # getopt_run spec cs ws
      | Some False \<Rightarrow> (c, None) # getopt_run spec cs ws
      | Some True \<Rightarrow>
          (if cs \<noteq> [] then (c, Some cs) # getopt_run spec [] ws
           else (case ws of
                   [] \<Rightarrow> [(CHR ''?'', None)]
                 | w # ws' \<Rightarrow> (c, Some w) # getopt_run spec [] ws')))"
  by pat_completeness auto
termination
  by (relation "measure (\<lambda>(spec, cs, ws). length cs + sum_list (map (\<lambda>w. Suc (length w)) ws))") auto

definition getopt :: "string \<Rightarrow> string list \<Rightarrow> (char \<times> string option) list" where
  "getopt spec args = getopt_run spec [] args"

lemma getopt_cluster:
  assumes "opt_spec spec c = Some False"
  shows "getopt_run spec (replicate n c) ws = replicate n (c, None) @ getopt_run spec [] ws"
  using assms by (induction n) auto

text \<open>The option letters a usage text lists (three blanks, a dash and the letter), and those of an option string.\<close>

fun documented :: "string \<Rightarrow> string" where
  "documented (a # b # c # d # x # r) =
     (if [a, b, c, d] = ''   -'' then x # documented r else documented (b # c # d # x # r))"
| "documented s = []"

definition accepted :: "string \<Rightarrow> string" where
  "accepted spec = filter (\<lambda>c. c \<noteq> CHR '':'') spec"

end
