(* ===== verification/Wlan_Utils.thy ===== *)
theory Wlan_Utils
  imports Lab_Prelude
begin

text \<open>
  \<open>wlinkd/src/wlan_utils.h\<close> and \<open>wlan_utils.c\<close>: the two data structures of the daemon
  and the helpers that format a MAC address, a channel and an IPv4 address and that search
  an array of BSSID buffers. A pointer argument the code compares with \<open>NULL\<close> is an
  \<open>option\<close>; an array read past the end of the array is the result \<open>None\<close>.
\<close>

section \<open>Data\<close>

definition MAC_ADDR_LEN :: nat where
  "MAC_ADDR_LEN = 18"

definition WLAN_NOT_AVAILABLE :: string where
  "WLAN_NOT_AVAILABLE = ''N/A''"

definition WLAN_MODE :: string where
  "WLAN_MODE = ''UNKNOWN''"

type_synonym mac = "u8 \<times> u8 \<times> u8 \<times> u8 \<times> u8 \<times> u8"

record ApInfo =
  iface :: cbuffer
  ap_bssid :: cbuffer
  mode :: cbuffer
  ip :: cbuffer
  channel :: cbuffer
  up :: int
  bandwidth_mhz :: int
  phy_rate_mbps :: int
  rssi_dbm :: int

definition ap_info_zero :: ApInfo where
  "ap_info_zero =
     \<lparr>iface = replicate 32 NUL, ap_bssid = replicate MAC_ADDR_LEN NUL, mode = replicate 16 NUL,
      ip = replicate 32 NUL, channel = replicate 32 NUL, up = 0, bandwidth_mhz = 0,
      phy_rate_mbps = 0, rssi_dbm = 0\<rparr>"

definition terminated :: "nat \<Rightarrow> cbuffer \<Rightarrow> bool" where
  "terminated n b \<longleftrightarrow> length b = n \<and> 0 < n \<and> b ! (n - 1) = NUL"

definition ap_info_wf :: "ApInfo \<Rightarrow> bool" where
  "ap_info_wf a \<longleftrightarrow> terminated 32 (iface a) \<and> terminated MAC_ADDR_LEN (ap_bssid a) \<and>
     terminated 16 (mode a) \<and> terminated 32 (ip a) \<and> terminated 32 (channel a)"

lemma terminated_replicate [simp, intro]: "0 < n \<Longrightarrow> terminated n (replicate n NUL)"
  by (simp add: terminated_def)

lemma terminated_strncpy [simp, intro]:
  "terminated n b \<Longrightarrow> terminated n (strncpy b s (n - 1))"
  by (simp add: terminated_def cbuf)

lemma cstr_strncpy_terminated [cbuf]:
  "terminated n b \<Longrightarrow> nul_free s \<Longrightarrow> cstr (strncpy b s (n - 1)) = take (n - 1) s"
  by (simp add: terminated_def cbuf)

lemma terminated_snprintf [simp, intro]:
  assumes "terminated n b" "0 < k" "k \<le> n"
  shows "terminated n (snprintf b k s)"
proof -
  let ?m = "min (k - 1) (length s)"
  from assms have len: "length (snprintf b k s) = n"
    by (simp add: terminated_def length_snprintf)
  have "snprintf b k s ! (n - 1) = NUL"
  proof (cases "?m = n - 1")
    case True
    then have "length (take (k - 1) s) = n - 1" by (simp add: min.commute)
    moreover have "snprintf b k s ! length (take (k - 1) s) = NUL"
      using assms(2) by (simp only: snprintf_def nth_append_length append_Cons if_False neq0_conv [symmetric])
    ultimately show ?thesis by simp
  next
    case False
    with assms have lt: "?m < n - 1" by auto
    let ?front = "take (k - 1) s @ [NUL]"
    have front: "length ?front = Suc ?m" by simp
    have "snprintf b k s ! (n - 1) = (?front @ drop (Suc ?m) b) ! (n - 1)"
      using assms by (simp add: snprintf_def)
    also have "\<dots> = drop (Suc ?m) b ! (n - 1 - length ?front)"
      by (rule nth_append_right) (use lt in \<open>simp only: front Suc_le_eq\<close>)
    also have "\<dots> = drop (Suc ?m) b ! (n - 1 - Suc ?m)" by (simp only: front)
    also have "\<dots> = b ! (Suc ?m + (n - 1 - Suc ?m))"
      by (rule nth_drop) (use lt assms in \<open>simp add: terminated_def\<close>)
    also have "Suc ?m + (n - 1 - Suc ?m) = n - 1" using lt by simp
    finally show ?thesis using assms by (simp add: terminated_def)
  qed
  with len assms show ?thesis by (simp add: terminated_def)
qed

lemma ap_info_zero_wf [simp]: "ap_info_wf ap_info_zero"
  by (simp add: ap_info_wf_def ap_info_zero_def MAC_ADDR_LEN_def)

section \<open>IP address\<close>

definition AF_INET :: nat where
  "AF_INET = 2"

record ifaddrs =
  ifa_name :: "string option"
  ifa_addr :: "(nat \<times> u8 \<times> u8 \<times> u8 \<times> u8) option"
  ifa_up :: bool

definition inet_ntop :: "u8 \<times> u8 \<times> u8 \<times> u8 \<Rightarrow> string" where
  "inet_ntop = (\<lambda>(a, b, c, d).
     dec_nat (unat a) @ ''.'' @ dec_nat (unat b) @ ''.'' @ dec_nat (unat c) @ ''.'' @ dec_nat (unat d))"

fun fill_ip_loop :: "string \<Rightarrow> ifaddrs list \<Rightarrow> ApInfo \<Rightarrow> ApInfo" where
  "fill_ip_loop ifname [] info = info"
| "fill_ip_loop ifname (ifa # rest) info =
     (case (ifa_name ifa, ifa_addr ifa) of
        (Some nm, Some (family, sin_addr)) \<Rightarrow>
          if family \<noteq> AF_INET then fill_ip_loop ifname rest info
          else if nm = ifname
          then info\<lparr>ip := snprintf (ip info) 32 (inet_ntop sin_addr),
                    up := (if ifa_up ifa then 1 else 0)\<rparr>
          else fill_ip_loop ifname rest info
      | _ \<Rightarrow> fill_ip_loop ifname rest info)"

text \<open>The parameter \<open>getifaddrs\<close> is the interface list of the system, \<open>None\<close> on error.\<close>

definition wlan_utils_fill_ip_address ::
  "ifaddrs list option \<Rightarrow> string option \<Rightarrow> ApInfo option \<Rightarrow> ApInfo option" where
  "wlan_utils_fill_ip_address getifaddrs ifname info =
     (case (ifname, info, getifaddrs) of
        (Some nm, Some a, Some ifaddr) \<Rightarrow> Some (fill_ip_loop nm ifaddr a)
      | _ \<Rightarrow> info)"

lemma nul_free_inet_ntop [simp]: "nul_free (inet_ntop q)"
  by (cases q) (simp add: inet_ntop_def)

lemma fill_ip_loop_frame [frame]:
  "iface (fill_ip_loop nm l a) = iface a" "ap_bssid (fill_ip_loop nm l a) = ap_bssid a"
  "mode (fill_ip_loop nm l a) = mode a" "channel (fill_ip_loop nm l a) = channel a"
  "bandwidth_mhz (fill_ip_loop nm l a) = bandwidth_mhz a"
  "phy_rate_mbps (fill_ip_loop nm l a) = phy_rate_mbps a"
  "rssi_dbm (fill_ip_loop nm l a) = rssi_dbm a"
  by (induction nm l a rule: fill_ip_loop.induct) (auto split: option.splits)

lemma fill_ip_loop_ip:
  "ip (fill_ip_loop nm l a) = ip a \<or> (\<exists>q. ip (fill_ip_loop nm l a) = snprintf (ip a) 32 (inet_ntop q))"
  by (induction nm l a rule: fill_ip_loop.induct) (force split: option.splits)+

lemma fill_ip_loop_wf [simp, intro]: "ap_info_wf a \<Longrightarrow> ap_info_wf (fill_ip_loop nm l a)"
  using fill_ip_loop_ip [of nm l a] by (auto simp: ap_info_wf_def frame)

section \<open>BSSID text\<close>

definition bssid_text :: "mac \<Rightarrow> string" where
  "bssid_text = (\<lambda>(a, b, c, d, e, f).
     hex02 a @ '':'' @ hex02 b @ '':'' @ hex02 c @ '':'' @ hex02 d @ '':'' @ hex02 e @ '':'' @ hex02 f)"

definition wlan_utils_format_bssid :: "mac option \<Rightarrow> cbuffer option \<Rightarrow> nat \<Rightarrow> cbuffer option" where
  "wlan_utils_format_bssid bssid buffer sz =
     (case (bssid, buffer) of
        (Some m, Some b) \<Rightarrow> if sz < MAC_ADDR_LEN then buffer else Some (snprintf b sz (bssid_text m))
      | _ \<Rightarrow> buffer)"

lemma length_bssid_text [simp]: "length (bssid_text m) = 17"
  by (cases m) (simp add: bssid_text_def)

lemma nul_free_bssid_text [simp]: "nul_free (bssid_text m)"
  by (cases m) (simp add: bssid_text_def)

lemma bssid_text_nonempty [simp]: "bssid_text m \<noteq> []"
  using length_bssid_text [of m] by (metis list.size(3) zero_neq_numeral)

lemma bssid_text_inj: "bssid_text m = bssid_text m' \<Longrightarrow> m = m'"
  by (cases m; cases m') (auto simp: bssid_text_def dest!: hex02_inj)

lemma format_bssid_cstr:
  "18 \<le> sz \<Longrightarrow> wlan_utils_format_bssid (Some m) (Some b) sz = Some b' \<Longrightarrow> cstr b' = bssid_text m"
  by (auto simp: wlan_utils_format_bssid_def MAC_ADDR_LEN_def cbuf)

section \<open>Channel text\<close>

definition channel_text :: "u32 \<Rightarrow> string" where
  "channel_text freq =
     (if freq = 2484 then ''CH 14''
      else if freq \<ge> 2412 \<and> freq \<le> 2472 then ''CH '' @ dec_nat (unat ((freq - 2407) div 5))
      else if freq \<ge> 5000 \<and> freq \<le> 5895 then ''CH '' @ dec_nat (unat ((freq - 5000) div 5))
      else dec_nat (unat freq) @ '' MHz'')"

definition wlan_utils_format_channel :: "u32 \<Rightarrow> cbuffer option \<Rightarrow> nat \<Rightarrow> cbuffer option" where
  "wlan_utils_format_channel freq buffer sz =
     (case buffer of
        None \<Rightarrow> None
      | Some b \<Rightarrow> if sz = 0 then Some b else Some (snprintf b sz (channel_text freq)))"

lemma nul_free_channel_text [simp]: "nul_free (channel_text f)"
  by (simp add: channel_text_def)

section \<open>Search in an array of BSSID buffers\<close>

function find_sta_loop :: "string \<Rightarrow> cbuffer list \<Rightarrow> nat \<Rightarrow> nat \<Rightarrow> int option" where
  "find_sta_loop bssid bssids i count =
     (if i < count
      then if i < length bssids
           then if bssid = cstr (bssids ! i) then Some 1 else find_sta_loop bssid bssids (Suc i) count
           else None
      else Some 0)"
  by pat_completeness auto
termination
  by (relation "measure (\<lambda>(b, bs, i, n). n - i)") auto

declare find_sta_loop.simps [simp del]

definition wlan_utils_find_sta :: "string option \<Rightarrow> cbuffer list option \<Rightarrow> int \<Rightarrow> int option" where
  "wlan_utils_find_sta bssid bssids count =
     (case (bssid, bssids) of
        (Some b, Some bs) \<Rightarrow> if count \<le> 0 then Some 0 else find_sta_loop b bs 0 (nat count)
      | _ \<Rightarrow> Some 0)"

lemma find_sta_loop_eq:
  "n \<le> length bs \<Longrightarrow>
     find_sta_loop b bs i n = Some (if b \<in> cstr ` set (drop i (take n bs)) then 1 else 0)"
proof (induction b bs i n rule: find_sta_loop.induct)
  case (1 b bs i n)
  show ?case
  proof (cases "i < n")
    case True
    with "1.prems" have "drop i (take n bs) = bs ! i # drop (Suc i) (take n bs)"
      by (metis Cons_nth_drop_Suc length_take min.absorb2 nth_take)
    with True 1 show ?thesis by (subst find_sta_loop.simps) auto
  next
    case False
    then show ?thesis by (subst find_sta_loop.simps) simp
  qed
qed

lemma wlan_utils_find_sta_eq:
  assumes "count \<le> int (length bs)"
  shows "wlan_utils_find_sta (Some b) (Some bs) count =
     Some (if b \<in> cstr ` set (take (nat count) bs) then 1 else 0)"
proof -
  have "nat count \<le> length bs" using assms by simp
  from find_sta_loop_eq [OF this, of b 0] show ?thesis
    by (simp add: wlan_utils_find_sta_def)
qed

end
