(* ===== verification/Sta_Mgr.thy ===== *)
theory Sta_Mgr
  imports Wlan_Utils
begin

text \<open>
  \<open>wlinkd/src/wlan_sta_mgr.c\<close>: the table of connected stations, a singly linked list of
  \<open>malloc\<close>ed cells. The heap is explicit: a cell is an index of \<open>cells\<close>, \<open>None\<close> once
  it is freed and never handed out again, so a read through a dangling pointer has no value.
  A loop over the list is a \<open>partial_function\<close> whose result \<open>None\<close> stands for not
  returning or for reading a freed cell; the lemmas prove \<open>Some\<close>.
  The parameter \<open>mok\<close> says which calls of \<open>malloc\<close> succeed, \<open>now\<close> is \<open>time(NULL)\<close>.
\<close>

section \<open>State\<close>

record station =
  bssid :: cbuffer
  sta_ip :: cbuffer
  rssi :: int
  priv_pkts :: u64
  assoc_time :: int
  sta_next :: "nat option"

record sta_mgr =
  sta_mgr_head :: "nat option"
  cells :: "station option list"
  malloc_calls :: nat

definition deref :: "sta_mgr \<Rightarrow> nat \<Rightarrow> station option" where
  "deref s a = (if a < length (cells s) then cells s ! a else None)"

definition store :: "sta_mgr \<Rightarrow> nat \<Rightarrow> station \<Rightarrow> sta_mgr" where
  "store s a n = s\<lparr>cells := (cells s)[a := Some n]\<rparr>"

definition free_cell :: "sta_mgr \<Rightarrow> nat \<Rightarrow> sta_mgr" where
  "free_cell s a = s\<lparr>cells := (cells s)[a := None]\<rparr>"

definition wlan_sta_mgr_init :: "sta_mgr \<Rightarrow> sta_mgr" where
  "wlan_sta_mgr_init s = s\<lparr>sta_mgr_head := None\<rparr>"

definition sta_mgr_start :: sta_mgr where
  "sta_mgr_start = \<lparr>sta_mgr_head = None, cells = [], malloc_calls = 0\<rparr>"

section \<open>Operations\<close>

partial_function (option) clear_loop :: "sta_mgr \<Rightarrow> nat option \<Rightarrow> sta_mgr option" where
  "clear_loop s cur =
     (case cur of
        None \<Rightarrow> Some (s\<lparr>sta_mgr_head := None\<rparr>)
      | Some a \<Rightarrow>
          (case deref s a of
             None \<Rightarrow> None
           | Some n \<Rightarrow> clear_loop (free_cell s a) (sta_next n)))"

definition wlan_sta_mgr_clear :: "sta_mgr \<Rightarrow> sta_mgr option" where
  "wlan_sta_mgr_clear s = clear_loop s (sta_mgr_head s)"

partial_function (option) find_loop :: "sta_mgr \<Rightarrow> nat option \<Rightarrow> string \<Rightarrow> nat option option" where
  "find_loop s cur b =
     (case cur of
        None \<Rightarrow> Some None
      | Some a \<Rightarrow>
          (case deref s a of
             None \<Rightarrow> None
           | Some n \<Rightarrow> if cstr (bssid n) = b then Some (Some a) else find_loop s (sta_next n) b))"

definition wlan_sta_mgr_find :: "string \<Rightarrow> sta_mgr \<Rightarrow> nat option option" where
  "wlan_sta_mgr_find b s = find_loop s (sta_mgr_head s) b"

definition wlan_sta_mgr_add ::
  "(nat \<Rightarrow> bool) \<Rightarrow> int \<Rightarrow> string option \<Rightarrow> sta_mgr \<Rightarrow> (int \<times> sta_mgr) option" where
  "wlan_sta_mgr_add mok now bssid_arg s =
     (case bssid_arg of
        None \<Rightarrow> Some (-1, s)
      | Some b \<Rightarrow>
          if b = [] then Some (-1, s)
          else (case wlan_sta_mgr_find b s of
                  None \<Rightarrow> None
                | Some (Some _) \<Rightarrow> Some (0, s)
                | Some None \<Rightarrow>
                    let s1 = s\<lparr>malloc_calls := Suc (malloc_calls s)\<rparr> in
                    if \<not> mok (malloc_calls s) then Some (-1, s1)
                    else let new_sta =
                           \<lparr>bssid = strncpy (replicate MAC_ADDR_LEN NUL) b (MAC_ADDR_LEN - 1),
                            sta_ip = replicate 16 NUL, rssi = 0, priv_pkts = 0,
                            assoc_time = now, sta_next = sta_mgr_head s\<rparr>
                         in Some (1, s1\<lparr>cells := cells s @ [Some new_sta],
                                       sta_mgr_head := Some (length (cells s))\<rparr>)))"

partial_function (option) remove_loop ::
  "sta_mgr \<Rightarrow> nat option \<Rightarrow> nat option \<Rightarrow> string \<Rightarrow> (int \<times> sta_mgr) option" where
  "remove_loop s prev cur b =
     (case cur of
        None \<Rightarrow> Some (0, s)
      | Some a \<Rightarrow>
          (case deref s a of
             None \<Rightarrow> None
           | Some n \<Rightarrow>
               if cstr (bssid n) = b
               then (case prev of
                       None \<Rightarrow> Some (1, free_cell (s\<lparr>sta_mgr_head := sta_next n\<rparr>) a)
                     | Some p \<Rightarrow>
                         (case deref s p of
                            None \<Rightarrow> None
                          | Some pn \<Rightarrow> Some (1, free_cell (store s p (pn\<lparr>sta_next := sta_next n\<rparr>)) a)))
               else remove_loop s (Some a) (sta_next n) b))"

definition wlan_sta_mgr_remove :: "string \<Rightarrow> sta_mgr \<Rightarrow> (int \<times> sta_mgr) option" where
  "wlan_sta_mgr_remove b s = remove_loop s None (sta_mgr_head s) b"

partial_function (option) count_loop :: "sta_mgr \<Rightarrow> nat option \<Rightarrow> int \<Rightarrow> int option" where
  "count_loop s cur count =
     (case cur of
        None \<Rightarrow> Some count
      | Some a \<Rightarrow>
          (case deref s a of
             None \<Rightarrow> None
           | Some n \<Rightarrow> count_loop s (sta_next n) (count + 1)))"

definition wlan_sta_mgr_count :: "sta_mgr \<Rightarrow> int option" where
  "wlan_sta_mgr_count s = count_loop s (sta_mgr_head s) 0"

text \<open>
  \<open>walk\<close> is the traversal of \<open>wlan_sta_mgr_list_print\<close> and \<open>wlan_sta_mgr_list_debug\<close>:
  the cells in list order with their contents.
\<close>

partial_function (option) walk :: "sta_mgr \<Rightarrow> nat option \<Rightarrow> (nat \<times> station) list option" where
  "walk s cur =
     (case cur of
        None \<Rightarrow> Some []
      | Some a \<Rightarrow>
          (case deref s a of
             None \<Rightarrow> None
           | Some n \<Rightarrow> Option.bind (walk s (sta_next n)) (\<lambda>l. Some ((a, n) # l))))"

definition list_print_lines :: "(int \<Rightarrow> string) \<Rightarrow> station list \<Rightarrow> string list" where
  "list_print_lines ctime l =
     map (\<lambda>n. ''MAC: '' @ cstr (bssid n) @ '' | Connected: '' @ ctime (assoc_time n)) l"

definition wlan_sta_mgr_list_print :: "(int \<Rightarrow> string) \<Rightarrow> sta_mgr \<Rightarrow> string option" where
  "wlan_sta_mgr_list_print ctime s =
     (case walk s (sta_mgr_head s) of
        None \<Rightarrow> None
      | Some l \<Rightarrow> Some (
          [newline] @ ''--------- Current Connected Stations ---------'' @ [newline]
          @ concat (list_print_lines ctime (map snd l))
          @ ''------------------------------------------------'' @ [newline]))"

text \<open>
  The debug list drops the newline \<open>ctime\<close> ends with by clearing the last character of the copy; an empty
  text would be a write before the buffer, the value \<open>None\<close>. The level of the log and its limit belong to
  the shared logging code.
\<close>

definition debug_time :: "string \<Rightarrow> string option" where
  "debug_time t = (let temp = take 255 t in if temp = [] then None else Some (butlast temp))"

fun list_debug_lines :: "(int \<Rightarrow> string) \<Rightarrow> station list \<Rightarrow> string list option" where
  "list_debug_lines ctime [] = Some []"
| "list_debug_lines ctime (n # l) =
     (case debug_time (ctime (assoc_time n)) of
        None \<Rightarrow> None
      | Some t \<Rightarrow> map_option (\<lambda>r. (''MAC: '' @ cstr (bssid n) @ '' | Connected: '' @ t) # r) (list_debug_lines ctime l))"

definition wlan_sta_mgr_list_debug :: "int \<Rightarrow> int \<Rightarrow> (int \<Rightarrow> string) \<Rightarrow> sta_mgr \<Rightarrow> string list option" where
  "wlan_sta_mgr_list_debug g_debug_level log_debug ctime s =
     (if g_debug_level < log_debug then Some []
      else (case walk s (sta_mgr_head s) of
              None \<Rightarrow> None
            | Some l \<Rightarrow> map_option
                (\<lambda>r. [''--------- Current Connected Stations ---------''] @ r
                  @ [''----------------------------------------------'']) (list_debug_lines ctime (map snd l))))"

text \<open>
  The walk that deletes while it follows the saved \<open>next\<close> pointer, shared by
  \<open>wlan_sta_mgr_sync_from_list\<close> and \<open>wlan_nl80211_remove_sta\<close>: \<open>keep\<close> is the test on
  the current station (\<open>None\<close> when the test itself reads out of bounds), \<open>hook\<close> what the
  caller does with a station right before it is removed.
\<close>

partial_function (option) purge_loop ::
  "(string \<Rightarrow> bool option) \<Rightarrow> (string \<Rightarrow> 'e \<Rightarrow> 'e) \<Rightarrow> nat option \<Rightarrow> sta_mgr \<Rightarrow> 'e
     \<Rightarrow> (sta_mgr \<times> 'e) option" where
  "purge_loop keep hook cur s e =
     (case cur of
        None \<Rightarrow> Some (s, e)
      | Some a \<Rightarrow>
          (case deref s a of
             None \<Rightarrow> None
           | Some n \<Rightarrow>
               (case keep (cstr (bssid n)) of
                  None \<Rightarrow> None
                | Some kept \<Rightarrow>
                    if kept then purge_loop keep hook (sta_next n) s e
                    else (case wlan_sta_mgr_remove (cstr (bssid n)) s of
                            None \<Rightarrow> None
                          | Some r \<Rightarrow>
                              purge_loop keep hook (sta_next n) (snd r) (hook (cstr (bssid n)) e)))))"

fun sync_add_loop :: "(nat \<Rightarrow> bool) \<Rightarrow> int \<Rightarrow> cbuffer list \<Rightarrow> sta_mgr \<Rightarrow> sta_mgr option" where
  "sync_add_loop mok now [] s = Some s"
| "sync_add_loop mok now (b # bs) s =
     (if cstr b \<noteq> []
      then (case wlan_sta_mgr_add mok now (Some (cstr b)) s of
              None \<Rightarrow> None
            | Some (_, s') \<Rightarrow> sync_add_loop mok now bs s')
      else sync_add_loop mok now bs s)"

definition in_bssids :: "cbuffer list option \<Rightarrow> int \<Rightarrow> string \<Rightarrow> bool option" where
  "in_bssids bssids count b = map_option (\<lambda>r. r \<noteq> 0) (wlan_utils_find_sta (Some b) bssids count)"

definition wlan_sta_mgr_sync_from_list ::
  "(nat \<Rightarrow> bool) \<Rightarrow> int \<Rightarrow> cbuffer list \<Rightarrow> int \<Rightarrow> sta_mgr \<Rightarrow> sta_mgr option" where
  "wlan_sta_mgr_sync_from_list mok now bssids count s =
     (if int (length bssids) < count then None
      else (case sync_add_loop mok now (take (nat count) bssids) s of
              None \<Rightarrow> None
            | Some s1 \<Rightarrow>
                map_option fst
                  (purge_loop (in_bssids (Some bssids) count) (\<lambda>_ u. u) (sta_mgr_head s1) s1 ())))"

declare clear_loop.simps [code] find_loop.simps [code] remove_loop.simps [code] count_loop.simps [code]
  walk.simps [code] purge_loop.simps [code]

section \<open>The list in the heap\<close>

text \<open>
  \<open>path s p as q\<close>: following \<open>next\<close> from \<open>p\<close> visits the live cells \<open>as\<close> and
  arrives at \<open>q\<close>. \<open>sta_rep s as\<close> is the representation invariant: the cells \<open>as\<close> are
  the list, every live cell is in it (nothing leaked, nothing dangling), no two stations
  have the same BSSID, and every BSSID buffer is terminated and not empty.
\<close>

fun path :: "sta_mgr \<Rightarrow> nat option \<Rightarrow> nat list \<Rightarrow> nat option \<Rightarrow> bool" where
  "path s p [] q \<longleftrightarrow> p = q"
| "path s p (a # as) q \<longleftrightarrow>
     p = Some a \<and> (case deref s a of None \<Rightarrow> False | Some n \<Rightarrow> path s (sta_next n) as q)"

definition node :: "sta_mgr \<Rightarrow> nat \<Rightarrow> station" where
  "node s a = the (deref s a)"

definition sta_name :: "sta_mgr \<Rightarrow> nat \<Rightarrow> string" where
  "sta_name s a = cstr (bssid (node s a))"

definition sta_rep :: "sta_mgr \<Rightarrow> nat list \<Rightarrow> bool" where
  "sta_rep s as \<longleftrightarrow>
     path s (sta_mgr_head s) as None \<and> (\<forall>a. deref s a = None \<longleftrightarrow> a \<notin> set as) \<and>
     distinct (map (sta_name s) as) \<and>
     (\<forall>a \<in> set as. terminated MAC_ADDR_LEN (bssid (node s a)) \<and> sta_name s a \<noteq> [])"

text \<open>The abstract value of the table: BSSID, RSSI, packet count, association time.\<close>

type_synonym sta_view = "string \<times> int \<times> u64 \<times> int"

definition view :: "station \<Rightarrow> sta_view" where
  "view n = (cstr (bssid n), rssi n, priv_pkts n, assoc_time n)"

definition sta_views :: "sta_mgr \<Rightarrow> sta_view list" where
  "sta_views s = (case walk s (sta_mgr_head s) of None \<Rightarrow> [] | Some l \<Rightarrow> map (view \<circ> snd) l)"

definition sta_inv :: "sta_mgr \<Rightarrow> bool" where
  "sta_inv s \<longleftrightarrow> (\<exists>as. sta_rep s as)"

definition good_bssid :: "string \<Rightarrow> bool" where
  "good_bssid b \<longleftrightarrow> b \<noteq> [] \<and> length b < MAC_ADDR_LEN \<and> nul_free b"

lemma good_bssid_text [simp]: "good_bssid (bssid_text m)"
  by (simp add: good_bssid_def MAC_ADDR_LEN_def)

lemma deref_store [simp]:
  "deref (store s a n) b = (if a = b \<and> a < length (cells s) then Some n else deref s b)"
  by (auto simp: deref_def store_def)

lemma deref_free [simp]: "deref (free_cell s a) b = (if a = b then None else deref s b)"
  by (auto simp: deref_def free_cell_def)

lemma deref_head_upd [simp]: "deref (s\<lparr>sta_mgr_head := h\<rparr>) a = deref s a"
  by (simp add: deref_def)

lemma deref_calls_upd [simp]: "deref (s\<lparr>malloc_calls := h\<rparr>) a = deref s a"
  by (simp add: deref_def)

lemma deref_append [simp]:
  "deref (s\<lparr>cells := cells s @ [Some n]\<rparr>) a = (if a = length (cells s) then Some n else deref s a)"
  by (auto simp: deref_def nth_append)

lemma head_store_free [simp]:
  "sta_mgr_head (store s a n) = sta_mgr_head s" "sta_mgr_head (free_cell s a) = sta_mgr_head s"
  "malloc_calls (store s a n) = malloc_calls s" "malloc_calls (free_cell s a) = malloc_calls s"
  by (simp_all add: store_def free_cell_def)

lemma deref_bound: "deref s a = Some n \<Longrightarrow> a < length (cells s)"
  by (auto simp: deref_def split: if_splits)

lemma node_deref: "deref s a = Some n \<Longrightarrow> node s a = n"
  by (simp add: node_def)

lemma path_append: "path s p (xs @ ys) q \<longleftrightarrow> (\<exists>r. path s p xs r \<and> path s r ys q)"
  by (induction xs arbitrary: p) (auto split: option.splits)

lemma path_cong: "(\<And>a. a \<in> set xs \<Longrightarrow> deref t a = deref s a) \<Longrightarrow> path t p xs q = path s p xs q"
  by (induction xs arbitrary: p) (auto split: option.splits)

lemma path_deref: "path s p xs q \<Longrightarrow> a \<in> set xs \<Longrightarrow> deref s a = Some (node s a)"
  by (induction xs arbitrary: p) (auto simp: node_def split: option.splits)

lemma path_Cons_node: "path s p (a # xs) q \<Longrightarrow> path s (sta_next (node s a)) xs q"
  by (auto simp: node_def split: option.splits)

lemma find_loop_path:
  "path s p as None \<Longrightarrow> find_loop s p b = Some (List.find (\<lambda>a. sta_name s a = b) as)"
proof (induction as arbitrary: p)
  case Nil
  then show ?case by (subst find_loop.simps) simp
next
  case (Cons a as)
  then obtain n where n: "p = Some a" "deref s a = Some n" "path s (sta_next n) as None"
    by (auto split: option.splits)
  with Cons.IH [OF n(3)] show ?case
    by (subst find_loop.simps) (simp add: sta_name_def node_def)
qed

lemma count_loop_path: "path s p as None \<Longrightarrow> count_loop s p c = Some (c + int (length as))"
proof (induction as arbitrary: p c)
  case Nil
  then show ?case by (subst count_loop.simps) simp
next
  case (Cons a as)
  then obtain n where "p = Some a" "deref s a = Some n" "path s (sta_next n) as None"
    by (auto split: option.splits)
  with Cons.IH show ?case by (subst count_loop.simps) simp
qed

lemma walk_path: "path s p as None \<Longrightarrow> walk s p = Some (map (\<lambda>a. (a, node s a)) as)"
proof (induction as arbitrary: p)
  case Nil
  then show ?case by (subst walk.simps) simp
next
  case (Cons a as)
  then obtain n where "p = Some a" "deref s a = Some n" "path s (sta_next n) as None"
    by (auto split: option.splits)
  with Cons.IH show ?case by (subst walk.simps) (simp add: node_def)
qed

lemma sta_repI:
  "path s (sta_mgr_head s) as None \<Longrightarrow> (\<And>a. deref s a = None \<longleftrightarrow> a \<notin> set as) \<Longrightarrow>
   distinct (map (sta_name s) as) \<Longrightarrow>
   (\<And>a. a \<in> set as \<Longrightarrow> terminated MAC_ADDR_LEN (bssid (node s a)) \<and> sta_name s a \<noteq> []) \<Longrightarrow>
   sta_rep s as"
  by (simp add: sta_rep_def)

lemma sta_rep_path: "sta_rep s as \<Longrightarrow> path s (sta_mgr_head s) as None"
  by (simp add: sta_rep_def)

lemma sta_rep_live: "sta_rep s as \<Longrightarrow> deref s a = None \<longleftrightarrow> a \<notin> set as"
  by (simp add: sta_rep_def)

lemma sta_rep_cell:
  "sta_rep s as \<Longrightarrow> a \<in> set as \<Longrightarrow> terminated MAC_ADDR_LEN (bssid (node s a)) \<and> sta_name s a \<noteq> []"
  by (simp add: sta_rep_def)

lemma sta_views_rep: "sta_rep s as \<Longrightarrow> sta_views s = map (\<lambda>a. view (node s a)) as"
  by (simp add: sta_views_def walk_path [OF sta_rep_path] comp_def)

text \<open>Both lists show the stations of the table, in order, each with its name and time.\<close>

lemma list_debug_lines_all:
  "\<forall>t. ctime t \<noteq> [] \<Longrightarrow> list_debug_lines ctime l =
     Some (map (\<lambda>n. ''MAC: '' @ cstr (bssid n) @ '' | Connected: '' @ butlast (take 255 (ctime (assoc_time n)))) l)"
  by (induction l) (simp_all add: debug_time_def)

lemma list_prints_table:
  assumes "sta_rep s as"
  shows "wlan_sta_mgr_list_print ctime s = Some ([newline] @ ''--------- Current Connected Stations ---------'' @ [newline]
      @ concat (map (\<lambda>a. ''MAC: '' @ cstr (bssid (node s a)) @ '' | Connected: '' @ ctime (assoc_time (node s a))) as)
      @ ''------------------------------------------------'' @ [newline])"
    and "log_debug \<le> level \<Longrightarrow> \<forall>t. ctime t \<noteq> [] \<Longrightarrow> wlan_sta_mgr_list_debug level log_debug ctime s =
      Some ([''--------- Current Connected Stations ---------'']
      @ map (\<lambda>a. ''MAC: '' @ cstr (bssid (node s a)) @ '' | Connected: '' @ butlast (take 255 (ctime (assoc_time (node s a))))) as
      @ [''----------------------------------------------''])"
  by (simp_all add: wlan_sta_mgr_list_print_def wlan_sta_mgr_list_debug_def walk_path [OF sta_rep_path [OF assms]]
      list_print_lines_def list_debug_lines_all comp_def)

lemma map_fst_views_rep: "sta_rep s as \<Longrightarrow> map fst (sta_views s) = map (sta_name s) as"
  by (simp add: sta_views_rep view_def sta_name_def)

lemma sta_rep_distinct: "sta_rep s as \<Longrightarrow> distinct as"
  by (simp add: sta_rep_def distinct_map)

lemma sta_rep_names: "sta_rep s as \<Longrightarrow> distinct (map (sta_name s) as)"
  by (simp add: sta_rep_def)

lemma sta_rep_inj: "sta_rep s as \<Longrightarrow> inj_on (sta_name s) (set as)"
  by (simp add: sta_rep_def distinct_map)

lemma sta_inv_start [simp]: "sta_inv sta_mgr_start"
  by (auto simp: sta_inv_def sta_rep_def sta_mgr_start_def deref_def intro!: exI [of _ "[]"])

lemma sta_views_start [simp]: "sta_views sta_mgr_start = []"
  by (simp add: sta_views_def sta_mgr_start_def walk.simps)

section \<open>Correctness of the operations\<close>

lemma find_rep:
  "sta_rep s as \<Longrightarrow> wlan_sta_mgr_find b s = Some (List.find (\<lambda>a. sta_name s a = b) as)"
  by (simp add: wlan_sta_mgr_find_def find_loop_path [OF sta_rep_path])

lemma count_rep: "sta_rep s as \<Longrightarrow> wlan_sta_mgr_count s = Some (int (length as))"
  by (simp add: wlan_sta_mgr_count_def count_loop_path [OF sta_rep_path])

lemma clear_loop_path:
  "path s p as None \<Longrightarrow> distinct as \<Longrightarrow>
     \<exists>t. clear_loop s p = Some t \<and> sta_mgr_head t = None \<and>
         (\<forall>a. deref t a = (if a \<in> set as then None else deref s a))"
proof (induction as arbitrary: p s)
  case Nil
  then show ?case by (subst clear_loop.simps) simp
next
  case (Cons a as)
  then obtain n where n: "p = Some a" "deref s a = Some n" "path s (sta_next n) as None"
    by (auto split: option.splits)
  from Cons.prems have "path (free_cell s a) (sta_next n) as None"
    by (subst path_cong [of _ _ s]) (auto simp: n(3))
  from Cons.IH [OF this] Cons.prems n show ?case by (subst clear_loop.simps) auto
qed

lemma clear_rep:
  assumes "sta_rep s as"
  shows "\<exists>t. wlan_sta_mgr_clear s = Some t \<and> sta_rep t [] \<and> sta_views t = []"
proof -
  from clear_loop_path [OF sta_rep_path [OF assms] sta_rep_distinct [OF assms]] obtain t where
    t: "wlan_sta_mgr_clear s = Some t" "sta_mgr_head t = None"
       "\<And>a. deref t a = (if a \<in> set as then None else deref s a)"
    by (auto simp: wlan_sta_mgr_clear_def)
  have "sta_rep t []" using t(2,3) sta_rep_live [OF assms] by (simp add: sta_rep_def)
  with t(1) show ?thesis by (auto simp: sta_views_rep)
qed

lemma find_None_iff_name: "List.find (\<lambda>a. sta_name s a = b) as = None \<longleftrightarrow> b \<notin> sta_name s ` set as"
  by (auto simp: find_None_iff)

lemma add_rep_new:
  assumes rep: "sta_rep s as" and b: "good_bssid b" "b \<notin> sta_name s ` set as"
    and ok: "mok (malloc_calls s)"
  shows "\<exists>t. wlan_sta_mgr_add mok now (Some b) s = Some (1, t) \<and> sta_rep t (length (cells s) # as) \<and>
     sta_views t = (b, 0, 0, now) # sta_views s \<and> malloc_calls t = Suc (malloc_calls s) \<and>
     length (cells t) = Suc (length (cells s))"
proof -
  let ?a = "length (cells s)"
  define n where "n = \<lparr>bssid = strncpy (replicate MAC_ADDR_LEN NUL) b (MAC_ADDR_LEN - 1),
    sta_ip = replicate 16 NUL, rssi = 0, priv_pkts = 0, assoc_time = now, sta_next = sta_mgr_head s\<rparr>"
  define t where "t = s\<lparr>malloc_calls := Suc (malloc_calls s), cells := cells s @ [Some n],
    sta_mgr_head := Some ?a\<rparr>"
  have add: "wlan_sta_mgr_add mok now (Some b) s = Some (1, t)"
    using b ok rep
    by (simp add: wlan_sta_mgr_add_def find_rep find_None_iff_name [THEN iffD2] good_bssid_def t_def n_def)
  have fresh: "a \<in> set as \<Longrightarrow> a \<noteq> ?a" for a
    using rep by (auto simp: sta_rep_def deref_def split: if_splits)
  have old: "deref t a = deref s a" if "a \<noteq> ?a" for a
    using that by (simp add: t_def deref_def nth_append)
  have new: "deref t ?a = Some n" by (simp add: t_def deref_def)
  have nodes: "node t a = node s a" if "a \<in> set as" for a
    using old [OF fresh [OF that]] by (simp add: node_def)
  have trm: "terminated MAC_ADDR_LEN (bssid n)" "cstr (bssid n) = b"
    using b by (simp_all add: n_def MAC_ADDR_LEN_def good_bssid_def cbuf terminated_def)
  have "path t (sta_mgr_head s) as None"
    using rep old fresh by (subst path_cong [of _ _ s]) (auto simp: sta_rep_def)
  then have "path t (sta_mgr_head t) (?a # as) None"
    using new by (simp add: t_def n_def)
  moreover have "deref t a = None \<longleftrightarrow> a \<notin> set (?a # as)" for a
    using sta_rep_live [OF rep, of a] new old [of a] by (cases "a = ?a") auto
  moreover have names: "map (sta_name t) (?a # as) = b # map (sta_name s) as"
    using nodes new trm by (auto simp: sta_name_def node_def)
  moreover have "distinct (map (sta_name t) (?a # as))"
    unfolding names using rep b by (simp add: sta_rep_def)
  moreover have "terminated MAC_ADDR_LEN (bssid (node t a)) \<and> sta_name t a \<noteq> []"
    if "a \<in> set (?a # as)" for a
    using that sta_rep_cell [OF rep] nodes new trm b
    by (auto simp: sta_name_def node_def good_bssid_def)
  ultimately have rep': "sta_rep t (?a # as)" by (intro sta_repI)
  have "sta_views t = (b, 0, 0, now) # sta_views s"
    using sta_views_rep [OF rep'] sta_views_rep [OF rep] nodes new trm
    by (simp add: node_def view_def n_def)
  with add rep' show ?thesis by (auto simp: t_def)
qed

lemma add_rep_known:
  "sta_rep s as \<Longrightarrow> b \<in> sta_name s ` set as \<Longrightarrow> wlan_sta_mgr_add mok now (Some b) s = Some (0, s)"
  using find_None_iff_name [of s b as] sta_rep_cell [of s as]
  by (auto simp: wlan_sta_mgr_add_def find_rep)

lemma add_rep_nomem:
  "sta_rep s as \<Longrightarrow> b \<noteq> [] \<Longrightarrow> b \<notin> sta_name s ` set as \<Longrightarrow> \<not> mok (malloc_calls s) \<Longrightarrow>
     wlan_sta_mgr_add mok now (Some b) s = Some (-1, s\<lparr>malloc_calls := Suc (malloc_calls s)\<rparr>)"
  by (simp add: wlan_sta_mgr_add_def find_rep find_None_iff_name [THEN iffD2])

lemma remove_loop_skip:
  "path s cur (xs @ a # ys) q \<Longrightarrow> \<forall>x \<in> set xs. sta_name s x \<noteq> b \<Longrightarrow>
     remove_loop s prev cur b = remove_loop s (if xs = [] then prev else Some (last xs)) (Some a) b"
proof (induction xs arbitrary: cur prev)
  case Nil
  then show ?case by (auto split: option.splits)
next
  case (Cons x xs)
  then obtain n where n: "cur = Some x" "deref s x = Some n" "path s (sta_next n) (xs @ a # ys) q"
    by (auto split: option.splits)
  have "remove_loop s prev cur b = remove_loop s (Some x) (sta_next n) b"
    using n Cons.prems(2) by (subst remove_loop.simps) (auto simp: sta_name_def node_def)
  with Cons.IH [OF n(3), of "Some x"] Cons.prems(2) show ?case by simp
qed

lemma remove_loop_absent:
  "path s cur as None \<Longrightarrow> \<forall>x \<in> set as. sta_name s x \<noteq> b \<Longrightarrow> remove_loop s prev cur b = Some (0, s)"
proof (induction as arbitrary: cur prev)
  case Nil
  then show ?case by (subst remove_loop.simps) simp
next
  case (Cons x xs)
  then obtain n where n: "cur = Some x" "deref s x = Some n" "path s (sta_next n) xs None"
    by (auto split: option.splits)
  with Cons show ?case by (subst remove_loop.simps) (auto simp: sta_name_def node_def)
qed

lemma remove_at:
  assumes rep: "sta_rep s (xs @ a # ys)"
  shows "\<exists>t. wlan_sta_mgr_remove (sta_name s a) s = Some (1, t) \<and> sta_rep t (xs @ ys) \<and>
     path t (sta_next (node s a)) ys None \<and> malloc_calls t = malloc_calls s \<and>
     (\<forall>c \<in> set (xs @ ys). \<exists>m. node t c = (node s c)\<lparr>sta_next := m\<rparr>)"
proof -
  let ?b = "sta_name s a" and ?n = "node s a"
  from rep have dist: "distinct (xs @ a # ys)" by (rule sta_rep_distinct)
  have "sta_name s x \<noteq> ?b" if "x \<in> set xs" for x
    using inj_onD [OF sta_rep_inj [OF rep], of x a] dist that by auto
  then have "\<forall>x \<in> set xs. sta_name s x \<noteq> ?b" by blast
  note skip = remove_loop_skip [OF sta_rep_path [OF rep] this, of None]
  have da: "deref s a = Some ?n" using path_deref [OF sta_rep_path [OF rep]] by simp
  obtain q where "path s (sta_mgr_head s) xs q" and "path s q (a # ys) None"
    using sta_rep_path [OF rep] path_append by blast
  then have pre: "path s (sta_mgr_head s) xs (Some a)" and post: "path s (sta_next ?n) ys None"
    using path_Cons_node by auto
  have "\<exists>t. wlan_sta_mgr_remove ?b s = Some (1, t) \<and> path t (sta_mgr_head t) xs (sta_next ?n) \<and>
     deref t a = None \<and> malloc_calls t = malloc_calls s \<and>
     (\<forall>c. c \<noteq> a \<longrightarrow> c \<notin> set xs \<longrightarrow> deref t c = deref s c) \<and>
     (\<forall>c. c \<noteq> a \<longrightarrow> c \<in> set xs \<longrightarrow> (\<exists>m. deref t c = Some ((node s c)\<lparr>sta_next := m\<rparr>)))"
  proof (cases xs rule: rev_cases)
    case Nil
    with skip da show ?thesis
      by (simp add: wlan_sta_mgr_remove_def remove_loop.simps [of s None "Some a"] sta_name_def)
  next
    case (snoc us p)
    with pre obtain pn where pn: "path s (sta_mgr_head s) us (Some p)" "deref s p = Some pn"
      "sta_next pn = Some a"
      by (auto simp: path_append split: option.splits)
    define t where "t = free_cell (store s p (pn\<lparr>sta_next := sta_next ?n\<rparr>)) a"
    have "wlan_sta_mgr_remove ?b s = Some (1, t)"
      using skip da pn snoc
      by (simp add: wlan_sta_mgr_remove_def remove_loop.simps [of s "Some p" "Some a"] sta_name_def t_def)
    moreover have "path t (sta_mgr_head s) us (Some p)"
      using dist snoc pn(1) by (subst path_cong [of _ _ s]) (auto simp: t_def)
    then have "path t (sta_mgr_head t) xs (sta_next ?n)"
      using dist snoc deref_bound [OF pn(2)] by (auto simp: path_append t_def)
    moreover have "\<exists>m. deref t c = Some ((node s c)\<lparr>sta_next := m\<rparr>)" if "c \<in> set xs" "c \<noteq> a" for c
    proof (cases "c = p")
      case True
      then show ?thesis using deref_bound [OF pn(2)] pn(2) that by (auto simp: t_def node_def)
    next
      case False
      then have "deref t c = deref s c" using that by (simp add: t_def)
      moreover have "deref s c = Some (node s c)"
        using path_deref [OF sta_rep_path [OF rep]] that by simp
      ultimately show ?thesis by (auto intro: exI [of _ "sta_next (node s c)"])
    qed
    moreover have "deref t a = None" "malloc_calls t = malloc_calls s"
      "\<forall>c. c \<noteq> a \<longrightarrow> c \<notin> set xs \<longrightarrow> deref t c = deref s c"
      using snoc by (auto simp: t_def)
    ultimately show ?thesis by blast
  qed
  then obtain t where t: "wlan_sta_mgr_remove ?b s = Some (1, t)"
    "path t (sta_mgr_head t) xs (sta_next ?n)" "deref t a = None" "malloc_calls t = malloc_calls s"
    "\<And>c. c \<noteq> a \<Longrightarrow> c \<notin> set xs \<Longrightarrow> deref t c = deref s c"
    "\<And>c. c \<noteq> a \<Longrightarrow> c \<in> set xs \<Longrightarrow> \<exists>m. deref t c = Some ((node s c)\<lparr>sta_next := m\<rparr>)"
    by blast
  have ys: "path t (sta_next ?n) ys None"
  proof (subst path_cong [of _ _ s])
    fix c assume "c \<in> set ys"
    with dist have "c \<noteq> a" "c \<notin> set xs" by auto
    then show "deref t c = deref s c" by (rule t(5))
  qed (rule post)
  have upd: "\<exists>m. node t c = (node s c)\<lparr>sta_next := m\<rparr>" if "c \<in> set (xs @ ys)" for c
  proof (cases "c \<in> set xs")
    case True
    with dist have "c \<noteq> a" by auto
    from t(6) [OF this True] show ?thesis by (auto simp: node_def)
  next
    case False
    with that dist have "c \<noteq> a" by auto
    from t(5) [OF this False] have "node t c = node s c" by (simp add: node_def)
    then show ?thesis by (auto intro: exI [of _ "sta_next (node s c)"])
  qed
  have same: "bssid (node t c) = bssid (node s c)" if "c \<in> set (xs @ ys)" for c
    using upd [OF that] by auto
  have "sta_rep t (xs @ ys)"
  proof (rule sta_repI)
    show "path t (sta_mgr_head t) (xs @ ys) None" using t(2) ys by (auto simp: path_append)
    show "deref t c = None \<longleftrightarrow> c \<notin> set (xs @ ys)" for c
      using sta_rep_live [OF rep, of c] t(3) t(5) [of c] t(6) [of c] dist
      by (cases "c = a"; cases "c \<in> set xs") auto
    have "map (sta_name t) (xs @ ys) = map (sta_name s) (xs @ ys)"
      using same by (simp add: sta_name_def)
    moreover have "distinct (map (sta_name s) (xs @ ys))" using rep by (simp add: sta_rep_def)
    ultimately show "distinct (map (sta_name t) (xs @ ys))" by metis
    show "terminated MAC_ADDR_LEN (bssid (node t c)) \<and> sta_name t c \<noteq> []" if "c \<in> set (xs @ ys)" for c
      using that same [OF that] sta_rep_cell [OF rep, of c] by (auto simp: sta_name_def)
  qed
  with t(1,4) ys upd show ?thesis by blast
qed

section \<open>The operations on the abstract table\<close>

lemma views_names: "sta_rep s as \<Longrightarrow> fst ` set (sta_views s) = sta_name s ` set as"
  using map_fst_views_rep [of s as] by (metis list.set_map)

lemma sta_invE:
  assumes "sta_inv s"
  obtains as where "sta_rep s as" "fst ` set (sta_views s) = sta_name s ` set as"
  using assms views_names by (auto simp: sta_inv_def)

lemma sta_inv_distinct: "sta_inv s \<Longrightarrow> distinct (map fst (sta_views s))"
  by (elim sta_invE) (simp add: map_fst_views_rep sta_rep_names)

lemma views_names_nonempty: "sta_inv s \<Longrightarrow> b \<in> fst ` set (sta_views s) \<Longrightarrow> b \<noteq> []"
  by (elim sta_invE) (auto dest: sta_rep_cell)

lemma wlan_sta_mgr_count_eq: "sta_inv s \<Longrightarrow> wlan_sta_mgr_count s = Some (int (length (sta_views s)))"
  by (elim sta_invE) (simp add: count_rep sta_views_rep)

lemma wlan_sta_mgr_clear_eq:
  "sta_inv s \<Longrightarrow> \<exists>t. wlan_sta_mgr_clear s = Some t \<and> sta_inv t \<and> sta_views t = []"
  by (elim sta_invE, drule clear_rep) (auto simp: sta_inv_def)

lemma add_new:
  "sta_inv s \<Longrightarrow> good_bssid b \<Longrightarrow> b \<notin> fst ` set (sta_views s) \<Longrightarrow> mok (malloc_calls s) \<Longrightarrow>
     \<exists>t. wlan_sta_mgr_add mok now (Some b) s = Some (1, t) \<and> sta_inv t \<and>
         sta_views t = (b, 0, 0, now) # sta_views s \<and> malloc_calls t = Suc (malloc_calls s)"
proof -
  assume "sta_inv s" and b: "good_bssid b" "b \<notin> fst ` set (sta_views s)" "mok (malloc_calls s)"
  then obtain as where "sta_rep s as" by (auto simp: sta_inv_def)
  with add_rep_new [where mok = mok and now = now, OF this b(1) _ b(3)] b(2) show ?thesis
    by (auto simp: views_names sta_inv_def)
qed

lemma add_known:
  "sta_inv s \<Longrightarrow> b \<in> fst ` set (sta_views s) \<Longrightarrow> wlan_sta_mgr_add mok now (Some b) s = Some (0, s)"
  by (elim sta_invE) (simp add: add_rep_known)

lemma sta_rep_calls [simp]: "sta_rep (s\<lparr>malloc_calls := k\<rparr>) as = sta_rep s as"
proof -
  have "path (s\<lparr>malloc_calls := k\<rparr>) p xs q = path s p xs q" for p xs q
    by (rule path_cong) simp
  then show ?thesis by (simp add: sta_rep_def node_def sta_name_def [abs_def])
qed

lemma sta_inv_calls [simp]: "sta_inv (s\<lparr>malloc_calls := k\<rparr>) = sta_inv s"
  by (simp add: sta_inv_def)

lemma sta_views_calls: "sta_inv s \<Longrightarrow> sta_views (s\<lparr>malloc_calls := k\<rparr>) = sta_views s"
  by (auto simp: sta_inv_def sta_views_rep node_def)

lemma add_nomem:
  "sta_inv s \<Longrightarrow> good_bssid b \<Longrightarrow> b \<notin> fst ` set (sta_views s) \<Longrightarrow> \<not> mok (malloc_calls s) \<Longrightarrow>
     wlan_sta_mgr_add mok now (Some b) s = Some (-1, s\<lparr>malloc_calls := Suc (malloc_calls s)\<rparr>)"
  by (elim sta_invE) (simp add: add_rep_nomem good_bssid_def)

lemma remove_known:
  assumes "sta_inv s" "b \<in> fst ` set (sta_views s)"
  shows "\<exists>t. wlan_sta_mgr_remove b s = Some (1, t) \<and> sta_inv t \<and>
     sta_views t = filter (\<lambda>v. fst v \<noteq> b) (sta_views s) \<and> malloc_calls t = malloc_calls s"
proof -
  from assms(1) obtain as where rep: "sta_rep s as" by (auto simp: sta_inv_def)
  with assms(2) obtain a where "a \<in> set as" and b: "b = sta_name s a" by (auto simp: views_names)
  then obtain xs ys where as: "as = xs @ a # ys" by (meson split_list)
  from remove_at rep as obtain t where t: "wlan_sta_mgr_remove b s = Some (1, t)" "sta_rep t (xs @ ys)"
    "malloc_calls t = malloc_calls s" "\<forall>c \<in> set (xs @ ys). \<exists>m. node t c = (node s c)\<lparr>sta_next := m\<rparr>"
    unfolding b by blast
  have same: "view (node t c) = view (node s c)" if "c \<in> set (xs @ ys)" for c
    using bspec [OF t(4) that] by (auto simp: view_def)
  have "fst (view (node s c)) = b \<longleftrightarrow> c = a" if "c \<in> set as" for c
    using inj_onD [OF sta_rep_inj [OF rep], of c a] that as by (auto simp: b view_def sta_name_def)
  moreover have "a \<notin> set (xs @ ys)" using sta_rep_distinct [OF rep] as by simp
  ultimately have "filter (\<lambda>c. fst (view (node s c)) \<noteq> b) xs = xs"
    "filter (\<lambda>c. fst (view (node s c)) \<noteq> b) ys = ys" "fst (view (node s a)) = b"
    using as by (auto intro!: filter_True)
  then have "filter (\<lambda>v. fst v \<noteq> b) (sta_views s) = map (\<lambda>c. view (node s c)) (xs @ ys)"
    using as by (simp add: sta_views_rep [OF rep] filter_map comp_def)
  also have "\<dots> = sta_views t" using same by (simp add: sta_views_rep [OF t(2)])
  finally show ?thesis using t by (auto simp: sta_inv_def)
qed

lemma remove_unknown:
  "sta_inv s \<Longrightarrow> b \<notin> fst ` set (sta_views s) \<Longrightarrow> wlan_sta_mgr_remove b s = Some (0, s)"
  by (elim sta_invE)
    (auto simp: wlan_sta_mgr_remove_def intro!: remove_loop_absent [OF sta_rep_path])

text \<open>
  \<open>sta->rssi\<close> and \<open>sta->priv_pkts\<close> written through the pointer \<open>wlan_sta_mgr_find\<close> returned.
\<close>

definition write_stats :: "sta_mgr \<Rightarrow> nat \<Rightarrow> int \<Rightarrow> u64 \<Rightarrow> sta_mgr" where
  "write_stats s a r p = store s a ((node s a)\<lparr>rssi := r, priv_pkts := p\<rparr>)"

definition with_stats :: "string \<Rightarrow> int \<Rightarrow> u64 \<Rightarrow> sta_view \<Rightarrow> sta_view" where
  "with_stats b r p v = (if fst v = b then (b, r, p, snd (snd (snd v))) else v)"

lemma write_stats_rep:
  assumes rep: "sta_rep s as" and a: "a \<in> set as"
  shows "sta_rep (write_stats s a r p) as \<and>
     sta_views (write_stats s a r p) = map (with_stats (sta_name s a) r p) (sta_views s)"
proof -
  let ?t = "write_stats s a r p"
  from path_deref [OF sta_rep_path [OF rep] a] have da: "deref s a = Some (node s a)" .
  have der: "deref ?t c = (if c = a then Some ((node s a)\<lparr>rssi := r, priv_pkts := p\<rparr>) else deref s c)" for c
    using deref_bound [OF da] by (auto simp: write_stats_def)
  have path: "path ?t q xs None = path s q xs None" for q xs
  proof (induction xs arbitrary: q)
    case (Cons x xs)
    then show ?case using da by (cases "x = a") (simp_all add: der split: option.split)
  qed simp
  have nt: "node ?t c = (if c = a then (node s a)\<lparr>rssi := r, priv_pkts := p\<rparr> else node s c)" for c
    unfolding node_def [of ?t] der by (cases "c = a") (simp_all add: node_def)
  then have bs: "bssid (node ?t c) = bssid (node s c)" for c by simp
  then have nm: "sta_name ?t = sta_name s" by (simp add: sta_name_def fun_eq_iff)
  have hd: "sta_mgr_head ?t = sta_mgr_head s" by (simp add: write_stats_def)
  have rep': "sta_rep ?t as"
  proof (rule sta_repI)
    show "path ?t (sta_mgr_head ?t) as None" using sta_rep_path [OF rep] by (simp only: path hd)
    show "deref ?t c = None \<longleftrightarrow> c \<notin> set as" for c
      using sta_rep_live [OF rep, of c] a by (simp add: der)
    show "distinct (map (sta_name ?t) as)" using sta_rep_names [OF rep] by (simp only: nm)
    show "terminated MAC_ADDR_LEN (bssid (node ?t c)) \<and> sta_name ?t c \<noteq> []" if "c \<in> set as" for c
      using sta_rep_cell [OF rep that] by (simp add: bs nm)
  qed
  have "view (node ?t c) = with_stats (sta_name s a) r p (view (node s c))" if "c \<in> set as" for c
  proof (cases "c = a")
    case True
    then show ?thesis by (simp add: view_def with_stats_def sta_name_def nt)
  next
    case False
    with inj_onD [OF sta_rep_inj [OF rep], of c a] a that have "sta_name s c \<noteq> sta_name s a" by blast
    with False show ?thesis by (simp add: view_def with_stats_def sta_name_def nt)
  qed
  with rep' show ?thesis by (simp add: sta_views_rep [OF rep'] sta_views_rep [OF rep])
qed

lemma find_known:
  assumes "sta_inv s" "b \<in> fst ` set (sta_views s)"
  shows "\<exists>a. wlan_sta_mgr_find b s = Some (Some a) \<and> view (node s a) \<in> set (sta_views s) \<and>
     fst (view (node s a)) = b \<and> sta_inv (write_stats s a r p) \<and>
     sta_views (write_stats s a r p) = map (with_stats b r p) (sta_views s)"
proof -
  from assms obtain as where rep: "sta_rep s as" by (auto simp: sta_inv_def)
  with assms(2) have "List.find (\<lambda>a. sta_name s a = b) as \<noteq> None"
    by (simp add: find_None_iff_name views_names)
  then obtain a where a: "List.find (\<lambda>a. sta_name s a = b) as = Some a" by blast
  then have "a \<in> set as" "sta_name s a = b" by (auto simp: find_Some_iff)
  with rep a write_stats_rep [OF rep \<open>a \<in> set as\<close>, of r p] show ?thesis
    by (auto simp: find_rep sta_inv_def sta_views_rep view_def sta_name_def)
qed

lemma find_unknown:
  "sta_inv s \<Longrightarrow> b \<notin> fst ` set (sta_views s) \<Longrightarrow> wlan_sta_mgr_find b s = Some None"
  by (elim sta_invE) (simp add: find_rep find_None_iff_name)

lemma write_stats_calls [frame]: "malloc_calls (write_stats s a r p) = malloc_calls s"
  by (simp add: write_stats_def)

section \<open>Deleting while walking\<close>

lemma purge_loop_rep:
  assumes "sta_rep s (xs @ ys)" "path s cur ys None"
    "\<And>a. a \<in> set ys \<Longrightarrow> keep (sta_name s a) = Some (K (sta_name s a))"
  shows "\<exists>t. purge_loop keep hook cur s e =
       Some (t, fold hook (filter (\<lambda>b. \<not> K b) (map (sta_name s) ys)) e) \<and>
     sta_rep t (xs @ filter (\<lambda>a. K (sta_name s a)) ys) \<and> malloc_calls t = malloc_calls s \<and>
     (\<forall>c \<in> set (xs @ filter (\<lambda>a. K (sta_name s a)) ys). view (node t c) = view (node s c))"
  using assms
proof (induction ys arbitrary: s cur e xs)
  case Nil
  then show ?case by (subst purge_loop.simps) simp
next
  case (Cons a ys)
  from Cons.prems(2) obtain n where n: "cur = Some a" "deref s a = Some n" "path s (sta_next n) ys None"
    by (auto split: option.splits)
  have nd: "node s a = n" "cstr (bssid n) = sta_name s a" using n(2) by (simp_all add: node_def sta_name_def)
  show ?case
  proof (cases "K (sta_name s a)")
    case True
    have "purge_loop keep hook cur s e = purge_loop keep hook (sta_next n) s e"
      using n nd True Cons.prems(3) [of a] by (subst purge_loop.simps) simp
    with Cons.IH [of s "xs @ [a]" "sta_next n" e] Cons.prems n(3) True show ?thesis by simp
  next
    case False
    from remove_at [OF Cons.prems(1)] nd obtain t where
      t: "wlan_sta_mgr_remove (sta_name s a) s = Some (1, t)" "sta_rep t (xs @ ys)"
         "path t (sta_next n) ys None" "malloc_calls t = malloc_calls s"
         "\<forall>c \<in> set (xs @ ys). \<exists>m. node t c = (node s c)\<lparr>sta_next := m\<rparr>"
      by metis
    have same: "view (node t c) = view (node s c)" "sta_name t c = sta_name s c"
      if "c \<in> set (xs @ ys)" for c
      using bspec [OF t(5) that] by (auto simp: view_def sta_name_def)
    have run: "purge_loop keep hook cur s e = purge_loop keep hook (sta_next n) t (hook (sta_name s a) e)"
      using n nd False Cons.prems(3) [of a] t(1) by (subst purge_loop.simps) simp
    have eqs: "map (sta_name t) ys = map (sta_name s) ys"
      "filter (\<lambda>a. K (sta_name t a)) ys = filter (\<lambda>a. K (sta_name s a)) ys"
      using same by (auto intro: filter_cong)
    have "keep (sta_name t c) = Some (K (sta_name t c))" if "c \<in> set ys" for c
      using Cons.prems(3) [of c] same(2) [of c] that by simp
    note Cons.IH [OF t(2,3) this, of "hook (sta_name s a) e", unfolded eqs t(4)]
    with run False same(1) show ?thesis by auto
  qed
qed

lemma purge_inv:
  assumes inv: "sta_inv s" and keep: "\<And>b. b \<in> fst ` set (sta_views s) \<Longrightarrow> keep b = Some (K b)"
  shows "\<exists>t. purge_loop keep hook (sta_mgr_head s) s e =
       Some (t, fold hook (filter (\<lambda>b. \<not> K b) (map fst (sta_views s))) e) \<and>
     sta_inv t \<and> sta_views t = filter (\<lambda>v. K (fst v)) (sta_views s) \<and> malloc_calls t = malloc_calls s"
proof -
  from inv obtain as where rep: "sta_rep s as" and nm: "fst ` set (sta_views s) = sta_name s ` set as"
    by (rule sta_invE)
  let ?ks = "filter (\<lambda>a. K (sta_name s a)) as"
  have "keep (sta_name s a) = Some (K (sta_name s a))" if "a \<in> set as" for a
    using that by (intro keep) (simp add: nm)
  with purge_loop_rep [of s "[]" as "sta_mgr_head s" keep K hook e] rep sta_rep_path [OF rep]
  obtain t where t: "purge_loop keep hook (sta_mgr_head s) s e =
       Some (t, fold hook (filter (\<lambda>b. \<not> K b) (map (sta_name s) as)) e)"
    "sta_rep t ?ks" "malloc_calls t = malloc_calls s" "\<forall>c \<in> set ?ks. view (node t c) = view (node s c)"
    by auto
  have "sta_views t = map (\<lambda>c. view (node s c)) ?ks"
    using t(4) by (simp add: sta_views_rep [OF t(2)])
  also have "\<dots> = filter (\<lambda>v. K (fst v)) (sta_views s)"
    by (simp add: sta_views_rep [OF rep] filter_map comp_def view_def sta_name_def)
  finally show ?thesis using t map_fst_views_rep [OF rep] by (auto simp: sta_inv_def)
qed

section \<open>The station table as an interface\<close>

text \<open>
  What the netlink layer relies on. \<open>views\<close> is the abstract table; every law is stated for
  states that satisfy \<open>inv\<close> and gives back a state that does.
\<close>

locale station_table =
  fixes inv :: "'s \<Rightarrow> bool"
    and views :: "'s \<Rightarrow> sta_view list"
    and calls :: "'s \<Rightarrow> nat"
    and add :: "(nat \<Rightarrow> bool) \<Rightarrow> int \<Rightarrow> string option \<Rightarrow> 's \<Rightarrow> (int \<times> 's) option"
    and remove :: "string \<Rightarrow> 's \<Rightarrow> (int \<times> 's) option"
    and count :: "'s \<Rightarrow> int option"
  assumes distinct_names: "inv s \<Longrightarrow> distinct (map fst (views s))"
    and count_law: "inv s \<Longrightarrow> count s = Some (int (length (views s)))"
    and add_fresh: "inv s \<Longrightarrow> good_bssid b \<Longrightarrow> b \<notin> fst ` set (views s) \<Longrightarrow> mok (calls s) \<Longrightarrow>
      \<exists>t. add mok now (Some b) s = Some (1, t) \<and> inv t \<and> views t = (b, 0, 0, now) # views s"
    and add_present: "inv s \<Longrightarrow> b \<in> fst ` set (views s) \<Longrightarrow> add mok now (Some b) s = Some (0, s)"
    and add_failed: "inv s \<Longrightarrow> good_bssid b \<Longrightarrow> b \<notin> fst ` set (views s) \<Longrightarrow> \<not> mok (calls s) \<Longrightarrow>
      \<exists>t. add mok now (Some b) s = Some (-1, t) \<and> inv t \<and> views t = views s"
    and remove_present: "inv s \<Longrightarrow> b \<in> fst ` set (views s) \<Longrightarrow>
      \<exists>t. remove b s = Some (1, t) \<and> inv t \<and> views t = filter (\<lambda>v. fst v \<noteq> b) (views s)"
    and remove_absent: "inv s \<Longrightarrow> b \<notin> fst ` set (views s) \<Longrightarrow> remove b s = Some (0, s)"
begin

lemma add_total:
  assumes "inv s" "good_bssid b"
  obtains r t where "add mok now (Some b) s = Some (r, t)" "inv t"
    "views t = (if r = 1 then (b, 0, 0, now) # views s else views s)"
    "r = 1 \<longleftrightarrow> b \<notin> fst ` set (views s) \<and> mok (calls s)" "0 < r \<longleftrightarrow> r = 1"
proof (cases "b \<in> fst ` set (views s)")
  case True
  with add_present [OF assms(1)] assms(1) that [of 0 s] show ?thesis by simp
next
  case False
  show ?thesis
  proof (cases "mok (calls s)")
    case True
    from add_fresh [where mok = mok and now = now, OF assms False True] obtain t where
      "add mok now (Some b) s = Some (1, t)" "inv t" "views t = (b, 0, 0, now) # views s" by blast
    with that [of 1 t] False True show ?thesis by simp
  next
    case no: False
    from add_failed [where mok = mok and now = now, OF assms False no] obtain t where
      "add mok now (Some b) s = Some (-1, t)" "inv t" "views t = views s" by blast
    with that [of "-1" t] False no show ?thesis by simp
  qed
qed

lemma remove_total:
  assumes "inv s"
  obtains r t where "remove b s = Some (r, t)" "inv t" "views t = filter (\<lambda>v. fst v \<noteq> b) (views s)"
    "r = (if b \<in> fst ` set (views s) then 1 else 0)"
proof (cases "b \<in> fst ` set (views s)")
  case True
  from remove_present [OF assms True] obtain t where
    "remove b s = Some (1, t)" "inv t" "views t = filter (\<lambda>v. fst v \<noteq> b) (views s)" by blast
  with that [of 1 t] True show ?thesis by simp
next
  case False
  then have "filter (\<lambda>v. fst v \<noteq> b) (views s) = views s" by (intro filter_True) force
  with False remove_absent [OF assms] that [of 0 s] assms show ?thesis by simp
qed

lemma add_then_remove:
  assumes "inv s" "good_bssid b" "b \<notin> fst ` set (views s)" "mok (calls s)"
  shows "\<exists>t u. add mok now (Some b) s = Some (1, t) \<and> remove b t = Some (1, u) \<and> inv u \<and>
    views u = views s"
proof -
  from add_fresh [where mok = mok and now = now, OF assms] obtain t where
    t: "add mok now (Some b) s = Some (1, t)" "inv t" "views t = (b, 0, 0, now) # views s"
    by blast
  have "filter (\<lambda>v. fst v \<noteq> b) (views s) = views s"
    using assms(3) by (intro filter_True) force
  with t remove_present [of t b] show ?thesis by auto
qed

end

interpretation stab: station_table sta_inv sta_views malloc_calls
  wlan_sta_mgr_add wlan_sta_mgr_remove wlan_sta_mgr_count
proof (unfold_locales, goal_cases)
  case (1 s)
  then show ?case by (rule sta_inv_distinct)
next
  case (2 s)
  then show ?case by (rule wlan_sta_mgr_count_eq)
next
  case (3 s b mok now)
  from add_new [where mok = mok and now = now, OF 3] show ?case by blast
next
  case (4 s b mok now)
  then show ?case by (rule add_known)
next
  case (5 s b mok now)
  then show ?case by (simp add: add_nomem sta_views_calls)
next
  case (6 s b)
  from remove_known [OF 6] show ?case by blast
next
  case (7 s b)
  then show ?case by (rule remove_unknown)
qed

section \<open>Synchronising the table with a list\<close>

lemma terminated_cstr_less:
  assumes "terminated n b"
  shows "length (cstr b) < n"
proof (rule ccontr)
  assume "\<not> length (cstr b) < n"
  with assms length_cstr_le [of b] have "length (cstr b) = length b"
    by (simp add: terminated_def)
  moreover have "cstr b = take (length (cstr b)) b"
    unfolding cstr_def by (rule takeWhile_eq_take)
  ultimately have "cstr b = b" by simp
  then have "nul_free b" using nul_free_cstr [of b] by simp
  moreover have "b ! (n - 1) \<in> set b" using assms by (intro nth_mem) (simp add: terminated_def)
  ultimately show False using assms by (simp add: nul_free_def terminated_def)
qed

lemma terminated_good: "terminated MAC_ADDR_LEN b \<Longrightarrow> cstr b \<noteq> [] \<Longrightarrow> good_bssid (cstr b)"
  by (simp add: good_bssid_def terminated_cstr_less)

lemma sync_add_loop_inv:
  assumes "sta_inv s" "\<forall>b \<in> set bs. terminated MAC_ADDR_LEN b" "\<forall>k. mok k"
  shows "\<exists>t. sync_add_loop mok now bs s = Some t \<and> sta_inv t \<and>
     fst ` set (sta_views t) = fst ` set (sta_views s) \<union> (cstr ` set bs - {[]})"
  using assms
proof (induction bs arbitrary: s)
  case Nil
  then show ?case by simp
next
  case (Cons b bs)
  show ?case
  proof (cases "cstr b = []")
    case True
    with Cons show ?thesis by auto
  next
    case False
    with Cons.prems have "good_bssid (cstr b)" by (simp add: terminated_good)
    then obtain r t where
      t: "wlan_sta_mgr_add mok now (Some (cstr b)) s = Some (r, t)" "sta_inv t"
         "sta_views t = (if r = 1 then (cstr b, 0, 0, now) # sta_views s else sta_views s)"
         "r = 1 \<longleftrightarrow> cstr b \<notin> fst ` set (sta_views s) \<and> mok (malloc_calls s)" "0 < r \<longleftrightarrow> r = 1"
      by (rule stab.add_total [where mok = mok and now = now, OF Cons.prems(1)])
    from t(3,4) Cons.prems(3) have
      "fst ` set (sta_views t) = insert (cstr b) (fst ` set (sta_views s))" by auto
    with Cons.IH [OF t(2) _ Cons.prems(3)] Cons.prems(2) t(1) False show ?thesis by auto
  qed
qed

lemma sync_from_list_inv:
  assumes inv: "sta_inv s" and bs: "\<forall>b \<in> set bs. terminated MAC_ADDR_LEN b" "\<forall>k. mok k"
    and n: "0 \<le> n" "n \<le> int (length bs)"
  shows "\<exists>t. wlan_sta_mgr_sync_from_list mok now bs n s = Some t \<and> sta_inv t \<and>
     fst ` set (sta_views t) = cstr ` set (take (nat n) bs) - {[]}"
proof -
  let ?bs = "take (nat n) bs"
  define B where "B = cstr ` set ?bs"
  have "\<forall>b \<in> set ?bs. terminated MAC_ADDR_LEN b" using bs(1) by (auto dest: in_set_takeD)
  from sync_add_loop_inv [OF inv this bs(2), of now] obtain s1 where
    s1: "sync_add_loop mok now ?bs s = Some s1" "sta_inv s1"
    "fst ` set (sta_views s1) = fst ` set (sta_views s) \<union> (B - {[]})"
    unfolding B_def by blast
  have "in_bssids (Some bs) n b = Some (b \<in> B)" for b
    by (simp add: in_bssids_def wlan_utils_find_sta_eq [OF n(2)] B_def)
  from purge_inv [where K = "\<lambda>b. b \<in> B", OF s1(2) this, of "\<lambda>_ u. u" "()"] obtain t where
    t: "purge_loop (in_bssids (Some bs) n) (\<lambda>_ u. u) (sta_mgr_head s1) s1 () = Some (t, ())"
    "sta_inv t" "sta_views t = filter (\<lambda>v. fst v \<in> B) (sta_views s1)"
    by auto
  have "fst ` set (sta_views t) = fst ` set (sta_views s1) \<inter> B"
    unfolding t(3) by auto
  moreover have "[] \<notin> fst ` set (sta_views s1)" using views_names_nonempty [OF s1(2)] by blast
  ultimately have "fst ` set (sta_views t) = B - {[]}"
    unfolding s1(3) by blast
  with t(1,2) s1(1) n show ?thesis by (simp add: wlan_sta_mgr_sync_from_list_def B_def)
qed

section \<open>Properties\<close>

text \<open>
  C18. While memory can be had, synchronising the table with a list of BSSID buffers returns, keeps the list in the heap
  well formed (no dangling pointer, no leaked cell, no duplicate) and leaves exactly the
  non-empty names of the list in it, although it deletes cells while it walks the list.
\<close>

theorem sync_from_list_exact:
  assumes "sta_inv s" "\<forall>b \<in> set bs. terminated MAC_ADDR_LEN b" "\<forall>k. mok k"
    and "0 \<le> n" "n \<le> int (length bs)"
  shows "\<exists>t. wlan_sta_mgr_sync_from_list mok now bs n s = Some t \<and> sta_inv t \<and>
     fst ` set (sta_views t) = cstr ` set (take (nat n) bs) - {[]}"
  by (rule sync_from_list_inv [OF assms])

theorem sync_from_list_exact_witness:
  "\<exists>t. wlan_sta_mgr_sync_from_list (\<lambda>_. True) 5
       [''aa'' @ replicate 16 NUL, replicate 18 NUL, ''bb'' @ replicate 16 NUL] 2 sta_mgr_start = Some t \<and>
     sta_inv t \<and> fst ` set (sta_views t) = {''aa''}"
proof -
  let ?bs = "[''aa'' @ replicate 16 NUL, replicate 18 NUL, ''bb'' @ replicate 16 NUL]"
  have "\<forall>b \<in> set ?bs. terminated MAC_ADDR_LEN b"
    by (simp add: terminated_def MAC_ADDR_LEN_def nth_append)
  moreover have "cstr ` set (take (nat 2) ?bs) - {[]} = {''aa''}"
    by (auto simp: cstr_def numeral_2_eq_2)
  ultimately show ?thesis
    using sync_from_list_exact [OF sta_inv_start, of ?bs "\<lambda>_. True" 2 5] by simp
qed

text \<open>
  Adding a new station and removing it again gives back the same table: same stations, same
  order, same figures, for every table the daemon can hold.
\<close>

lemma add_remove_roundtrip:
  assumes "sta_inv s" "good_bssid b" "b \<notin> fst ` set (sta_views s)" "mok (malloc_calls s)"
  shows "\<exists>t u. wlan_sta_mgr_add mok now (Some b) s = Some (1, t) \<and>
     wlan_sta_mgr_count t = Some (int (length (sta_views s)) + 1) \<and>
     wlan_sta_mgr_remove b t = Some (1, u) \<and> sta_inv u \<and> sta_views u = sta_views s"
proof -
  from stab.add_then_remove [where mok = mok and now = now, OF assms] obtain t u where
    tu: "wlan_sta_mgr_add mok now (Some b) s = Some (1, t)" "wlan_sta_mgr_remove b t = Some (1, u)"
      "sta_inv u" "sta_views u = sta_views s" by blast
  from stab.add_fresh [where mok = mok and now = now, OF assms] tu(1) have
    "sta_inv t" "sta_views t = (b, 0, 0, now) # sta_views s" by auto
  with stab.count_law [of t] tu show ?thesis by auto
qed

lemma add_remove_roundtrip_example:
  "\<exists>t u. wlan_sta_mgr_add (\<lambda>_. True) 9 (Some ''aa'') sta_mgr_start = Some (1, t) \<and>
     wlan_sta_mgr_count t = Some 1 \<and> wlan_sta_mgr_remove ''aa'' t = Some (1, u) \<and> sta_views u = []"
  using add_remove_roundtrip [OF sta_inv_start, of "''aa''" "\<lambda>_. True" 9]
  by (auto simp: good_bssid_def MAC_ADDR_LEN_def)

end
