(* ===== verification/Wlinkd_Ipc.thy ===== *)
theory Wlinkd_Ipc
  imports Lab_Prelude "HOL-Library.Multiset" "HOL-Library.Sublist"
begin

text \<open>
  \<open>wlinkd/src/ipc.c\<close>, the part that owns the UNIX socket and the array of push clients.
  Every system call is recorded with its result in \<open>ipc_trace\<close>; the parameter \<open>os\<close> gives the
  result from the calls made so far, so any behaviour of the system is some \<open>os\<close>. \<open>Push\<close> is no call but
  history: the mark that \<open>ipc_push_event\<close> has been called with a message.
\<close>

section \<open>State\<close>

datatype ipc_call =
    Socket
  | Unlink string
  | Bind int string
  | Listen int nat
  | Accept int
  | Recv int nat
  | Send int string
  | Close int
  | Push string

type_synonym ipc_history = "(ipc_call \<times> int) list"
type_synonym ipc_os = "ipc_history \<Rightarrow> ipc_call \<Rightarrow> int"

definition IPC_MAX_PUSH_CLIENTS :: nat where
  "IPC_MAX_PUSH_CLIENTS = 8"

definition IPC_SOCKET_PATH :: string where
  "IPC_SOCKET_PATH = ''/tmp/wlinkd.sock''"

record ipc =
  g_server_fd :: int
  g_socket_path :: cbuffer
  g_push_fds :: "int list"
  g_push_count :: nat
  ipc_trace :: ipc_history

definition ipc_start :: ipc where
  "ipc_start =
     \<lparr>g_server_fd = -1, g_socket_path = IPC_SOCKET_PATH @ replicate (108 - length IPC_SOCKET_PATH) NUL,
      g_push_fds = replicate IPC_MAX_PUSH_CLIENTS 0, g_push_count = 0, ipc_trace = []\<rparr>"

definition syscall :: "ipc_os \<Rightarrow> ipc_call \<Rightarrow> ipc \<Rightarrow> int \<times> ipc" where
  "syscall os c s = (let r = os (ipc_trace s) c in (r, s\<lparr>ipc_trace := ipc_trace s @ [(c, r)]\<rparr>))"

section \<open>Operations\<close>

definition ipc_init :: "ipc_os \<Rightarrow> string option \<Rightarrow> ipc \<Rightarrow> int \<times> ipc" where
  "ipc_init os socket_path s =
     (if g_server_fd s \<ge> 0 then (g_server_fd s, s)
      else let (fd, s1) = syscall os Socket s; s2 = s1\<lparr>g_server_fd := fd\<rparr> in
        if fd < 0 then (-1, s2)
        else let s3 = (case socket_path of
                         None \<Rightarrow> s2
                       | Some p \<Rightarrow> if p = [] then s2
                                  else s2\<lparr>g_socket_path := strncpy (g_socket_path s2) p 107\<rparr>);
                 sun_path = strncpy (replicate 108 NUL) (cstr (g_socket_path s3)) 107;
                 (_, s4) = syscall os (Unlink (cstr (g_socket_path s3))) s3;
                 (rb, s5) = syscall os (Bind fd (cstr sun_path)) s4 in
          if rb < 0
          then let (_, s6) = syscall os (Close fd) s5 in (-1, s6\<lparr>g_server_fd := -1\<rparr>)
          else let (rl, s6) = syscall os (Listen fd 4) s5 in
            if rl < 0
            then let (_, s7) = syscall os (Close fd) s6;
                     s8 = s7\<lparr>g_server_fd := -1\<rparr>;
                     (_, s9) = syscall os (Unlink (cstr (g_socket_path s8))) s8
                 in (-1, s9)
            else (fd, s6))"

function push_loop :: "ipc_os \<Rightarrow> string \<Rightarrow> nat \<Rightarrow> nat \<Rightarrow> nat \<Rightarrow> ipc \<Rightarrow> nat \<times> ipc" where
  "push_loop os msg n i j s =
     (if i < n
      then let fd = g_push_fds s ! i in
        if fd < 0 then push_loop os msg n (Suc i) j s
        else let (r, s1) = syscall os (Send fd msg) s in
          if r < 0
          then let (_, s2) = syscall os (Close fd) s1 in push_loop os msg n (Suc i) j s2
          else push_loop os msg n (Suc i) (Suc j) (s1\<lparr>g_push_fds := (g_push_fds s1)[j := fd]\<rparr>)
      else (j, s))"
  by pat_completeness auto
termination
  by (relation "measure (\<lambda>(os, msg, n, i, j, s). n - i)") auto

declare push_loop.simps [simp del]

definition mark_push :: "string \<Rightarrow> ipc \<Rightarrow> ipc" where
  "mark_push msg s = s\<lparr>ipc_trace := ipc_trace s @ [(Push msg, 0)]\<rparr>"

definition ipc_push_event :: "ipc_os \<Rightarrow> string \<Rightarrow> ipc \<Rightarrow> ipc" where
  "ipc_push_event os msg s =
     (let (j, s1) = push_loop os msg (g_push_count s) 0 0 s in s1\<lparr>g_push_count := j\<rparr>)"

definition ipc_get_fd :: "ipc \<Rightarrow> int" where
  "ipc_get_fd s = g_server_fd s"

fun close_all :: "ipc_os \<Rightarrow> int list \<Rightarrow> ipc \<Rightarrow> ipc" where
  "close_all os [] s = s"
| "close_all os (fd # fds) s =
     (if fd \<ge> 0 then close_all os fds (snd (syscall os (Close fd) s)) else close_all os fds s)"

definition ipc_close :: "ipc_os \<Rightarrow> ipc \<Rightarrow> ipc" where
  "ipc_close os s =
     (let s1 = close_all os (take (g_push_count s) (g_push_fds s)) s;
          s2 = s1\<lparr>g_push_count := 0\<rparr>;
          s3 = (if g_server_fd s2 \<ge> 0 then snd (syscall os (Close (g_server_fd s2)) s2) else s2);
          s4 = s3\<lparr>g_server_fd := -1\<rparr>
      in snd (syscall os (Unlink (cstr (g_socket_path s4))) s4))"

section \<open>Invariant\<close>

definition subscribers :: "ipc \<Rightarrow> int list" where
  "subscribers s = take (g_push_count s) (g_push_fds s)"

text \<open>The descriptors the process obtained and the ones it closed.\<close>

fun opened_by :: "ipc_call \<times> int \<Rightarrow> int multiset" where
  "opened_by (Socket, r) = (if r \<ge> 0 then {#r#} else {#})"
| "opened_by (Accept fd, r) = (if r \<ge> 0 then {#r#} else {#})"
| "opened_by _ = {#}"

fun closed_by :: "ipc_call \<times> int \<Rightarrow> int multiset" where
  "closed_by (Close fd, r) = {#fd#}"
| "closed_by _ = {#}"

definition opened :: "ipc_history \<Rightarrow> int multiset" where
  "opened h = sum_list (map opened_by h)"

definition closed :: "ipc_history \<Rightarrow> int multiset" where
  "closed h = sum_list (map closed_by h)"

definition server_fds :: "ipc \<Rightarrow> int multiset" where
  "server_fds s = (if g_server_fd s \<ge> 0 then {#g_server_fd s#} else {#})"

definition ipc_inv :: "ipc \<Rightarrow> bool" where
  "ipc_inv s \<longleftrightarrow> length (g_push_fds s) = IPC_MAX_PUSH_CLIENTS \<and> g_push_count s \<le> IPC_MAX_PUSH_CLIENTS \<and>
     (\<forall>fd \<in> set (subscribers s). 0 \<le> fd)"

text \<open>
  The descriptor ledger: everything opened is either closed, a push client, or the listening
  socket. A leaked or doubly closed descriptor breaks the equation.
\<close>

definition fd_ledger :: "ipc \<Rightarrow> bool" where
  "fd_ledger s \<longleftrightarrow>
     opened (ipc_trace s) = closed (ipc_trace s) + mset (subscribers s) + server_fds s"

lemma opened_simps [simp]: "opened [] = {#}" "opened (h @ h') = opened h + opened h'"
  "opened (x # h) = opened_by x + opened h"
  by (simp_all add: opened_def)

lemma closed_simps [simp]: "closed [] = {#}" "closed (h @ h') = closed h + closed h'"
  "closed (x # h) = closed_by x + closed h"
  by (simp_all add: closed_def)

lemma ipc_start_inv [simp]: "ipc_inv ipc_start" "fd_ledger ipc_start" "subscribers ipc_start = []"
  by (simp_all add: ipc_inv_def fd_ledger_def ipc_start_def subscribers_def server_fds_def)

section \<open>Push: the in-place loop is a filter\<close>

fun push_each :: "ipc_os \<Rightarrow> string \<Rightarrow> int list \<Rightarrow> ipc_history \<Rightarrow> int list \<times> ipc_history" where
  "push_each os msg [] h = ([], h)"
| "push_each os msg (fd # fds) h =
     (if fd < 0 then push_each os msg fds h
      else let r = os h (Send fd msg); h1 = h @ [(Send fd msg, r)] in
        if r < 0
        then push_each os msg fds (h1 @ [(Close fd, os h1 (Close fd))])
        else let (ks, h2) = push_each os msg fds h1 in (fd # ks, h2))"

lemma push_loop_unfold:
  "\<not> i < n \<Longrightarrow> push_loop os msg n i j s = (j, s)"
  "i < n \<Longrightarrow> g_push_fds s ! i = fd \<Longrightarrow> fd < 0 \<Longrightarrow>
     push_loop os msg n i j s = push_loop os msg n (Suc i) j s"
  "i < n \<Longrightarrow> g_push_fds s ! i = fd \<Longrightarrow> \<not> fd < 0 \<Longrightarrow> os (ipc_trace s) (Send fd msg) = r \<Longrightarrow>
     h1 = ipc_trace s @ [(Send fd msg, r)] \<Longrightarrow>
     push_loop os msg n i j s =
       (if r < 0 then push_loop os msg n (Suc i) j (s\<lparr>ipc_trace := h1 @ [(Close fd, os h1 (Close fd))]\<rparr>)
        else push_loop os msg n (Suc i) (Suc j)
               (s\<lparr>ipc_trace := h1, g_push_fds := (g_push_fds s)[j := fd]\<rparr>))"
  by (subst push_loop.simps, simp add: syscall_def Let_def)+

lemma push_loop_each:
  assumes "j \<le> i" "i \<le> n" "n \<le> length (g_push_fds s)"
    "push_each os msg (drop i (take n (g_push_fds s))) (ipc_trace s) = (ks, h)"
  shows "\<exists>fds. push_loop os msg n i j s = (j + length ks, s\<lparr>g_push_fds := fds, ipc_trace := h\<rparr>) \<and>
     length fds = length (g_push_fds s) \<and> take (j + length ks) fds = take j (g_push_fds s) @ ks"
  using assms
proof (induction "n - i" arbitrary: i j s ks)
  case 0
  then show ?case by (auto simp: push_loop_unfold intro!: exI [of _ "g_push_fds s"])
next
  case (Suc m)
  then have i: "i < n" "m = n - Suc i" "Suc i \<le> n" by auto
  define fd where "fd = g_push_fds s ! i"
  define r where "r = os (ipc_trace s) (Send fd msg)"
  define h1 where "h1 = ipc_trace s @ [(Send fd msg, r)]"
  note unf = push_loop_unfold(2,3) [where os = os and msg = msg and j = j, OF i(1) fd_def [symmetric]]
  have d: "drop i (take n (g_push_fds s)) = fd # drop (Suc i) (take n (g_push_fds s))"
    using i Suc.prems(3) by (metis Cons_nth_drop_Suc fd_def length_take min.absorb2 nth_take)
  consider (neg) "fd < 0" | (fail) "\<not> fd < 0" "r < 0" | (ok) "\<not> fd < 0" "\<not> r < 0" by blast
  then show ?case
  proof cases
    case neg
    with Suc.hyps(1) [OF i(2) _ i(3), of j s ks] Suc.prems d show ?thesis by (simp add: unf)
  next
    case fail
    let ?s2 = "s\<lparr>ipc_trace := h1 @ [(Close fd, os h1 (Close fd))]\<rparr>"
    have "push_loop os msg n i j s = push_loop os msg n (Suc i) j ?s2"
      using fail by (simp add: unf(2) [OF fail(1) r_def [symmetric] h1_def])
    with Suc.hyps(1) [OF i(2) _ i(3), of j ?s2 ks] Suc.prems d fail show ?thesis
      by (simp add: Let_def r_def [symmetric] h1_def [symmetric])
  next
    case ok
    let ?s2 = "s\<lparr>ipc_trace := h1, g_push_fds := (g_push_fds s)[j := fd]\<rparr>"
    have run: "push_loop os msg n i j s = push_loop os msg n (Suc i) (Suc j) ?s2"
      using ok by (simp add: unf(2) [OF ok(1) r_def [symmetric] h1_def])
    obtain ks' where ks: "ks = fd # ks'"
      "push_each os msg (drop (Suc i) (take n (g_push_fds s))) h1 = (ks', h)"
      using Suc.prems(4) ok d
      by (auto simp: Let_def r_def [symmetric] h1_def [symmetric] split: prod.splits)
    have keep: "drop (Suc i) (take n ((g_push_fds s)[j := fd])) = drop (Suc i) (take n (g_push_fds s))"
      using Suc.prems(1) by (simp add: take_update_swap drop_update_cancel)
    have front: "take (Suc j) ((g_push_fds s)[j := fd]) = take j (g_push_fds s) @ [fd]"
      using Suc.prems i by (simp add: take_Suc_conv_app_nth)
    from Suc.hyps(1) [OF i(2) _ i(3), of "Suc j" ?s2 ks'] Suc.prems ks keep front
    show ?thesis by (simp add: run)
  qed
qed

lemma ipc_push_event_each:
  assumes "ipc_inv s" "push_each os msg (subscribers s) (ipc_trace s) = (ks, h)"
  shows "subscribers (ipc_push_event os msg s) = ks \<and> ipc_trace (ipc_push_event os msg s) = h \<and>
     g_push_count (ipc_push_event os msg s) = length ks \<and>
     length (g_push_fds (ipc_push_event os msg s)) = length (g_push_fds s) \<and>
     g_server_fd (ipc_push_event os msg s) = g_server_fd s \<and>
     g_socket_path (ipc_push_event os msg s) = g_socket_path s"
  using push_loop_each [of 0 0 "g_push_count s" s os msg ks h] assms
  by (auto simp: ipc_push_event_def ipc_inv_def subscribers_def)

lemma push_each_set: "push_each os msg fds h = (ks, h') \<Longrightarrow> set ks \<subseteq> set fds \<and> (\<forall>fd \<in> set ks. 0 \<le> fd)"
  by (induction os msg fds h arbitrary: ks rule: push_each.induct)
    (fastforce simp: Let_def split: if_splits prod.splits)+

lemma push_each_length: "push_each os msg fds h = (ks, h') \<Longrightarrow> length ks \<le> length fds"
  by (induction os msg fds h arbitrary: ks rule: push_each.induct)
    (fastforce simp: Let_def split: if_splits prod.splits)+

lemma push_each_ledger:
  "push_each os msg fds h = (ks, h') \<Longrightarrow> \<forall>fd \<in> set fds. 0 \<le> fd \<Longrightarrow>
     opened h' = opened h \<and> closed h' + mset ks = closed h + mset fds"
  by (induction os msg fds h arbitrary: ks rule: push_each.induct)
    (fastforce simp: Let_def split: if_splits prod.splits)+

lemma ipc_push_event_inv:
  assumes "ipc_inv s"
  shows "ipc_inv (ipc_push_event os msg s)"
proof -
  obtain ks h where ks: "push_each os msg (subscribers s) (ipc_trace s) = (ks, h)" by fastforce
  from ipc_push_event_each [OF assms ks] push_each_set [OF ks] push_each_length [OF ks] assms
  show ?thesis by (auto simp: ipc_inv_def subscribers_def)
qed

lemma ipc_push_event_ledger:
  assumes "ipc_inv s" "fd_ledger s"
  shows "fd_ledger (ipc_push_event os msg s)"
proof -
  obtain ks h where ks: "push_each os msg (subscribers s) (ipc_trace s) = (ks, h)" by fastforce
  have "\<forall>fd \<in> set (subscribers s). 0 \<le> fd" using assms(1) by (simp add: ipc_inv_def)
  from ipc_push_event_each [OF assms(1) ks] push_each_ledger [OF ks this] assms(2)
  show ?thesis by (simp add: fd_ledger_def server_fds_def)
qed

section \<open>What a push client has been sent\<close>

text \<open>
  \<open>fresh_fds h\<close>: the system never handed out a descriptor that was still open. \<open>sent_to f h\<close> are the
  texts sent to the descriptor \<open>f\<close> since it was last handed out.
\<close>

definition fresh_fds :: "ipc_history \<Rightarrow> bool" where
  "fresh_fds h \<longleftrightarrow> (\<forall>i < length h.
     set_mset (opened_by (h ! i)) \<inter> set_mset (opened (take i h) - closed (take i h)) = {})"

fun sent_step :: "int \<Rightarrow> string list \<Rightarrow> ipc_call \<times> int \<Rightarrow> string list" where
  "sent_step f acc (Socket, r) = (if r = f then [] else acc)"
| "sent_step f acc (Accept _, r) = (if r = f then [] else acc)"
| "sent_step f acc (Send g m, r) = (if g = f \<and> 0 \<le> r then acc @ [m] else acc)"
| "sent_step f acc _ = acc"

definition sent_to :: "int \<Rightarrow> ipc_history \<Rightarrow> string list" where
  "sent_to f h = foldl (sent_step f) [] h"

definition ipc_ok_msg :: string where
  "ipc_ok_msg = ''OK'' @ [newline]"

text \<open>
  \<open>push_marks h\<close> are all messages handed to \<open>ipc_push_event\<close>; \<open>owed f h\<close> are those handed to it since the
  descriptor \<open>f\<close> was last handed out, that is, since the client with that descriptor was accepted.
\<close>

fun owed_step :: "int \<Rightarrow> string list \<Rightarrow> ipc_call \<times> int \<Rightarrow> string list" where
  "owed_step f acc (Socket, r) = (if r = f then [] else acc)"
| "owed_step f acc (Accept _, r) = (if r = f then [] else acc)"
| "owed_step f acc (Push m, r) = acc @ [m]"
| "owed_step f acc _ = acc"

definition owed :: "int \<Rightarrow> ipc_history \<Rightarrow> string list" where
  "owed f h = foldl (owed_step f) [] h"

fun push_marks :: "ipc_history \<Rightarrow> string list" where
  "push_marks [] = []"
| "push_marks ((Push m, r) # h) = m # push_marks h"
| "push_marks (_ # h) = push_marks h"

text \<open>
  What is delivered: no client is registered twice, and each has been sent the answer to its
  subscription, if that could be sent, and then everything it is owed.
\<close>

definition got_all :: "string list \<Rightarrow> string list \<Rightarrow> bool" where
  "got_all os l \<longleftrightarrow> l = os \<or> l = ipc_ok_msg # os"

definition deliver_ok :: "string list \<Rightarrow> ipc \<Rightarrow> bool" where
  "deliver_ok ps s \<longleftrightarrow> push_marks (ipc_trace s) = ps \<and> (fresh_fds (ipc_trace s) \<longrightarrow>
     distinct (subscribers s) \<and>
     (\<forall>f \<in> set (subscribers s). got_all (owed f (ipc_trace s)) (sent_to f (ipc_trace s))))"

text \<open>Calls that open no descriptor, and no mark.\<close>

fun inert :: "ipc_call \<times> int \<Rightarrow> bool" where
  "inert (Socket, r) = False"
| "inert (Accept _, r) = False"
| "inert (Push _, r) = False"
| "inert _ = True"

lemma push_marks_append [simp]: "push_marks (h @ h') = push_marks h @ push_marks h'"
  by (induction h rule: push_marks.induct) simp_all

lemma push_marks_inert: "list_all inert h \<Longrightarrow> push_marks h = []"
  by (induction h rule: push_marks.induct) simp_all

lemma owed_simps [simp]: "owed f [] = []" "owed f (h @ [x]) = owed_step f (owed f h) x"
  by (simp_all add: owed_def)

lemma owed_inert: "list_all inert new \<Longrightarrow> owed f (h @ new) = owed f h"
proof (induction new rule: rev_induct)
  case (snoc x new)
  have "owed_step f acc x = acc" if "inert x" for acc using that by (cases x rule: inert.cases) auto
  with snoc show ?case by (simp flip: append_assoc)
qed simp

lemma owed_suffix: "suffix (owed f h) (push_marks h)"
proof (induction h rule: rev_induct)
  case (snoc x h)
  then show ?case by (cases "(f, [] :: string list, x)" rule: owed_step.cases) (auto simp: suffix_def)
qed simp

lemma fresh_fds_snoc:
  "fresh_fds (h @ [x]) \<longleftrightarrow> fresh_fds h \<and> set_mset (opened_by x) \<inter> set_mset (opened h - closed h) = {}"
  by (simp add: fresh_fds_def less_Suc_eq all_conj_distrib nth_append disj_imp imp_conjL imp_conjR cong: conj_cong)

lemma fresh_fds_prefix: "fresh_fds (h @ h') \<Longrightarrow> fresh_fds h"
  by (induction h' rule: rev_induct) (simp_all add: fresh_fds_snoc flip: append_assoc)

lemma sent_to_simps [simp]: "sent_to f [] = []" "sent_to f (h @ [x]) = sent_step f (sent_to f h) x"
  by (simp_all add: sent_to_def)

lemma sent_to_snoc2 [simp]:
  "sent_to f (h @ [x, y]) = sent_step f (sent_step f (sent_to f h) x) y"
  by (simp add: sent_to_def)

lemma deliver_none: "subscribers s = [] \<Longrightarrow> push_marks (ipc_trace s) = ps \<Longrightarrow> deliver_ok ps s"
  by (simp add: deliver_ok_def)

lemma push_each_inert: "push_each os msg fds h = (ks, h') \<Longrightarrow> \<exists>new. h' = h @ new \<and> list_all inert new"
  by (induction os msg fds h arbitrary: ks rule: push_each.induct)
    (fastforce simp: Let_def split: if_splits prod.splits)+

lemma push_each_sent:
  assumes "push_each os msg fds h = (ks, h')" "distinct fds" "\<forall>fd \<in> set fds. 0 \<le> fd"
  shows "(\<forall>f. f \<notin> set fds \<longrightarrow> sent_to f h' = sent_to f h) \<and>
     (\<forall>f \<in> set ks. sent_to f h' = sent_to f h @ [msg]) \<and> distinct ks"
  using assms
proof (induction os msg fds h arbitrary: ks rule: push_each.induct)
  case (2 os msg fd fds h)
  define r where "r = os h (Send fd msg)"
  define h1 where "h1 = h @ [(Send fd msg, r)]"
  have fd: "\<not> fd < 0" using "2.prems"(3) by simp
  show ?case
  proof (cases "r < 0")
    case True
    let ?c = "(Close fd, os h1 (Close fd))"
    from "2.prems"(1) fd True have "push_each os msg fds (h1 @ [?c]) = (ks, h')"
      by (simp add: Let_def r_def [symmetric] h1_def [symmetric])
    from "2.IH"(2) [OF fd r_def h1_def True this] push_each_set [OF this] "2.prems" True show ?thesis
      by (auto simp: h1_def)
  next
    case False
    from "2.prems"(1) fd False obtain ks' where ks: "ks = fd # ks'" "push_each os msg fds h1 = (ks', h')"
      by (auto simp: Let_def r_def [symmetric] h1_def [symmetric] split: prod.splits)
    from "2.IH"(3) [OF fd r_def h1_def False ks(2)] push_each_set [OF ks(2)] "2.prems" False ks(1) show ?thesis
      by (auto simp: h1_def)
  qed
qed simp

lemma mark_push_frame [simp]:
  "subscribers (mark_push m s) = subscribers s" "ipc_trace (mark_push m s) = ipc_trace s @ [(Push m, 0)]"
  "ipc_inv (mark_push m s) = ipc_inv s" "fd_ledger (mark_push m s) = fd_ledger s"
  by (simp_all add: mark_push_def subscribers_def ipc_inv_def fd_ledger_def server_fds_def)

lemma fresh_fds_mark [simp]: "fresh_fds (h @ [(Push m, r)]) = fresh_fds h"
  by (simp add: fresh_fds_snoc)

lemma deliver_push:
  assumes "ipc_inv s" "deliver_ok ps s"
  shows "deliver_ok (ps @ [m]) (ipc_push_event os m (mark_push m s))"
proof -
  let ?s = "mark_push m s"
  obtain ks h where ks: "push_each os m (subscribers ?s) (ipc_trace ?s) = (ks, h)" by fastforce
  have sub: "subscribers (ipc_push_event os m ?s) = ks" "ipc_trace (ipc_push_event os m ?s) = h"
    using ipc_push_event_each [OF _ ks] assms(1) by simp_all
  have pos: "\<forall>fd \<in> set (subscribers s). 0 \<le> fd" using assms(1) by (simp add: ipc_inv_def)
  from push_each_inert [OF ks] obtain new where new: "h = ipc_trace ?s @ new" "list_all inert new" by blast
  have marks: "push_marks h = ps @ [m]" using assms(2) new by (simp add: deliver_ok_def push_marks_inert)
  have "distinct ks \<and> (\<forall>f \<in> set ks. got_all (owed f h) (sent_to f h))" if f: "fresh_fds h"
  proof -
    from f have "fresh_fds (ipc_trace s)" unfolding new(1) using fresh_fds_prefix [of "ipc_trace ?s" new] by simp
    with assms(2) have old: "distinct (subscribers s)"
      "\<forall>f \<in> set (subscribers s). got_all (owed f (ipc_trace s)) (sent_to f (ipc_trace s))" by (simp_all add: deliver_ok_def)
    have o: "owed f h = owed f (ipc_trace s) @ [m]" for f unfolding new(1) owed_inert [OF new(2)] by simp
    have "got_all (l @ [m]) (k @ [m])" if "got_all l k" for l k using that by (auto simp: got_all_def)
    with push_each_sent [OF ks] pos push_each_set [OF ks] old show ?thesis by (auto simp: o)
  qed
  with marks show ?thesis unfolding deliver_ok_def sub by blast
qed

text \<open>A call that opens a descriptor.\<close>

lemma held_subscriber: "fd_ledger s \<Longrightarrow> f \<in> set (subscribers s) \<Longrightarrow> f \<in># opened (ipc_trace s) - closed (ipc_trace s)"
  by (simp add: fd_ledger_def)

lemma deliver_open:
  assumes "deliver_ok ps s" "ipc_inv s" "fd_ledger s" "c = Socket \<or> c = Accept g"
  shows "deliver_ok ps (s\<lparr>ipc_trace := ipc_trace s @ [(c, r)]\<rparr>)"
    and "fresh_fds (ipc_trace s @ [(c, r)]) \<Longrightarrow> r \<notin> set (subscribers s)"
proof -
  show new: "r \<notin> set (subscribers s)" if "fresh_fds (ipc_trace s @ [(c, r)])"
  proof
    assume r: "r \<in> set (subscribers s)"
    then have "0 \<le> r" using assms(2) by (simp add: ipc_inv_def)
    with that assms(4) held_subscriber [OF assms(3) r] show False by (auto simp: fresh_fds_snoc)
  qed
  let ?h = "ipc_trace s @ [(c, r)]"
  have "push_marks ?h = push_marks (ipc_trace s)" using assms(4) by auto
  moreover have "sent_to f ?h = sent_to f (ipc_trace s) \<and> owed f ?h = owed f (ipc_trace s)" if "f \<noteq> r" for f
    using assms(4) that by auto
  moreover have "fresh_fds (ipc_trace s)" if "fresh_fds ?h" using that by (rule fresh_fds_prefix)
  ultimately show "deliver_ok ps (s\<lparr>ipc_trace := ?h\<rparr>)"
    using assms(1) new unfolding deliver_ok_def subscribers_def by (auto simp del: owed_simps sent_to_simps) metis+
qed

section \<open>Opening and closing\<close>

lemma syscall_frame [frame]:
  "g_server_fd (snd (syscall os c s)) = g_server_fd s"
  "g_socket_path (snd (syscall os c s)) = g_socket_path s"
  "g_push_fds (snd (syscall os c s)) = g_push_fds s"
  "g_push_count (snd (syscall os c s)) = g_push_count s"
  "subscribers (snd (syscall os c s)) = subscribers s"
  by (simp_all add: syscall_def Let_def subscribers_def)

lemma syscall_trace:
  "ipc_trace (snd (syscall os c s)) = ipc_trace s @ [(c, os (ipc_trace s) c)]"
  by (simp add: syscall_def Let_def)

lemma ipc_init_frame [frame]:
  "g_push_fds (snd (ipc_init os p s)) = g_push_fds s"
  "g_push_count (snd (ipc_init os p s)) = g_push_count s"
  by (simp_all add: ipc_init_def syscall_def Let_def split: option.split)

lemma ipc_init_inv: "ipc_inv s \<Longrightarrow> ipc_inv (snd (ipc_init os p s))"
  by (simp add: ipc_inv_def subscribers_def frame)

lemma ipc_init_ledger: "fd_ledger s \<Longrightarrow> fd_ledger (snd (ipc_init os p s))"
  by (simp add: fd_ledger_def ipc_init_def syscall_def Let_def server_fds_def subscribers_def
      split: option.split)

text \<open>Calls that neither open a descriptor nor send, and no mark.\<close>

fun quiet :: "ipc_call \<times> int \<Rightarrow> bool" where
  "quiet (Socket, r) = False"
| "quiet (Accept _, r) = False"
| "quiet (Send _ _, r) = False"
| "quiet (Push _, r) = False"
| "quiet _ = True"

lemma sent_to_quiet: "list_all quiet new \<Longrightarrow> sent_to f (h @ new) = sent_to f h"
proof (induction new rule: rev_induct)
  case (snoc x new)
  have "sent_step f acc x = acc" if "quiet x" for acc using that by (cases x rule: quiet.cases) auto
  with snoc show ?case by (simp flip: append_assoc)
qed simp

lemma quiet_inert: "list_all quiet new \<Longrightarrow> list_all inert new"
proof -
  have "inert x" if "quiet x" for x using that by (cases x rule: quiet.cases) auto
  then show "list_all quiet new \<Longrightarrow> list_all inert new" by (simp add: list_all_iff)
qed

lemma deliver_quiet:
  assumes "deliver_ok ps s" "subscribers t = subscribers s" "ipc_trace t = ipc_trace s @ new" "list_all quiet new"
  shows "deliver_ok ps t"
proof -
  have i: "list_all inert new" using assms(4) by (rule quiet_inert)
  show ?thesis
    using assms(1) fresh_fds_prefix [of "ipc_trace s" new]
    unfolding deliver_ok_def assms(2,3) sent_to_quiet [OF assms(4)] owed_inert [OF i]
    by (simp add: push_marks_inert [OF i])
qed

lemma ipc_init_trace:
  "ipc_trace (snd (ipc_init os p s)) = ipc_trace s \<or>
     (\<exists>r new. ipc_trace (snd (ipc_init os p s)) = ipc_trace s @ (Socket, r) # new \<and> list_all quiet new)"
  by (simp add: ipc_init_def syscall_def Let_def split: option.split)

lemma ipc_init_deliver:
  assumes "deliver_ok ps s" "ipc_inv s" "fd_ledger s"
  shows "deliver_ok ps (snd (ipc_init os p s))"
proof -
  have sub: "subscribers (snd (ipc_init os p s)) = subscribers s" by (simp add: subscribers_def frame)
  from ipc_init_trace [of os p s] show ?thesis
  proof
    assume "ipc_trace (snd (ipc_init os p s)) = ipc_trace s"
    with assms(1) sub show ?thesis by (simp add: deliver_ok_def)
  next
    assume "\<exists>r new. ipc_trace (snd (ipc_init os p s)) = ipc_trace s @ (Socket, r) # new \<and> list_all quiet new"
    then obtain r new where t: "ipc_trace (snd (ipc_init os p s)) = (ipc_trace s @ [(Socket, r)]) @ new" "list_all quiet new"
      by auto
    let ?m = "s\<lparr>ipc_trace := ipc_trace s @ [(Socket, r)]\<rparr>"
    have "deliver_ok ps ?m" by (rule deliver_open(1) [OF assms]) simp
    moreover have "subscribers (snd (ipc_init os p s)) = subscribers ?m"
      unfolding sub by (simp add: subscribers_def)
    moreover have "ipc_trace (snd (ipc_init os p s)) = ipc_trace ?m @ new" by (simp add: t)
    ultimately show ?thesis using t(2) by (rule deliver_quiet)
  qed
qed

text \<open>A request on a new connection: calls on it are not seen by the push clients, until it becomes one.\<close>

lemma sent_to_other:
  "list_all (\<lambda>x. quiet x \<or> (\<exists>m q. x = (Send fd m, q))) new \<Longrightarrow> f \<noteq> fd \<Longrightarrow> sent_to f (h @ new) = sent_to f h"
proof (induction new rule: rev_induct)
  case (snoc x new)
  then have "quiet x \<or> (\<exists>m q. x = (Send fd m, q))" by simp
  then have "sent_step f acc x = acc" for acc
    using snoc.prems(2) by (cases x rule: quiet.cases) auto
  with snoc show ?case by (simp flip: append_assoc)
qed simp

lemma request_inert: "list_all (\<lambda>x. quiet x \<or> (\<exists>m q. x = (Send fd m, q))) new \<Longrightarrow> list_all inert new"
proof -
  have "inert x" if "quiet x \<or> (\<exists>m q. x = (Send fd m, q))" for x
    using that by (cases x rule: quiet.cases) auto
  then show "list_all (\<lambda>x. quiet x \<or> (\<exists>m q. x = (Send fd m, q))) new \<Longrightarrow> list_all inert new"
    by (simp add: list_all_iff)
qed

lemma deliver_request:
  assumes "deliver_ok ps i" "ipc_inv i" "fd_ledger i"
  shows "list_all (\<lambda>x. quiet x \<or> (\<exists>m q. x = (Send fd m, q))) new \<Longrightarrow>
      deliver_ok ps (i\<lparr>ipc_trace := ipc_trace i @ (Accept g, fd) # new\<rparr>)"
    and "subscribers t = subscribers i @ [fd] \<Longrightarrow>
      ipc_trace t = ipc_trace i @ [(Accept g, fd), (Recv fd n, r), (Send fd ipc_ok_msg, q)] \<Longrightarrow> deliver_ok ps t"
proof -
  let ?h = "ipc_trace i @ [(Accept g, fd)]"
  have acc: "deliver_ok ps (i\<lparr>ipc_trace := ?h\<rparr>)" "fresh_fds ?h \<Longrightarrow> fd \<notin> set (subscribers i)"
    using deliver_open [OF assms, of "Accept g" g fd] by simp_all
  have marks: "push_marks ?h = ps" using acc(1) by (simp add: deliver_ok_def)
  have old: "distinct (subscribers i) \<and> (\<forall>f \<in> set (subscribers i). got_all (owed f ?h) (sent_to f ?h))"
    if "fresh_fds ?h" using acc(1) that unfolding deliver_ok_def by (simp add: subscribers_def)
  have later: "got_all (owed f (?h @ new)) (sent_to f (?h @ new))"
    if "list_all (\<lambda>x. quiet x \<or> (\<exists>m q. x = (Send fd m, q))) new" "fresh_fds ?h" "f \<in> set (subscribers i)" for f new
  proof -
    have "f \<noteq> fd" using acc(2) [OF that(2)] that(3) by auto
    note o = sent_to_other [OF that(1) this]
    show ?thesis
      unfolding o owed_inert [OF request_inert [OF that(1)]] using old [OF that(2)] that(3) by blast
  qed
  show "deliver_ok ps (i\<lparr>ipc_trace := ipc_trace i @ (Accept g, fd) # new\<rparr>)"
    if new: "list_all (\<lambda>x. quiet x \<or> (\<exists>m q. x = (Send fd m, q))) new"
  proof -
    let ?s = "i\<lparr>ipc_trace := ipc_trace i @ (Accept g, fd) # new\<rparr>"
    have sub: "subscribers ?s = subscribers i" "ipc_trace ?s = ?h @ new" by (simp_all add: subscribers_def)
    have "push_marks (?h @ new) = ps" using marks request_inert [OF new] by (simp add: push_marks_inert)
    then show ?thesis
      unfolding deliver_ok_def sub using later [OF new] old fresh_fds_prefix [of ?h new] by blast
  qed
  show "deliver_ok ps t" if t: "subscribers t = subscribers i @ [fd]"
    "ipc_trace t = ipc_trace i @ [(Accept g, fd), (Recv fd n, r), (Send fd ipc_ok_msg, q)]"
  proof -
    let ?new = "[(Recv fd n, r), (Send fd ipc_ok_msg, q)]"
    have tr: "ipc_trace t = ?h @ ?new" by (simp add: t(2))
    have new: "list_all (\<lambda>x. quiet x \<or> (\<exists>m q. x = (Send fd m, q))) ?new" by simp
    have "push_marks (?h @ ?new) = ps" using marks by simp
    moreover have "got_all (owed fd (?h @ ?new)) (sent_to fd (?h @ ?new))"
    proof -
      have "sent_to fd (?h @ ?new) = (if 0 \<le> q then [ipc_ok_msg] else [])"
        by (simp add: sent_to_snoc2 del: append_assoc append.simps)
      moreover have "owed fd (?h @ ?new) = []"
        unfolding owed_inert [OF request_inert [OF new]] by simp
      ultimately show ?thesis by (simp add: got_all_def)
    qed
    ultimately show ?thesis
      unfolding deliver_ok_def tr t(1)
      using later [OF new] old acc(2) fresh_fds_prefix [of ?h ?new] by (auto simp del: append_assoc append.simps)
  qed
qed

lemma ipc_init_result:
  "fst (ipc_init os p s) = g_server_fd (snd (ipc_init os p s)) \<or>
     fst (ipc_init os p s) = -1 \<and> g_server_fd (snd (ipc_init os p s)) < 0"
  by (simp add: ipc_init_def syscall_def Let_def split: option.split)

lemma close_all_frame [frame]:
  "g_server_fd (close_all os fds s) = g_server_fd s"
  "g_push_fds (close_all os fds s) = g_push_fds s"
  "g_push_count (close_all os fds s) = g_push_count s"
  "g_socket_path (close_all os fds s) = g_socket_path s"
  by (induction os fds s rule: close_all.induct) (auto simp: frame)

lemma close_all_ledger:
  "\<forall>fd \<in> set fds. 0 \<le> fd \<Longrightarrow>
     opened (ipc_trace (close_all os fds s)) = opened (ipc_trace s) \<and>
     closed (ipc_trace (close_all os fds s)) = closed (ipc_trace s) + mset fds"
  by (induction os fds s rule: close_all.induct) (auto simp: syscall_trace)

lemma ipc_close_inv:
  assumes "ipc_inv s"
  shows "ipc_inv (ipc_close os s)" "subscribers (ipc_close os s) = []" "g_server_fd (ipc_close os s) = -1"
  using assms by (simp_all add: ipc_close_def Let_def ipc_inv_def subscribers_def frame)

lemma ipc_close_ledger:
  assumes "ipc_inv s" "fd_ledger s"
  shows "fd_ledger (ipc_close os s)"
proof -
  have "\<forall>fd \<in> set (take (g_push_count s) (g_push_fds s)). 0 \<le> fd"
    using assms(1) by (simp add: ipc_inv_def subscribers_def)
  from close_all_ledger [OF this, of os s] assms(2) show ?thesis
    by (simp add: ipc_close_def Let_def fd_ledger_def subscribers_def server_fds_def frame syscall_trace)
qed

lemma ipc_close_marks: "push_marks (ipc_trace (ipc_close os s)) = push_marks (ipc_trace s)"
proof -
  have "push_marks (ipc_trace (close_all os fds s)) = push_marks (ipc_trace s)" for fds s
    by (induction os fds s rule: close_all.induct) (auto simp: syscall_trace)
  then show ?thesis by (simp add: ipc_close_def Let_def syscall_trace)
qed

section \<open>Properties\<close>

text \<open>The descriptors the calls \<open>h\<close> tried to send to, those that accepted, those closed.\<close>

fun sends :: "ipc_history \<Rightarrow> (int \<times> string \<times> int) list" where
  "sends [] = []"
| "sends ((Send fd m, r) # h) = (fd, m, r) # sends h"
| "sends (_ # h) = sends h"

fun closes :: "ipc_history \<Rightarrow> int list" where
  "closes [] = []"
| "closes ((Close fd, r) # h) = fd # closes h"
| "closes (_ # h) = closes h"

lemma push_each_calls:
  assumes "push_each os msg fds h = (ks, h')" "\<forall>fd \<in> set fds. 0 \<le> fd"
  shows "\<exists>new. h' = h @ new \<and> map (\<lambda>x. (fst x, fst (snd x))) (sends new) = map (\<lambda>fd. (fd, msg)) fds \<and>
     ks = map fst (filter (\<lambda>x. 0 \<le> snd (snd x)) (sends new)) \<and>
     closes new = map fst (filter (\<lambda>x. snd (snd x) < 0) (sends new))"
  using assms
proof (induction os msg fds h arbitrary: ks rule: push_each.induct)
  case (2 os msg fd fds h)
  define r where "r = os h (Send fd msg)"
  define h1 where "h1 = h @ [(Send fd msg, r)]"
  have fd: "\<not> fd < 0" using "2.prems"(2) by simp
  show ?case
  proof (cases "r < 0")
    case True
    let ?c = "(Close fd, os h1 (Close fd))"
    from "2.prems"(1) fd True have "push_each os msg fds (h1 @ [?c]) = (ks, h')"
      by (simp add: Let_def r_def [symmetric] h1_def [symmetric])
    with "2.IH"(2) [OF fd r_def h1_def True] "2.prems"(2) obtain new where
      "h' = (h1 @ [?c]) @ new" "map (\<lambda>x. (fst x, fst (snd x))) (sends new) = map (\<lambda>fd. (fd, msg)) fds"
      "ks = map fst (filter (\<lambda>x. 0 \<le> snd (snd x)) (sends new))"
      "closes new = map fst (filter (\<lambda>x. snd (snd x) < 0) (sends new))" by auto
    with True show ?thesis
      by (intro exI [of _ "[(Send fd msg, r), ?c] @ new"]) (simp add: h1_def)
  next
    case False
    from "2.prems"(1) fd False obtain ks' where "ks = fd # ks'" "push_each os msg fds h1 = (ks', h')"
      by (auto simp: Let_def r_def [symmetric] h1_def [symmetric] split: prod.splits)
    with "2.IH"(3) [OF fd r_def h1_def False] "2.prems"(2) obtain new where
      "h' = h1 @ new" "map (\<lambda>x. (fst x, fst (snd x))) (sends new) = map (\<lambda>fd. (fd, msg)) fds"
      "ks' = map fst (filter (\<lambda>x. 0 \<le> snd (snd x)) (sends new))"
      "closes new = map fst (filter (\<lambda>x. snd (snd x) < 0) (sends new))" by auto
    with False \<open>ks = fd # ks'\<close> show ?thesis
      by (intro exI [of _ "(Send fd msg, r) # new"]) (simp add: h1_def)
  qed
qed simp

text \<open>
  C6. A push reaches every subscriber: \<open>ipc_push_event\<close> tries to send the message once to each
  registered client, in registration order, while it compacts the array in place; it keeps, in
  order, exactly the clients whose send succeeded, and closes exactly the others.
\<close>

theorem push_reaches_every_subscriber:
  assumes "ipc_inv s"
  shows "\<exists>new. ipc_trace (ipc_push_event os msg s) = ipc_trace s @ new \<and>
     map (\<lambda>x. (fst x, fst (snd x))) (sends new) = map (\<lambda>fd. (fd, msg)) (subscribers s) \<and>
     subscribers (ipc_push_event os msg s) = map fst (filter (\<lambda>x. 0 \<le> snd (snd x)) (sends new)) \<and>
     closes new = map fst (filter (\<lambda>x. snd (snd x) < 0) (sends new)) \<and>
     ipc_inv (ipc_push_event os msg s)"
proof -
  obtain ks h where ks: "push_each os msg (subscribers s) (ipc_trace s) = (ks, h)" by fastforce
  have "\<forall>fd \<in> set (subscribers s). 0 \<le> fd" using assms by (simp add: ipc_inv_def)
  from push_each_calls [OF ks this] ipc_push_event_each [OF assms ks] ipc_push_event_inv [OF assms]
  show ?thesis by auto
qed

theorem push_reaches_every_subscriber_witness:
  "\<exists>new. ipc_trace (ipc_push_event (\<lambda>_ c. if c = Send 5 ''x'' then -1 else 0) ''x''
        (ipc_start\<lparr>g_push_fds := [4, 5, 6, 0, 0, 0, 0, 0], g_push_count := 3\<rparr>)) = new \<and>
     map (\<lambda>x. (fst x, fst (snd x))) (sends new) = [(4, ''x''), (5, ''x''), (6, ''x'')] \<and> closes new = [5]"
proof -
  let ?s = "ipc_start\<lparr>g_push_fds := [4, 5, 6, 0, 0, 0, 0, 0], g_push_count := 3\<rparr>"
  let ?os = "\<lambda>_ c. if c = Send 5 ''x'' then -1 else 0"
  have inv: "ipc_inv ?s" by (simp add: ipc_inv_def IPC_MAX_PUSH_CLIENTS_def subscribers_def)
  have sub: "subscribers ?s = [4, 5, 6]" by (simp add: subscribers_def)
  from push_reaches_every_subscriber [OF inv, of ?os "''x''"] sub have
    "\<exists>new. ipc_trace (ipc_push_event ?os ''x'' ?s) = new \<and>
       map (\<lambda>x. (fst x, fst (snd x))) (sends new) = [(4, ''x''), (5, ''x''), (6, ''x'')]"
    by (auto simp: ipc_start_def)
  moreover have "closes (ipc_trace (ipc_push_event ?os ''x'' ?s)) = [5]" by code_simp
  ultimately show ?thesis by auto
qed

end
