(* ===== verification/Tcp_Server.thy ===== *)
theory Tcp_Server
  imports Lab_Prelude "HOL-Library.Sublist"
begin

text \<open>
  \<open>wlinkd/src/tcp_server.c\<close>: the event slot shared between the main thread (producer) and one
  thread per TCP client (consumer). A critical section under \<open>g_lock\<close> is one step, since the
  code holds the mutex for all of it; a client waits in \<open>pthread_cond_timedwait\<close> as long as it
  takes no step. Everything a client sends is appended to its \<open>cl_out\<close>.
\<close>

section \<open>The shared event slot\<close>

definition TCP_SERVER_BUF :: nat where
  "TCP_SERVER_BUF = 1024"

record tcp =
  g_push_event :: cbuffer
  g_seq :: u64

definition tcp_start :: tcp where
  "tcp_start = \<lparr>g_push_event = replicate TCP_SERVER_BUF NUL, g_seq = 0\<rparr>"

definition event_text :: "string \<Rightarrow> string option \<Rightarrow> string" where
  "event_text arg bssid = arg @ '' '' @ (case bssid of None \<Rightarrow> ''(null)'' | Some b \<Rightarrow> b)"

definition tcp_server_push_event :: "string \<Rightarrow> string option \<Rightarrow> tcp \<Rightarrow> tcp" where
  "tcp_server_push_event arg bssid t =
     t\<lparr>g_push_event := snprintf (g_push_event t) (TCP_SERVER_BUF - 1) (event_text arg bssid),
       g_seq := g_seq t + 1\<rparr>"

section \<open>One client thread\<close>

datatype client_pc =
    Command
  | Subscribe
  | Wait
  | Forward string
  | Poll
  | Finished

record client =
  cl_pc :: client_pc
  cl_last_seq :: u64
  cl_out :: "string list"

definition client_start :: client where
  "client_start = \<lparr>cl_pc = Command, cl_last_seq = 0, cl_out = []\<rparr>"

datatype poll_result = Poll_data | Poll_again | Poll_closed | Poll_error

datatype client_event =
    Received "string option"
  | Locked
  | Timed_out
  | Sent bool
  | Polled poll_result

definition strip_line :: "string \<Rightarrow> string" where
  "strip_line req = takeWhile (\<lambda>c. c \<noteq> CHR 0x0D \<and> c \<noteq> newline) (cstr req)"

definition banner :: string where
  "banner = ''Now monitoring (press Enter to stop)'' @ [newline]"

definition event_line :: "string \<Rightarrow> string" where
  "event_line buf = ''event: '' @ buf @ [newline]"

definition emit :: "string \<Rightarrow> client \<Rightarrow> client" where
  "emit msg c = c\<lparr>cl_out := cl_out c @ [msg]\<rparr>"

definition client_command :: "string \<Rightarrow> string \<Rightarrow> client \<Rightarrow> client" where
  "client_command status req c =
     (if req = ''status'' then emit status c
      else if req = ''monitor'' then c\<lparr>cl_pc := Subscribe\<rparr>
      else if req = ''exit'' then (emit (''Bye'' @ [newline, NUL]) c)\<lparr>cl_pc := Finished\<rparr>
      else emit (''unknown cmmand: '' @ req @ [newline]) c)"

text \<open>
  \<open>client_handler\<close>, one blocking call or critical section at a time: \<open>Received\<close> is the outer
  \<open>recv\<close> (\<open>None\<close> when it returns at most 0), \<open>Locked\<close> a critical section, \<open>Timed_out\<close>
  the end of \<open>pthread_cond_timedwait\<close> without an event, \<open>Sent\<close> the result of sending the event,
  \<open>Polled\<close> the non-blocking \<open>recv\<close>. \<open>None\<close> means the thread cannot take that step now.
\<close>

fun client_step :: "string \<Rightarrow> tcp \<Rightarrow> client \<Rightarrow> client_event \<Rightarrow> client option" where
  "client_step status t c (Received inp) =
     (if cl_pc c = Command
      then (case inp of
              None \<Rightarrow> Some (c\<lparr>cl_pc := Finished\<rparr>)
            | Some data \<Rightarrow>
                if data = [] then Some (c\<lparr>cl_pc := Finished\<rparr>)
                else Some (client_command status (strip_line (take (TCP_SERVER_BUF - 1) data)) c))
      else None)"
| "client_step status t c Locked =
     (case cl_pc c of
        Subscribe \<Rightarrow>
          Some ((emit banner
                  (c\<lparr>cl_last_seq := g_seq t\<rparr>))\<lparr>cl_pc := Wait\<rparr>)
      | Wait \<Rightarrow>
          if g_seq t \<noteq> cl_last_seq c
          then Some (c\<lparr>cl_pc := Forward (cstr (strncpy (replicate TCP_SERVER_BUF NUL)
                         (cstr (g_push_event t)) (TCP_SERVER_BUF - 1))),
                       cl_last_seq := g_seq t\<rparr>)
          else None
      | _ \<Rightarrow> None)"
| "client_step status t c Timed_out =
     (if cl_pc c = Wait \<and> g_seq t = cl_last_seq c then Some (c\<lparr>cl_pc := Poll\<rparr>) else None)"
| "client_step status t c (Sent ok) =
     (case cl_pc c of
        Forward buf \<Rightarrow>
          if ok then Some ((emit (event_line buf) c)\<lparr>cl_pc := Poll\<rparr>)
          else Some (c\<lparr>cl_pc := Command\<rparr>)
      | _ \<Rightarrow> None)"
| "client_step status t c (Polled r) =
     (if cl_pc c = Poll
      then (case r of
              Poll_data \<Rightarrow> Some ((emit (''Monitoring bye'' @ [newline, NUL]) c)\<lparr>cl_pc := Command\<rparr>)
            | Poll_again \<Rightarrow> Some (c\<lparr>cl_pc := Wait\<rparr>)
            | _ \<Rightarrow> Some (c\<lparr>cl_pc := Command\<rparr>))
      else None)"

section \<open>Producer and clients interleaved\<close>

text \<open>
  \<open>pushed\<close> and \<open>seen\<close> are history: every event text handed to \<open>tcp_server_push_event\<close>, and for
  each client the number of events pushed when it last read \<open>g_seq\<close>. \<open>got\<close> is what a client
  took out of the slot since its last \<open>monitor\<close> command, \<open>base\<close> when that command was.
\<close>

record tcp_sys =
  slot :: tcp
  pushed :: "string list"
  clients :: "nat \<Rightarrow> client"
  seen :: "nat \<Rightarrow> nat"
  base :: "nat \<Rightarrow> nat"
  got :: "nat \<Rightarrow> string list"

definition tcp_sys_start :: tcp_sys where
  "tcp_sys_start = \<lparr>slot = tcp_start, pushed = [], clients = (\<lambda>_. client_start),
     seen = (\<lambda>_. 0), base = (\<lambda>_. 0), got = (\<lambda>_. [])\<rparr>"

definition note_read :: "nat \<Rightarrow> tcp_sys \<Rightarrow> tcp_sys" where
  "note_read i s =
     (case cl_pc (clients s i) of
        Subscribe \<Rightarrow> s\<lparr>seen := (seen s)(i := length (pushed s)), base := (base s)(i := length (pushed s)),
                      got := (got s)(i := [])\<rparr>
      | Wait \<Rightarrow> s\<lparr>seen := (seen s)(i := length (pushed s)),
                 got := (got s)(i := got s i @ [cstr (g_push_event (slot s))])\<rparr>
      | _ \<Rightarrow> s)"

inductive tcp_step :: "tcp_sys \<Rightarrow> tcp_sys \<Rightarrow> bool" where
  push: "nul_free (event_text arg bssid) \<Longrightarrow> tcp_step s (s\<lparr>slot := tcp_server_push_event arg bssid (slot s),
                      pushed := pushed s @ [event_text arg bssid]\<rparr>)"
| client: "client_step status (slot s) (clients s i) e = Some c \<Longrightarrow> e \<noteq> Locked \<Longrightarrow>
     tcp_step s (s\<lparr>clients := (clients s)(i := c)\<rparr>)"
| read: "client_step status (slot s) (clients s i) Locked = Some c \<Longrightarrow>
     tcp_step s ((note_read i s)\<lparr>clients := (clients s)(i := c)\<rparr>)"

inductive tcp_reachable :: "tcp_sys \<Rightarrow> bool" where
  init: "tcp_reachable tcp_sys_start"
| step: "tcp_reachable s \<Longrightarrow> tcp_step s t \<Longrightarrow> tcp_reachable t"

inductive_cases tcp_stepE: "tcp_step s t"

section \<open>The accept loop\<close>

text \<open>
  \<open>tcp_server_thread\<close> after \<open>listen\<close>, one entry per iteration: what \<open>accept\<close> returned, whether \<open>malloc\<close>
  gave memory for the argument of the thread, and the result of \<open>pthread_create\<close>. The result is the
  list of descriptors handed to a client thread and whether the loop has ended; \<open>None\<close>: a write
  through \<open>NULL\<close>, or \<open>pthread_detach\<close> of a thread that was not created. The variable \<open>g_running\<close> the
  loop tests is the one of \<open>tcp_server.c\<close>, which nothing writes; the signal handler of the daemon
  clears a static variable of the same name in \<open>main.c\<close>.
\<close>

datatype accept_result = Accepted int | Interrupted | Accept_failed

record accept_round =
  accepted :: accept_result
  pfd_alloc :: bool
  create_result :: int

definition tcp_g_running :: int where
  "tcp_g_running = 1"

fun tcp_accept_loop :: "accept_round list \<Rightarrow> int list \<Rightarrow> (int list \<times> bool) option" where
  "tcp_accept_loop [] spawned = Some (spawned, False)"
| "tcp_accept_loop (r # rest) spawned =
     (if tcp_g_running = 0 then Some (spawned, True)
      else (case accepted r of
              Accepted fd \<Rightarrow>
                if \<not> pfd_alloc r \<or> create_result r \<noteq> 0 then None
                else tcp_accept_loop rest (spawned @ [fd])
            | Interrupted \<Rightarrow> tcp_accept_loop rest spawned
            | Accept_failed \<Rightarrow> Some (spawned, True)))"

datatype tcp_thread = Tcp_returned | Tcp_loop "int list" bool

definition tcp_server_thread :: "int \<Rightarrow> int \<Rightarrow> accept_round list \<Rightarrow> tcp_thread option" where
  "tcp_server_thread server_fd bind_result iterations =
     (if server_fd < 0 then Some Tcp_returned
      else if bind_result < 0 then Some Tcp_returned
      else map_option (\<lambda>(fds, ended). Tcp_loop fds ended) (tcp_accept_loop iterations []))"

text \<open>The descriptors of the rounds before the first failure of \<open>accept\<close>.\<close>

fun accepted_fds :: "accept_round list \<Rightarrow> int list" where
  "accepted_fds [] = []"
| "accepted_fds (r # rest) =
     (case accepted r of Accepted fd \<Rightarrow> fd # accepted_fds rest | Interrupted \<Rightarrow> accepted_fds rest | Accept_failed \<Rightarrow> [])"

text \<open>
  Every connection gets a thread of its own, in order, and the loop ends when \<open>accept\<close> fails and for no
  other reason: a shutdown of the daemon does not end it.
\<close>

lemma tcp_accept_all:
  assumes "list_all (\<lambda>r. pfd_alloc r \<and> create_result r = 0) rounds"
  shows "tcp_accept_loop rounds spawned =
     Some (spawned @ accepted_fds rounds, list_ex (\<lambda>r. accepted r = Accept_failed) rounds)"
  using assms
  by (induction rounds arbitrary: spawned) (auto simp: tcp_g_running_def split: accept_result.split)

lemma tcp_accept_example:
  "tcp_server_thread 3 0 [\<lparr>accepted = Accepted 4, pfd_alloc = True, create_result = 0\<rparr>,
     \<lparr>accepted = Interrupted, pfd_alloc = True, create_result = 0\<rparr>,
     \<lparr>accepted = Accepted 5, pfd_alloc = False, create_result = 0\<rparr>] = None"
  by code_simp

section \<open>A sequence-numbered slot\<close>

text \<open>What a consumer relies on: a push counts up by one and replaces the content.\<close>

locale seq_slot =
  fixes push :: "'e \<Rightarrow> 's \<Rightarrow> 's"
    and content :: "'s \<Rightarrow> 'e"
    and seqno :: "'s \<Rightarrow> u64"
    and ok :: "'s \<Rightarrow> bool"
    and fits :: "'e \<Rightarrow> bool"
  assumes push_seqno: "seqno (push e s) = seqno s + 1"
    and push_content: "ok s \<Longrightarrow> fits e \<Longrightarrow> content (push e s) = e"
    and push_ok: "ok s \<Longrightarrow> ok (push e s)"
begin

lemma fold_push_ok: "ok s \<Longrightarrow> ok (fold push es s)"
  by (induction es arbitrary: s) (auto simp: push_ok)

lemma fold_push_seqno: "seqno (fold push es s) = seqno s + of_nat (length es)"
  by (induction es arbitrary: s) (auto simp: push_seqno)

lemma fold_push_content:
  "ok s \<Longrightarrow> es \<noteq> [] \<Longrightarrow> \<forall>e \<in> set es. fits e \<Longrightarrow> content (fold push es s) = last es"
  by (cases es rule: rev_cases) (auto simp: push_content fold_push_ok)

lemma fold_push_noticed:
  assumes "es \<noteq> []" "length es < 2 ^ 64"
  shows "seqno (fold push es s) \<noteq> seqno s"
proof -
  have "(of_nat (length es) :: u64) \<noteq> 0"
    using assms nat_dvd_not_less [of "length es" "2 ^ 64"] by (simp add: word_of_nat_eq_0_iff)
  then show ?thesis by (simp add: fold_push_seqno)
qed

end

lemma push_event_content [cbuf]:
  "nul_free (event_text arg b) \<Longrightarrow>
     cstr (g_push_event (tcp_server_push_event arg b t)) = take 1022 (event_text arg b)"
  by (simp add: tcp_server_push_event_def TCP_SERVER_BUF_def cbuf)

text \<open>
  The slot of the code holds the text of an event, so the interface is read at the level of
  texts: an event stands for its text.
\<close>

definition push_text :: "string \<Rightarrow> tcp \<Rightarrow> tcp" where
  "push_text e t =
     t\<lparr>g_push_event := snprintf (g_push_event t) (TCP_SERVER_BUF - 1) e, g_seq := g_seq t + 1\<rparr>"

lemma push_text_event: "tcp_server_push_event arg b = push_text (event_text arg b)"
  by (simp add: fun_eq_iff tcp_server_push_event_def push_text_def)

interpretation tslot: seq_slot push_text "\<lambda>t. cstr (g_push_event t)" g_seq "\<lambda>_. True"
  "\<lambda>e. nul_free e \<and> length e \<le> 1022"
  by unfold_locales (auto simp: push_text_def TCP_SERVER_BUF_def cbuf)

section \<open>Invariant of the interleaving\<close>

definition cut :: "string \<Rightarrow> string" where
  "cut e = take 1022 e"

text \<open>Inside the monitor loop, a client has sent the banner and one line per event it took.\<close>

definition sent_lines :: "string list \<Rightarrow> client \<Rightarrow> bool" where
  "sent_lines es c \<longleftrightarrow> (\<exists>before. cl_out c = before @ banner # map event_line es)"

fun monitor_ok :: "string list \<Rightarrow> client \<Rightarrow> bool" where
  "monitor_ok es c =
     (case cl_pc c of
        Wait \<Rightarrow> sent_lines es c
      | Poll \<Rightarrow> sent_lines es c
      | Forward b \<Rightarrow> es \<noteq> [] \<and> last es = b \<and> sent_lines (butlast es) c
      | _ \<Rightarrow> True)"

definition client_ok :: "tcp_sys \<Rightarrow> nat \<Rightarrow> bool" where
  "client_ok s i \<longleftrightarrow> seen s i \<le> length (pushed s) \<and> base s i \<le> seen s i \<and>
     cl_last_seq (clients s i) = of_nat (seen s i) \<and>
     subseq (got s i) (map cut (drop (base s i) (take (seen s i) (pushed s)))) \<and>
     monitor_ok (got s i) (clients s i)"

definition tcp_inv :: "tcp_sys \<Rightarrow> bool" where
  "tcp_inv s \<longleftrightarrow> g_seq (slot s) = of_nat (length (pushed s)) \<and>
     (pushed s \<noteq> [] \<longrightarrow> cstr (g_push_event (slot s)) = cut (last (pushed s))) \<and>
     (\<forall>i. client_ok s i)"

lemma tcp_inv_start: "tcp_inv tcp_sys_start"
  by (simp add: tcp_inv_def client_ok_def tcp_sys_start_def tcp_start_def client_start_def)

lemma subseq_snoc: "subseq xs ys \<Longrightarrow> subseq (xs @ [z]) (ys @ zs @ [z])"
  by (meson list_emb_append_mono subseq_order.refl list_emb_append2)

lemma subseq_latest:
  assumes "m \<le> n" "n < length ps" "subseq xs (map f (drop m (take n ps)))"
  shows "subseq (xs @ [f (last ps)]) (map f (drop m ps))"
proof (cases ps rule: rev_cases)
  case (snoc qs x)
  have "drop m qs = drop m (take n qs) @ drop n qs"
    using assms(1,2) snoc by (metis append_take_drop_id diff_is_0_eq drop0 drop_append length_take
        length_append_singleton less_Suc_eq_le min.absorb2)
  with assms snoc show ?thesis by (simp add: subseq_snoc)
qed (use assms in simp)

lemma map_butlast_last: "es \<noteq> [] \<Longrightarrow> map f (butlast es) @ [f (last es)] = map f es"
  by (cases es rule: rev_cases) simp_all

lemma client_step_frame:
  "client_step st t c e = Some c' \<Longrightarrow> e \<noteq> Locked \<Longrightarrow>
     cl_last_seq c' = cl_last_seq c \<and> (monitor_ok es c \<longrightarrow> monitor_ok es c')"
  by (cases e)
    (auto simp: client_command_def emit_def map_butlast_last sent_lines_def
       split: if_splits option.splits client_pc.splits poll_result.splits)

lemma client_ok_push: "client_ok s i \<Longrightarrow> client_ok (s\<lparr>slot := t, pushed := pushed s @ [x]\<rparr>) i"
  by (auto simp: client_ok_def)

lemma client_ok_other:
  "i \<noteq> j \<Longrightarrow> client_ok s i \<Longrightarrow> client_ok ((note_read j s)\<lparr>clients := (clients s)(j := c)\<rparr>) i"
  by (auto simp: client_ok_def note_read_def split: client_pc.splits)

lemma client_ok_subscribe:
  assumes "tcp_inv s" "cl_pc (clients s i) = Subscribe"
    "client_step st (slot s) (clients s i) Locked = Some c"
  shows "client_ok ((note_read i s)\<lparr>clients := (clients s)(i := c)\<rparr>) i"
  using assms by (auto simp: client_ok_def tcp_inv_def note_read_def emit_def sent_lines_def)

lemma client_ok_take:
  assumes inv: "tcp_inv s" and pc: "cl_pc (clients s i) = Wait"
    and st: "client_step st (slot s) (clients s i) Locked = Some c"
  shows "client_ok ((note_read i s)\<lparr>clients := (clients s)(i := c)\<rparr>) i"
proof -
  let ?n = "length (pushed s)" and ?e = "cstr (g_push_event (slot s))"
  from st pc have ne: "g_seq (slot s) \<noteq> cl_last_seq (clients s i)"
    and c: "c = (clients s i)\<lparr>cl_pc := Forward (cstr (strncpy (replicate TCP_SERVER_BUF NUL)
                         ?e (TCP_SERVER_BUF - 1))), cl_last_seq := g_seq (slot s)\<rparr>"
    by (auto split: if_splits)
  from inv have ok: "client_ok s i" and sq: "g_seq (slot s) = of_nat ?n" by (auto simp: tcp_inv_def)
  then have lt: "seen s i < ?n" using ne by (auto simp: client_ok_def order_le_less)
  then have p: "pushed s \<noteq> []" by auto
  with inv have e: "?e = cut (last (pushed s))" by (simp add: tcp_inv_def)
  then have "length ?e \<le> 1022" by (simp add: cut_def)
  then have fwd: "cstr (strncpy (replicate TCP_SERVER_BUF NUL) ?e (TCP_SERVER_BUF - Suc 0)) = ?e"
    by (simp add: TCP_SERVER_BUF_def cstr_strncpy)
  have "subseq (got s i @ [?e]) (map cut (drop (base s i) (pushed s)))"
    unfolding e by (rule subseq_latest) (use ok lt in \<open>auto simp: client_ok_def\<close>)
  then show ?thesis
    using ok lt by (simp add: client_ok_def note_read_def pc c sq fwd sent_lines_def)
qed

lemma tcp_inv_step:
  assumes "tcp_step s t" "tcp_inv s"
  shows "tcp_inv t"
  using assms
proof cases
  case (push arg bssid)
  with assms(2) show ?thesis
    by (auto simp: tcp_inv_def client_ok_push tcp_server_push_event_def TCP_SERVER_BUF_def cbuf cut_def)
next
  case (client st i e c)
  have "client_ok t j" if "client_ok s j" for j
    using that client_step_frame [OF client(2,3), of "got s i"] client(1)
    by (auto simp: client_ok_def simp del: monitor_ok.simps)
  with assms(2) client(1) show ?thesis by (simp add: tcp_inv_def)
next
  case (read st i c)
  have "cl_pc (clients s i) = Subscribe \<or> cl_pc (clients s i) = Wait"
    using read(2) by (auto split: client_pc.splits)
  then have "client_ok t i"
    using client_ok_subscribe client_ok_take assms(2) read by blast
  moreover have "client_ok t j" if "j \<noteq> i" for j
    using client_ok_other [OF that] assms(2) read(1) by (simp add: tcp_inv_def)
  moreover have "slot t = slot s" "pushed t = pushed s"
    by (simp_all add: read(1) note_read_def split: client_pc.splits)
  ultimately show ?thesis using assms(2) by (metis tcp_inv_def)
qed

lemma tcp_reachable_inv: "tcp_reachable s \<Longrightarrow> tcp_inv s"
  by (induction rule: tcp_reachable.induct) (auto intro: tcp_inv_start tcp_inv_step)

definition monitoring :: "client \<Rightarrow> bool" where
  "monitoring c \<longleftrightarrow> cl_pc c \<in> {Wait, Poll}"

section \<open>Running an interleaving\<close>

datatype tcp_action =
    Push string "string option"
  | Act string nat client_event

fun tcp_exec :: "tcp_sys \<Rightarrow> tcp_action \<Rightarrow> tcp_sys option" where
  "tcp_exec s (Push arg bssid) =
     (if nul_free (event_text arg bssid)
      then Some (s\<lparr>slot := tcp_server_push_event arg bssid (slot s),
                   pushed := pushed s @ [event_text arg bssid]\<rparr>)
      else None)"
| "tcp_exec s (Act status i e) =
     (case client_step status (slot s) (clients s i) e of
        None \<Rightarrow> None
      | Some c \<Rightarrow> Some ((if e = Locked then note_read i s else s)\<lparr>clients := (clients s)(i := c)\<rparr>))"

fun tcp_run :: "tcp_sys \<Rightarrow> tcp_action list \<Rightarrow> tcp_sys option" where
  "tcp_run s [] = Some s"
| "tcp_run s (a # as) = (case tcp_exec s a of None \<Rightarrow> None | Some t \<Rightarrow> tcp_run t as)"

lemma tcp_exec_step: "tcp_exec s a = Some t \<Longrightarrow> tcp_step s t"
  by (cases a) (auto split: if_splits option.splits simp del: client_step.simps intro: tcp_step.intros)

lemma tcp_run_reachable: "tcp_reachable s \<Longrightarrow> tcp_run s as = Some t \<Longrightarrow> tcp_reachable t"
  by (induction as arbitrary: s)
    (auto split: option.splits simp del: tcp_exec.simps dest: tcp_reachable.step [OF _ tcp_exec_step])

definition push_all :: "(string \<times> string option) list \<Rightarrow> tcp \<Rightarrow> tcp" where
  "push_all evs t = fold (\<lambda>(arg, b). tcp_server_push_event arg b) evs t"

lemma push_all_texts: "push_all evs t = fold push_text (map (case_prod event_text) evs) t"
  by (induction evs arbitrary: t) (auto simp: push_all_def push_text_event)

lemma forward_text:
  "nul_free e \<Longrightarrow> cstr (strncpy (replicate TCP_SERVER_BUF NUL) e 1023) = take 1023 e"
  "TCP_SERVER_BUF - Suc 0 = 1023"
  by (simp_all add: TCP_SERVER_BUF_def cstr_strncpy)

lemma push_event_seq: "g_seq (tcp_server_push_event arg b t) = g_seq t + 1"
  by (simp add: tcp_server_push_event_def)

lemmas tcp_eval = tcp_sys_start_def tcp_start_def client_start_def client_command_def strip_line_def
  note_read_def emit_def monitoring_def event_text_def push_event_content push_event_seq forward_text
  cstr_nul_free nul_free_def

section \<open>Properties\<close>

text \<open>
  C5. Monitoring is faithful: at every moment of every interleaving of pushes and client threads,
  a client inside the monitor loop has sent the banner followed by one line per event of a
  subsequence of the events pushed since it subscribed (each cut to 1022 bytes). No event is
  invented, repeated, reordered or leaked from before the subscription, however many clients
  share the slot.
\<close>

theorem monitor_lines_faithful:
  assumes "tcp_reachable s" "monitoring (clients s i)"
  shows "\<exists>before es. cl_out (clients s i) = before @ banner # map event_line es \<and>
           subseq es (map cut (drop (base s i) (pushed s)))"
proof -
  from tcp_reachable_inv [OF assms(1)] have ok: "client_ok s i" by (simp add: tcp_inv_def)
  then have "subseq (got s i) (map cut (drop (base s i) (take (seen s i) (pushed s))))"
    by (simp add: client_ok_def)
  moreover have "subseq (map cut (drop (base s i) (take (seen s i) (pushed s)))) (map cut (drop (base s i) (pushed s)))"
    by (intro subseq_map) (metis drop_take list_emb_append2 append_take_drop_id prefix_imp_subseq take_is_prefix)
  moreover have "sent_lines (got s i) (clients s i)"
    using ok assms(2) by (auto simp: client_ok_def monitoring_def)
  ultimately show ?thesis by (auto simp: sent_lines_def intro: subseq_order.trans)
qed

theorem monitor_lines_faithful_witness:
  "\<exists>s. tcp_reachable s \<and> monitoring (clients s 0) \<and>
     (\<exists>before es. cl_out (clients s 0) = before @ banner # map event_line es \<and>
        subseq es (map cut (drop (base s 0) (pushed s)))) \<and>
     cl_out (clients s 0) = [banner, event_line ''sta_join aa:bb'']"
proof -
  let ?run = "tcp_run tcp_sys_start
    [Push ''sta_join'' (Some ''00:11''), Act [] 0 (Received (Some (''monitor'' @ [newline]))),
     Act [] 0 Locked, Push ''sta_join'' (Some ''aa:bb''), Act [] 0 Locked, Act [] 0 (Sent True)]"
  have run: "?run \<noteq> None \<and> monitoring (clients (the ?run) 0) \<and>
      cl_out (clients (the ?run) 0) = [banner, event_line ''sta_join aa:bb'']"
    by (simp add: tcp_eval)
  then have "tcp_reachable (the ?run)"
    using tcp_run_reachable [OF tcp_reachable.init] by (metis option.exhaust_sel)
  then show ?thesis
    using monitor_lines_faithful [of "the ?run" 0] run by blast
qed

text \<open>
  C17. No lost wake-up: when an up-to-date client waits and between 1 and \<open>2^64 - 1\<close> events are
  pushed, the client is released and takes the newest event; the earlier ones of the burst are
  overwritten in the single slot. The bound is where the 64-bit counter comes round to the
  value the client remembers.
\<close>

theorem monitor_wakes_on_newest:
  assumes "tcp_reachable s" "cl_pc (clients s i) = Wait" "seen s i = length (pushed s)"
    and "evs \<noteq> []" "length evs < 2 ^ 64"
    and "\<forall>(arg, b) \<in> set evs. nul_free (event_text arg b) \<and> length (event_text arg b) \<le> 1022"
  shows "client_step status (push_all evs (slot s)) (clients s i) Locked =
     Some ((clients s i)\<lparr>cl_pc := Forward (case_prod event_text (last evs)),
                        cl_last_seq := of_nat (length (pushed s) + length evs)\<rparr>)"
proof -
  let ?es = "map (case_prod event_text) evs"
  have all: "push_all evs (slot s) = fold push_text ?es (slot s)" by (rule push_all_texts)
  have last: "last ?es = case_prod event_text (last evs)" using assms(4) by (simp add: last_map)
  from tcp_reachable_inv [OF assms(1)] assms(3)
  have sq: "g_seq (slot s) = of_nat (length (pushed s))" "cl_last_seq (clients s i) = g_seq (slot s)"
    by (auto simp: tcp_inv_def client_ok_def)
  have "cstr (g_push_event (fold push_text ?es (slot s))) = last ?es"
    by (rule tslot.fold_push_content) (use assms(4,6) in auto)
  moreover have "g_seq (fold push_text ?es (slot s)) \<noteq> g_seq (slot s)"
    by (rule tslot.fold_push_noticed) (use assms(4,5) in auto)
  moreover have "nul_free (last ?es)" "length (last ?es) \<le> 1022"
    using assms(6) last_in_set [OF assms(4)] unfolding last by (auto split: prod.splits)
  ultimately show ?thesis
    unfolding all last using assms(2) sq
    by (simp add: tslot.fold_push_seqno TCP_SERVER_BUF_def cstr_strncpy)
qed

theorem monitor_wakes_on_newest_witness:
  "\<exists>s c. tcp_reachable s \<and> cl_pc (clients s 0) = Wait \<and>
     client_step [] (push_all [(''sta_join'', Some ''aa''), (''sta_leave'', Some ''bb'')] (slot s))
       (clients s 0) Locked = Some c \<and> cl_pc c = Forward ''sta_leave bb'' \<and> cl_last_seq c = 2"
proof -
  let ?run = "tcp_run tcp_sys_start
    [Act [] 0 (Received (Some (''monitor'' @ [newline]))), Act [] 0 Locked]"
  let ?evs = "[(''sta_join'', Some ''aa''), (''sta_leave'', Some ''bb'')]"
  have run: "?run \<noteq> None \<and> cl_pc (clients (the ?run) 0) = Wait \<and>
      seen (the ?run) 0 = length (pushed (the ?run)) \<and> length (pushed (the ?run)) = 0"
    by (simp add: tcp_eval)
  then have "tcp_reachable (the ?run)"
    using tcp_run_reachable [OF tcp_reachable.init] by (metis option.exhaust_sel)
  moreover have "\<forall>(arg, b) \<in> set ?evs. nul_free (event_text arg b) \<and> length (event_text arg b) \<le> 1022"
    by (simp add: tcp_eval)
  moreover have "case_prod event_text (last ?evs) = ''sta_leave bb''" by (simp add: tcp_eval)
  ultimately show ?thesis
    using monitor_wakes_on_newest [of "the ?run" 0 ?evs "[]"] run by fastforce
qed

end
