(* ===== verification/Wlinkd_State.thy ===== *)
theory Wlinkd_State
  imports Sta_Mgr Wlinkd_Ipc Tcp_Server
begin

text \<open>
  The global variables of the daemon \<open>wlinkd\<close> in one record, what it asks of the system in another,
  and the four notifications of \<open>wlinkd/src/wlan_sta_mgr.c\<close> that couple the station table with
  the push sockets and the TCP event slot.
\<close>

section \<open>State\<close>

definition IFNAMSIZ :: nat where
  "IFNAMSIZ = 16"

text \<open>
  \<open>g_event_sock\<close> and \<open>g_req_sock\<close> say whether the pointer is not \<open>NULL\<close>; \<open>nl_live\<close> counts
  the netlink sockets allocated and not freed. \<open>pushes\<close> is the history of the messages handed to
  \<open>ipc_push_event\<close>, \<open>ifaddr_calls\<close> the number of calls of \<open>getifaddrs\<close>.
\<close>

record wlinkd =
  stas :: sta_mgr
  ipcs :: ipc
  tcps :: tcp
  g_event_sock :: bool
  g_req_sock :: bool
  nl_live :: nat
  g_libnl_fd :: int
  g_nl80211_id :: int
  g_nl80211_is_ap_mode :: bool
  g_wlan_idx :: u32
  g_wlan_ifname :: cbuffer
  g_wlan_core_ifname :: cbuffer
  g_ap_info :: ApInfo
  pushes :: "string list"
  ifaddr_calls :: nat

definition wlinkd_start :: wlinkd where
  "wlinkd_start =
     \<lparr>stas = sta_mgr_start, ipcs = ipc_start, tcps = tcp_start, g_event_sock = False,
      g_req_sock = False, nl_live = 0, g_libnl_fd = -1, g_nl80211_id = -1,
      g_nl80211_is_ap_mode = False, g_wlan_idx = 0, g_wlan_ifname = replicate IFNAMSIZ NUL,
      g_wlan_core_ifname = replicate IFNAMSIZ NUL, g_ap_info = ap_info_zero, pushes = [],
      ifaddr_calls = 0\<rparr>"

text \<open>
  The system below the daemon: which \<open>malloc\<close> succeeds, \<open>time(NULL)\<close> right after it, the
  interface list each \<open>getifaddrs\<close> returns, and the socket calls.
\<close>

record system =
  malloc_ok :: "nat \<Rightarrow> bool"
  time_now :: "nat \<Rightarrow> int"
  ifaddr_list :: "nat \<Rightarrow> ifaddrs list option"
  ipc_sys :: ipc_os

section \<open>Station notifications\<close>

definition sta_join_msg :: string where
  "sta_join_msg = ''sta_join'' @ [newline]"

definition sta_leave_msg :: string where
  "sta_leave_msg = ''sta_leave'' @ [newline]"

definition traffic_msg :: string where
  "traffic_msg = ''traffic'' @ [newline]"

definition push_ipc :: "system \<Rightarrow> string \<Rightarrow> wlinkd \<Rightarrow> wlinkd" where
  "push_ipc env msg s =
     s\<lparr>ipcs := ipc_push_event (ipc_sys env) msg (mark_push msg (ipcs s)), pushes := pushes s @ [msg]\<rparr>"

definition wlan_sta_mgr_join :: "system \<Rightarrow> string \<Rightarrow> wlinkd \<Rightarrow> wlinkd" where
  "wlan_sta_mgr_join env b s =
     (let s1 = push_ipc env sta_join_msg s
      in s1\<lparr>tcps := tcp_server_push_event ''sta_join'' (Some b) (tcps s1)\<rparr>)"

definition wlan_sta_mgr_leave :: "string \<Rightarrow> wlinkd \<Rightarrow> wlinkd" where
  "wlan_sta_mgr_leave b s = s\<lparr>tcps := tcp_server_push_event ''sta_leave'' (Some b) (tcps s)\<rparr>"

definition wlan_sta_mgr_led_off :: "system \<Rightarrow> wlinkd \<Rightarrow> wlinkd" where
  "wlan_sta_mgr_led_off env s = push_ipc env sta_leave_msg s"

definition wlan_sta_mgr_traffic :: "system \<Rightarrow> string \<Rightarrow> wlinkd \<Rightarrow> wlinkd" where
  "wlan_sta_mgr_traffic env b s = push_ipc env traffic_msg s"

section \<open>Invariant\<close>

text \<open>
  \<open>led_on log\<close>: what the LED shows after the messages \<open>log\<close>: \<open>sta_join\<close> lights it,
  \<open>sta_leave\<close> puts it out, \<open>traffic\<close> makes it blink and leaves it lit (the behaviour of the LED
  driver). \<open>names s\<close> are the BSSIDs in the table.
\<close>

definition led_next :: "string \<Rightarrow> bool \<Rightarrow> bool" where
  "led_next m lit =
     (if m = sta_join_msg \<or> m = traffic_msg then True else if m = sta_leave_msg then False else lit)"

definition led_on :: "string list \<Rightarrow> bool" where
  "led_on log = fold led_next log False"

definition names :: "wlinkd \<Rightarrow> string set" where
  "names s = fst ` set (sta_views (stas s))"

definition parts_ok :: "wlinkd \<Rightarrow> bool" where
  "parts_ok s \<longleftrightarrow> sta_inv (stas s) \<and> ipc_inv (ipcs s) \<and> fd_ledger (ipcs s) \<and> deliver_ok (pushes s) (ipcs s) \<and>
     ap_info_wf (g_ap_info s) \<and> terminated IFNAMSIZ (g_wlan_ifname s) \<and>
     terminated IFNAMSIZ (g_wlan_core_ifname s) \<and>
     nl_live s = of_bool (g_event_sock s) + of_bool (g_req_sock s)"

definition led_msgs :: "string set" where
  "led_msgs = {sta_join_msg, sta_leave_msg, traffic_msg}"

definition led_ok :: "wlinkd \<Rightarrow> bool" where
  "led_ok s \<longleftrightarrow> (led_on (pushes s) \<longleftrightarrow> names s \<noteq> {}) \<and> set (pushes s) \<subseteq> led_msgs"

definition wlinkd_inv :: "wlinkd \<Rightarrow> bool" where
  "wlinkd_inv s \<longleftrightarrow> parts_ok s \<and> led_ok s"

lemma msgs_distinct [simp]:
  "sta_join_msg \<noteq> sta_leave_msg" "traffic_msg \<noteq> sta_join_msg" "traffic_msg \<noteq> sta_leave_msg"
  "sta_leave_msg \<noteq> sta_join_msg" "sta_join_msg \<noteq> traffic_msg" "sta_leave_msg \<noteq> traffic_msg"
  by (simp_all add: sta_join_msg_def sta_leave_msg_def traffic_msg_def)

lemma in_led_msgs [simp]: "sta_join_msg \<in> led_msgs" "sta_leave_msg \<in> led_msgs" "traffic_msg \<in> led_msgs"
  by (simp_all add: led_msgs_def)

lemma wlinkd_inv_msgs: "wlinkd_inv s \<Longrightarrow> set (pushes s) \<subseteq> led_msgs"
  by (simp add: wlinkd_inv_def led_ok_def)

text \<open>A push client was sent everything it is owed, and that is the end of what the daemon pushed.\<close>

lemma wlinkd_delivers:
  assumes "wlinkd_inv s" "fresh_fds (ipc_trace (ipcs s))" "fd \<in> set (subscribers (ipcs s))"
  shows "got_all (owed fd (ipc_trace (ipcs s))) (sent_to fd (ipc_trace (ipcs s)))"
    and "suffix (owed fd (ipc_trace (ipcs s))) (pushes s)"
proof -
  have d: "deliver_ok (pushes s) (ipcs s)" using assms(1) by (simp add: wlinkd_inv_def parts_ok_def)
  with assms(2,3) show "got_all (owed fd (ipc_trace (ipcs s))) (sent_to fd (ipc_trace (ipcs s)))"
    by (simp add: deliver_ok_def)
  show "suffix (owed fd (ipc_trace (ipcs s))) (pushes s)"
    using d owed_suffix [of fd "ipc_trace (ipcs s)"] by (simp add: deliver_ok_def)
qed

lemma ok_no_led_msg: "ipc_ok_msg \<notin> led_msgs"
  by (simp add: ipc_ok_msg_def led_msgs_def sta_join_msg_def sta_leave_msg_def traffic_msg_def)

lemma wlinkd_sent:
  assumes "wlinkd_inv s" "fresh_fds (ipc_trace (ipcs s))" "fd \<in> set (subscribers (ipcs s))"
    and "sent_to fd (ipc_trace (ipcs s)) = ipc_ok_msg # ms"
  shows "\<exists>before. pushes s = before @ ms"
proof -
  have "ipc_ok_msg \<notin> set (pushes s)" using wlinkd_inv_msgs [OF assms(1)] ok_no_led_msg by blast
  with wlinkd_delivers [OF assms(1-3)] assms(4) show ?thesis
    by (auto simp: got_all_def suffix_def dest!: sym [of "ipc_ok_msg # ms"])
qed

lemma led_on_simps [simp]: "led_on [] = False" "led_on (l @ [m]) = led_next m (led_on l)"
  by (simp_all add: led_on_def)

lemma wlinkd_start_inv: "wlinkd_inv wlinkd_start"
proof -
  have "deliver_ok [] ipc_start" by (rule deliver_none) (simp_all add: ipc_start_def subscribers_def)
  then show ?thesis by (simp add: wlinkd_inv_def parts_ok_def led_ok_def names_def wlinkd_start_def IFNAMSIZ_def)
qed

lemma push_ipc_parts [intro]: "parts_ok s \<Longrightarrow> parts_ok (push_ipc env m s)"
  by (simp add: parts_ok_def push_ipc_def ipc_push_event_inv ipc_push_event_ledger deliver_push)

lemma push_ipc_frame [frame]:
  "stas (push_ipc env m s) = stas s" "tcps (push_ipc env m s) = tcps s"
  "pushes (push_ipc env m s) = pushes s @ [m]" "names (push_ipc env m s) = names s"
  "g_ap_info (push_ipc env m s) = g_ap_info s" "g_wlan_idx (push_ipc env m s) = g_wlan_idx s"
  "g_nl80211_is_ap_mode (push_ipc env m s) = g_nl80211_is_ap_mode s"
  by (simp_all add: push_ipc_def names_def)

lemma join_frame [frame]:
  "stas (wlan_sta_mgr_join env b s) = stas s" "names (wlan_sta_mgr_join env b s) = names s"
  "pushes (wlan_sta_mgr_join env b s) = pushes s @ [sta_join_msg]"
  "g_ap_info (wlan_sta_mgr_join env b s) = g_ap_info s"
  "g_wlan_idx (wlan_sta_mgr_join env b s) = g_wlan_idx s"
  "g_nl80211_is_ap_mode (wlan_sta_mgr_join env b s) = g_nl80211_is_ap_mode s"
  "tcps (wlan_sta_mgr_join env b s) = tcp_server_push_event ''sta_join'' (Some b) (tcps s)"
  by (simp_all add: wlan_sta_mgr_join_def Let_def names_def frame)

lemma leave_frame [frame]:
  "stas (wlan_sta_mgr_leave b s) = stas s" "names (wlan_sta_mgr_leave b s) = names s"
  "pushes (wlan_sta_mgr_leave b s) = pushes s" "ipcs (wlan_sta_mgr_leave b s) = ipcs s"
  "g_ap_info (wlan_sta_mgr_leave b s) = g_ap_info s"
  "g_wlan_idx (wlan_sta_mgr_leave b s) = g_wlan_idx s"
  "g_nl80211_is_ap_mode (wlan_sta_mgr_leave b s) = g_nl80211_is_ap_mode s"
  by (simp_all add: wlan_sta_mgr_leave_def names_def)

lemma parts_tcps [simp]: "parts_ok (s\<lparr>tcps := t\<rparr>) = parts_ok s"
  by (simp add: parts_ok_def)

lemma parts_stas: "parts_ok s \<Longrightarrow> sta_inv st \<Longrightarrow> parts_ok (s\<lparr>stas := st\<rparr>)"
  by (simp add: parts_ok_def)

lemma join_parts [intro]: "parts_ok s \<Longrightarrow> parts_ok (wlan_sta_mgr_join env b s)"
  by (simp add: wlan_sta_mgr_join_def Let_def push_ipc_parts)

lemma leave_parts [simp]: "parts_ok (wlan_sta_mgr_leave b s) = parts_ok s"
  by (simp add: wlan_sta_mgr_leave_def)

lemma led_off_parts [intro]: "parts_ok s \<Longrightarrow> parts_ok (wlan_sta_mgr_led_off env s)"
  by (auto simp: wlan_sta_mgr_led_off_def)

lemma traffic_parts [intro]: "parts_ok s \<Longrightarrow> parts_ok (wlan_sta_mgr_traffic env b s)"
  by (auto simp: wlan_sta_mgr_traffic_def)

lemma names_stas [simp]: "names (s\<lparr>stas := st\<rparr>) = fst ` set (sta_views st)"
  by (simp add: names_def)

end
