(* ===== verification/Wlan_Libnl.thy ===== *)
theory Wlan_Libnl
  imports Lab_Prelude
begin

text \<open>
  \<open>wlinkd/src/wlan_libnl.c\<close>: one request and the loop that receives its answer. The library
  libnl is a parameter: for each call of \<open>nl_recvmsgs\<close> the callbacks it makes, in order, and the
  value it returns. The model runs the daemon's own callbacks on them. A request whose answer has
  not ended when the given calls are used up is \<open>Waiting\<close>; the result \<open>None\<close> is a callback
  that crashes.
\<close>

definition EBADF :: int where
  "EBADF = 9"

definition EAGAIN :: int where
  "EAGAIN = 11"

definition ENOMEM :: int where
  "ENOMEM = 12"

definition NLE_DUMP_INTR :: int where
  "NLE_DUMP_INTR = 33"

datatype nl_action = NL_STOP | NL_SKIP

datatype 'm nl_callback = Valid 'm | Finish | Ack | Error int

record 'm nl_reply =
  reply_cb_alloc :: bool
  reply_send :: int
  reply_calls :: "('m nl_callback list \<times> int) list"

datatype 's nl_run = Returned int 's | Waiting 's

section \<open>Callbacks\<close>

text \<open>Each callback gives the new value of the caller's \<open>err\<close> and what it returns to libnl.\<close>

definition wlan_libnl_ack_cb :: "int \<Rightarrow> int \<times> nl_action" where
  "wlan_libnl_ack_cb err = (0, NL_STOP)"

definition wlan_libnl_finish_cb :: "int \<Rightarrow> int \<times> nl_action" where
  "wlan_libnl_finish_cb err = (0, NL_SKIP)"

definition wlan_libnl_error_cb :: "int \<Rightarrow> int \<Rightarrow> int \<times> nl_action" where
  "wlan_libnl_error_cb e err = (e, NL_STOP)"

fun run_callbacks ::
  "('m \<Rightarrow> 's \<Rightarrow> 's option) \<Rightarrow> 'm nl_callback list \<Rightarrow> int \<Rightarrow> 's \<Rightarrow> (int \<times> 's) option" where
  "run_callbacks valid_cb [] err s = Some (err, s)"
| "run_callbacks valid_cb (Valid m # cs) err s =
     (case valid_cb m s of None \<Rightarrow> None | Some t \<Rightarrow> run_callbacks valid_cb cs err t)"
| "run_callbacks valid_cb (Finish # cs) err s =
     run_callbacks valid_cb cs (fst (wlan_libnl_finish_cb err)) s"
| "run_callbacks valid_cb (Ack # cs) err s =
     run_callbacks valid_cb cs (fst (wlan_libnl_ack_cb err)) s"
| "run_callbacks valid_cb (Error e # cs) err s =
     run_callbacks valid_cb cs (fst (wlan_libnl_error_cb e err)) s"

section \<open>The receive loop\<close>

fun recv_loop ::
  "('m \<Rightarrow> 's \<Rightarrow> 's option) \<Rightarrow> ('m nl_callback list \<times> int) list \<Rightarrow> int \<Rightarrow> 's \<Rightarrow> 's nl_run option" where
  "recv_loop valid_cb [] err s = Some (if err > 0 then Waiting s else Returned err s)"
| "recv_loop valid_cb ((cs, res) # calls) err s =
     (if err > 0
      then (case run_callbacks valid_cb cs err s of
              None \<Rightarrow> None
            | Some (err1, t) \<Rightarrow>
                recv_loop valid_cb calls (if res = - NLE_DUMP_INTR then - EAGAIN else err1) t)
      else Some (Returned err s))"

definition wlan_libnl_send_and_recv ::
  "bool \<Rightarrow> bool \<Rightarrow> ('m \<Rightarrow> 's \<Rightarrow> 's option) \<Rightarrow> 'm nl_reply \<Rightarrow> 's \<Rightarrow> 's nl_run option" where
  "wlan_libnl_send_and_recv req_sock msg valid_cb reply s =
     (if \<not> req_sock \<or> \<not> msg then Some (Returned (-1) s)
      else if \<not> reply_cb_alloc reply then Some (Returned (- ENOMEM) s)
      else if reply_send reply < 0 then Some (Returned (- EBADF) s)
      else recv_loop valid_cb (reply_calls reply) 1 s)"

section \<open>What a request keeps and what it delivers\<close>

fun run_state :: "'s nl_run \<Rightarrow> 's" where
  "run_state (Returned err s) = s"
| "run_state (Waiting s) = s"

lemma run_callbacks_inv:
  assumes "\<And>m s. P s \<Longrightarrow> \<exists>t. cb m s = Some t \<and> P t" "P s"
  shows "\<exists>err' t. run_callbacks cb cs err s = Some (err', t) \<and> P t"
  using assms(2)
proof (induction cs arbitrary: err s)
  case (Cons c cs)
  then show ?case
    using assms(1) [of s] by (cases c) (auto, metis option.simps(5))
qed simp

lemma recv_loop_inv:
  assumes cb: "\<And>m s. P s \<Longrightarrow> \<exists>t. cb m s = Some t \<and> P t" and "P s"
  shows "\<exists>r. recv_loop cb calls err s = Some r \<and> P (run_state r)"
  using assms(2)
proof (induction calls arbitrary: err s)
  case Nil
  then show ?case by simp
next
  case (Cons c calls)
  obtain cs res where c: "c = (cs, res)" by fastforce
  from run_callbacks_inv [where P = P and cb = cb, OF cb Cons.prems] obtain err' t where
    "run_callbacks cb cs err s = Some (err', t)" "P t" by blast
  with Cons c show ?case by simp
qed

lemma send_and_recv_inv:
  assumes "\<And>m s. P s \<Longrightarrow> \<exists>t. cb m s = Some t \<and> P t" and "P s"
  shows "\<exists>r. wlan_libnl_send_and_recv sk ms cb reply s = Some r \<and> P (run_state r)"
  using recv_loop_inv [where P = P and cb = cb, OF assms] assms(2)
  by (simp add: wlan_libnl_send_and_recv_def)

text \<open>
  A complete answer: calls that deliver messages, then one that delivers the rest and the end of
  the dump (or the acknowledgement).
\<close>

fun fold_opt :: "('m \<Rightarrow> 's \<Rightarrow> 's option) \<Rightarrow> 'm list \<Rightarrow> 's \<Rightarrow> 's option" where
  "fold_opt f [] s = Some s"
| "fold_opt f (m # ms) s = (case f m s of None \<Rightarrow> None | Some t \<Rightarrow> fold_opt f ms t)"

definition complete_reply :: "'m list list \<Rightarrow> 'm list \<Rightarrow> 'm nl_reply" where
  "complete_reply mss ms =
     \<lparr>reply_cb_alloc = True, reply_send = 0,
      reply_calls = map (\<lambda>l. (map Valid l, 0)) mss @ [(map Valid ms @ [Finish], 0)]\<rparr>"

lemma fold_opt_append:
  "fold_opt f (xs @ ys) s = (case fold_opt f xs s of None \<Rightarrow> None | Some t \<Rightarrow> fold_opt f ys t)"
  by (induction xs arbitrary: s) (auto split: option.splits)

lemma run_callbacks_valid:
  "run_callbacks cb (map Valid ms @ cs) err s =
     (case fold_opt cb ms s of None \<Rightarrow> None | Some t \<Rightarrow> run_callbacks cb cs err t)"
  by (induction ms arbitrary: s) (auto split: option.splits)

lemma recv_loop_valid:
  "0 < err \<Longrightarrow> recv_loop cb (map (\<lambda>l. (map Valid l, 0)) mss @ calls) err s =
     (case fold_opt cb (concat mss) s of None \<Rightarrow> None | Some t \<Rightarrow> recv_loop cb calls err t)"
  by (induction mss arbitrary: s)
    (auto simp: fold_opt_append NLE_DUMP_INTR_def run_callbacks_valid [where cs = "[]", simplified]
      split: option.splits)

lemma send_and_recv_complete:
  "wlan_libnl_send_and_recv True True cb (complete_reply mss ms) s =
     map_option (Returned 0) (fold_opt cb (concat mss @ ms) s)"
  by (simp add: wlan_libnl_send_and_recv_def complete_reply_def recv_loop_valid run_callbacks_valid
      fold_opt_append wlan_libnl_finish_cb_def NLE_DUMP_INTR_def split: option.split)

section \<open>When a request returns\<close>

text \<open>The value of \<open>err\<close> after the callbacks of one call.\<close>

fun final_err :: "'m nl_callback list \<Rightarrow> int \<Rightarrow> int" where
  "final_err [] err = err"
| "final_err (Valid m # cs) err = final_err cs err"
| "final_err (Finish # cs) err = final_err cs 0"
| "final_err (Ack # cs) err = final_err cs 0"
| "final_err (Error e # cs) err = final_err cs e"

definition ends_request :: "'m nl_callback list \<times> int \<Rightarrow> bool" where
  "ends_request = (\<lambda>(cs, res). res = - NLE_DUMP_INTR \<or> final_err cs 1 \<le> 0)"

lemma run_callbacks_err:
  assumes "\<forall>m s. cb m s \<noteq> None"
  shows "\<exists>t. run_callbacks cb cs err s = Some (final_err cs err, t)"
proof (induction cs arbitrary: err s)
  case (Cons c cs)
  show ?case
  proof (cases c)
    case (Valid m)
    from assms obtain t where "cb m s = Some t" by blast
    with Valid Cons show ?thesis by simp
  qed (use Cons in \<open>simp_all add: wlan_libnl_finish_cb_def wlan_libnl_ack_cb_def wlan_libnl_error_cb_def\<close>)
qed simp

lemma final_err_positive: "0 < err \<Longrightarrow> final_err cs err \<le> 0 \<longleftrightarrow> final_err cs 1 \<le> 0"
proof (induction cs)
  case (Cons c cs)
  then show ?case by (cases c) simp_all
qed simp

lemma recv_loop_returns:
  assumes cb: "\<forall>m s. cb m s \<noteq> None" and "0 < err"
  shows "(\<exists>e t. recv_loop cb calls err s = Some (Returned e t)) \<longleftrightarrow> (\<exists>c \<in> set calls. ends_request c)"
  using assms(2)
proof (induction calls arbitrary: err s)
  case (Cons c calls)
  obtain cs res where c: "c = (cs, res)" by fastforce
  from run_callbacks_err [OF cb] obtain t where t: "run_callbacks cb cs err s = Some (final_err cs err, t)" by blast
  have stop: "\<exists>u. recv_loop cb calls e t = Some (Returned e u)" if "e \<le> 0" for e
    using that by (cases calls) auto
  show ?case
  proof (cases "ends_request c")
    case True
    then have "(if res = - NLE_DUMP_INTR then - EAGAIN else final_err cs err) \<le> 0"
      using final_err_positive [OF Cons.prems] by (auto simp: ends_request_def c EAGAIN_def)
    from stop [OF this] True Cons.prems show ?thesis by (auto simp: c t)
  next
    case False
    then have n: "res \<noteq> - NLE_DUMP_INTR" "0 < final_err cs err"
      using final_err_positive [OF Cons.prems, of cs] by (auto simp: ends_request_def c)
    from Cons.IH [OF n(2)] False n(1) Cons.prems show ?thesis by (simp add: c t)
  qed
qed simp

section \<open>Properties\<close>

text \<open>
  C23. When a request to the kernel returns: with callbacks that return, it does so exactly if the callback
  set cannot be allocated, the send fails, or one of the calls of \<open>nl_recvmsgs\<close> reports an
  interrupted dump or leaves \<open>err\<close> at or below zero through the end of the dump, an acknowledgement
  or an error message. A call that only fails ends nothing: while every call fails the loop goes on,
  however many calls there are, and with it the daemon's only thread.
\<close>

theorem request_returns_iff:
  assumes "\<forall>m s. cb m s \<noteq> None"
  shows "((\<exists>e t. wlan_libnl_send_and_recv True True cb reply s = Some (Returned e t)) \<longleftrightarrow>
      \<not> reply_cb_alloc reply \<or> reply_send reply < 0 \<or> (\<exists>c \<in> set (reply_calls reply). ends_request c)) \<and>
    (reply_cb_alloc reply \<and> 0 \<le> reply_send reply \<and> reply_calls reply = replicate n ([], res) \<and> res \<noteq> - NLE_DUMP_INTR \<longrightarrow>
      wlan_libnl_send_and_recv True True cb reply s = Some (Waiting s))"
proof -
  have "recv_loop cb (replicate n ([], res)) 1 s = Some (Waiting s)" if "res \<noteq> - NLE_DUMP_INTR"
    using that by (induction n) simp_all
  with recv_loop_returns [OF assms, of 1 "reply_calls reply" s] show ?thesis
    by (auto simp: wlan_libnl_send_and_recv_def)
qed

theorem request_returns_iff_witness:
  "wlan_libnl_send_and_recv True True (\<lambda>m s. Some (m # s))
     \<lparr>reply_cb_alloc = True, reply_send = 0, reply_calls = replicate 1000 ([], -5)\<rparr> [''start''] = Some (Waiting [''start''])"
  using request_returns_iff [of "\<lambda>m s. Some (m # s)"
      "\<lparr>reply_cb_alloc = True, reply_send = 0, reply_calls = replicate 1000 ([], -5)\<rparr>" "[''start'']" 1000 "-5"]
  by (simp add: NLE_DUMP_INTR_def)

end
