(* ===== verification/Wlan_Nl80211.thy ===== *)
theory Wlan_Nl80211
  imports Wlinkd_State Wlan_Libnl
begin

text \<open>
  \<open>wlinkd/src/wlan_nl80211.c\<close>: the callbacks that turn nl80211 messages into changes of the
  station table, of the access-point information and into notifications, and the periodic refresh.
  A message is given by its attributes, as \<open>nla_parse\<close> leaves them (\<open>None\<close> for an absent one).
  The result \<open>None\<close> of an operation is a crash or a loop of the station table below it.
\<close>

section \<open>Messages\<close>

record rate_info =
  rate_bitrate32 :: "u32 option"
  rate_bitrate :: "u16 option"

text \<open>A nested attribute that is present and that \<open>nla_parse_nested\<close> refuses is \<open>Some None\<close>.\<close>

record sta_info =
  si_signal :: "u8 option"
  si_tx_bitrate :: "rate_info option option"
  si_tx_packets :: "u32 option"
  si_rx_packets :: "u32 option"

record nl_msg =
  cmd :: nat
  attr_ifindex :: "u32 option"
  attr_mac :: "mac option"
  attr_ifname :: "string option"
  attr_freq :: "u32 option"
  attr_width :: "u32 option"
  attr_iftype :: "u32 option"
  attr_sta_info :: "sta_info option option"

definition NL80211_CMD_NEW_STATION :: nat where
  "NL80211_CMD_NEW_STATION = 19"

definition NL80211_CMD_DEL_STATION :: nat where
  "NL80211_CMD_DEL_STATION = 20"

definition NL80211_IFTYPE_AP :: u32 where
  "NL80211_IFTYPE_AP = 3"

definition NL80211_IFTYPE_MONITOR :: u32 where
  "NL80211_IFTYPE_MONITOR = 6"

definition NL80211_IFTYPE_P2P_GO :: u32 where
  "NL80211_IFTYPE_P2P_GO = 9"

definition WLAN_NL80211_MAX_STAS :: nat where
  "WLAN_NL80211_MAX_STAS = 64"

definition wlan_nl80211_width_to_mhz :: "u32 \<Rightarrow> int" where
  "wlan_nl80211_width_to_mhz width =
     (if width = 6 then 5
      else if width = 7 then 10
      else if width = 0 \<or> width = 1 then 20
      else if width = 2 then 40
      else if width = 3 then 80
      else if width = 4 \<or> width = 5 then 160
      else 0)"

section \<open>Station table of the daemon\<close>

definition station_add :: "system \<Rightarrow> string \<Rightarrow> wlinkd \<Rightarrow> (int \<times> wlinkd) option" where
  "station_add env b s =
     map_option (\<lambda>(r, st). (r, s\<lparr>stas := st\<rparr>))
       (wlan_sta_mgr_add (malloc_ok env) (time_now env (malloc_calls (stas s))) (Some b) (stas s))"

definition mac_buffer :: "mac option \<Rightarrow> cbuffer" where
  "mac_buffer m = the (wlan_utils_format_bssid m (Some (replicate MAC_ADDR_LEN NUL)) MAC_ADDR_LEN)"

section \<open>Interface information and MLME events\<close>

definition wlan_nl80211_is_ap_mode :: "wlinkd \<Rightarrow> bool" where
  "wlan_nl80211_is_ap_mode s = g_nl80211_is_ap_mode s"

definition wlan_nl80211_get_ap_basic_info :: "ApInfo option \<Rightarrow> wlinkd \<Rightarrow> int \<times> ApInfo option" where
  "wlan_nl80211_get_ap_basic_info info s =
     (case info of None \<Rightarrow> (-1, None) | Some _ \<Rightarrow> (0, Some (g_ap_info s)))"

definition refill_ip :: "system \<Rightarrow> wlinkd \<Rightarrow> wlinkd" where
  "refill_ip env s =
     s\<lparr>g_ap_info := the (wlan_utils_fill_ip_address (ifaddr_list env (ifaddr_calls s))
                          (Some (cstr (iface (g_ap_info s)))) (Some (g_ap_info s))),
       ifaddr_calls := Suc (ifaddr_calls s)\<rparr>"

definition set_mode :: "u32 \<Rightarrow> wlinkd \<Rightarrow> wlinkd" where
  "set_mode iftype s =
     (let a = g_ap_info s in
      if iftype = NL80211_IFTYPE_AP \<or> iftype = NL80211_IFTYPE_P2P_GO
      then s\<lparr>g_ap_info := a\<lparr>mode := strncpy (mode a) ''AP'' 15\<rparr>, g_nl80211_is_ap_mode := True\<rparr>
      else if iftype = NL80211_IFTYPE_MONITOR
      then s\<lparr>g_ap_info := a\<lparr>mode := strncpy (mode a) ''MONITOR'' 15\<rparr>, g_nl80211_is_ap_mode := False\<rparr>
      else s\<lparr>g_ap_info := a\<lparr>mode := strncpy (mode a) ''UNKNOWN'' 15\<rparr>, g_nl80211_is_ap_mode := False\<rparr>)"

definition interface_info :: "system \<Rightarrow> nl_msg \<Rightarrow> wlinkd \<Rightarrow> wlinkd" where
  "interface_info env m s =
     (let a0 = g_ap_info s;
          a1 = (case attr_ifname m of None \<Rightarrow> a0 | Some nm \<Rightarrow> a0\<lparr>iface := strncpy (iface a0) nm 31\<rparr>);
          a2 = (case attr_freq m of
                  None \<Rightarrow> a1
                | Some f \<Rightarrow> a1\<lparr>channel := the (wlan_utils_format_channel f (Some (channel a1)) 32)\<rparr>);
          a3 = (case attr_width m of
                  None \<Rightarrow> a2 | Some w \<Rightarrow> a2\<lparr>bandwidth_mhz := wlan_nl80211_width_to_mhz w\<rparr>);
          s1 = s\<lparr>g_ap_info := a3\<rparr>;
          s2 = (case attr_iftype m of None \<Rightarrow> s1 | Some t \<Rightarrow> set_mode t s1)
      in refill_ip env s2)"

definition new_station :: "system \<Rightarrow> string \<Rightarrow> wlinkd \<Rightarrow> wlinkd option" where
  "new_station env b s =
     (if b = [] then Some s
      else (case station_add env b s of
              None \<Rightarrow> None
            | Some (r, s1) \<Rightarrow> Some (if r > 0 then wlan_sta_mgr_join env b s1 else s1)))"

definition del_station :: "system \<Rightarrow> string \<Rightarrow> wlinkd \<Rightarrow> wlinkd option" where
  "del_station env b s =
     (if b = [] then Some s
      else let s1 = wlan_sta_mgr_leave b s in
        (case wlan_sta_mgr_remove b (stas s1) of
           None \<Rightarrow> None
         | Some (_, st) \<Rightarrow>
             (case wlan_sta_mgr_count st of
                None \<Rightarrow> None
              | Some n \<Rightarrow>
                  let s2 = s1\<lparr>stas := st\<rparr>
                  in Some (if n = 0 then wlan_sta_mgr_led_off env s2 else s2))))"

definition wlan_nl80211_netdev_info_handler_cb :: "system \<Rightarrow> nl_msg \<Rightarrow> wlinkd \<Rightarrow> wlinkd option" where
  "wlan_nl80211_netdev_info_handler_cb env m s =
     (case attr_ifindex m of
        None \<Rightarrow> Some s
      | Some ifindex \<Rightarrow>
          if ifindex \<noteq> g_wlan_idx s then Some s
          else let b = cstr (mac_buffer (attr_mac m)) in
            if cmd m = NL80211_CMD_NEW_STATION then new_station env b s
            else if cmd m = NL80211_CMD_DEL_STATION then del_station env b s
            else Some (interface_info env m s))"

section \<open>Station dump\<close>

definition wlan_nl80211_update_sta :: "system \<Rightarrow> string \<Rightarrow> int \<Rightarrow> u64 \<Rightarrow> wlinkd \<Rightarrow> wlinkd option" where
  "wlan_nl80211_update_sta env b rssi_arg total_pkts s =
     (if b = [] then Some s
      else (case station_add env b s of
              None \<Rightarrow> None
            | Some (added, s1) \<Rightarrow>
                (case wlan_sta_mgr_find b (stas s1) of
                   None \<Rightarrow> None
                 | Some None \<Rightarrow> Some s1
                 | Some (Some a) \<Rightarrow>
                     let pkts = priv_pkts (node (stas s1) a);
                         s2 = s1\<lparr>stas := write_stats (stas s1) a rssi_arg total_pkts\<rparr>
                     in if added > 0 then Some (wlan_sta_mgr_join env b s2)
                        else if total_pkts > pkts then Some (wlan_sta_mgr_traffic env b s2)
                        else Some s2)))"

type_synonym sta_ctx = "cbuffer list \<times> nat"

definition collect_bssid :: "string \<Rightarrow> sta_ctx \<Rightarrow> sta_ctx" where
  "collect_bssid b ctx =
     (let (bssids, cnt) = ctx in
      if cnt < WLAN_NL80211_MAX_STAS
      then (bssids[cnt := (strncpy (bssids ! cnt) b (MAC_ADDR_LEN - 1))[MAC_ADDR_LEN - 1 := NUL]],
            Suc cnt)
      else ctx)"

definition link_rssi :: "sta_info option option \<Rightarrow> int" where
  "link_rssi si =
     (case si of
        Some (Some i) \<Rightarrow> (case si_signal i of None \<Rightarrow> 0 | Some b \<Rightarrow> sint b)
      | _ \<Rightarrow> 0)"

definition link_packets :: "sta_info option option \<Rightarrow> u64" where
  "link_packets si =
     (case si of
        Some (Some i) \<Rightarrow>
          (case si_tx_packets i of None \<Rightarrow> 0 | Some p \<Rightarrow> ucast p) +
          (case si_rx_packets i of None \<Rightarrow> 0 | Some p \<Rightarrow> ucast p)
      | _ \<Rightarrow> 0)"

definition link_rate :: "sta_info option option \<Rightarrow> int \<Rightarrow> int" where
  "link_rate si old =
     (case si of
        Some (Some i) \<Rightarrow>
          (case si_tx_bitrate i of
             None \<Rightarrow> old
           | Some None \<Rightarrow> 0
           | Some (Some r) \<Rightarrow>
               (case (rate_bitrate32 r, rate_bitrate r) of
                  (Some x, _) \<Rightarrow> uint (x div 10)
                | (None, Some x) \<Rightarrow> uint (x div 10)
                | (None, None) \<Rightarrow> old))
      | _ \<Rightarrow> old)"

definition wlan_nl80211_get_link_signal_cb ::
  "system \<Rightarrow> nl_msg \<Rightarrow> wlinkd \<times> sta_ctx \<Rightarrow> (wlinkd \<times> sta_ctx) option" where
  "wlan_nl80211_get_link_signal_cb env m sc =
     (case attr_mac m of
        None \<Rightarrow> Some sc
      | Some mac \<Rightarrow>
          let (s, ctx) = sc;
              b = cstr (mac_buffer (Some mac));
              ctx1 = collect_bssid b ctx;
              r = link_rssi (attr_sta_info m);
              a = g_ap_info s;
              s1 = s\<lparr>g_ap_info := a\<lparr>phy_rate_mbps := link_rate (attr_sta_info m) (phy_rate_mbps a),
                                  rssi_dbm := r\<rparr>\<rparr>
          in map_option (\<lambda>t. (t, ctx1))
               (wlan_nl80211_update_sta env b r (link_packets (attr_sta_info m)) s1))"

text \<open>
  \<open>bssids = None\<close> is the \<open>NULL\<close> array: every station goes. The walk saves \<open>next\<close> before the
  station is removed.
\<close>

definition wlan_nl80211_remove_sta :: "system \<Rightarrow> cbuffer list option \<Rightarrow> int \<Rightarrow> wlinkd \<Rightarrow> wlinkd option" where
  "wlan_nl80211_remove_sta env bssids cnt s =
     (let keep = (if bssids = None \<or> cnt < 0 then (\<lambda>_. Some False) else in_bssids bssids cnt) in
      case purge_loop keep (\<lambda>b (t, removed). (wlan_sta_mgr_leave b t, Suc removed))
             (sta_mgr_head (stas s)) (stas s) (s, 0) of
        None \<Rightarrow> None
      | Some (st, (t, removed)) \<Rightarrow>
          let s1 = t\<lparr>stas := st\<rparr> in
          if removed > 0
          then (case wlan_sta_mgr_count st of
                  None \<Rightarrow> None
                | Some n \<Rightarrow> Some (if n = 0 then wlan_sta_mgr_led_off env s1 else s1))
          else Some s1)"

section \<open>Initialisation and refresh\<close>

definition wlan_libnl_close :: "wlinkd \<Rightarrow> wlinkd" where
  "wlan_libnl_close s =
     (let s1 = (if g_event_sock s then s\<lparr>nl_live := nl_live s - 1\<rparr> else s);
          s2 = (if g_req_sock s1 then s1\<lparr>nl_live := nl_live s1 - 1\<rparr> else s1)
      in s2\<lparr>g_event_sock := False, g_req_sock := False, g_libnl_fd := -1\<rparr>)"

definition wlan_nl80211_deinit :: "wlinkd \<Rightarrow> wlinkd" where
  "wlan_nl80211_deinit s = wlan_libnl_close s"

definition wlan_nl80211_reset_ap_info :: "system \<Rightarrow> wlinkd \<Rightarrow> wlinkd" where
  "wlan_nl80211_reset_ap_info env s =
     (let a = ap_info_zero
      in refill_ip env
           (s\<lparr>g_nl80211_is_ap_mode := False,
              g_ap_info := a\<lparr>iface := strncpy (iface a) (cstr (g_wlan_ifname s)) 31,
                             mode := strncpy (mode a) WLAN_MODE 15,
                             ip := strncpy (ip a) WLAN_NOT_AVAILABLE 31,
                             channel := strncpy (channel a) WLAN_NOT_AVAILABLE 31\<rparr>\<rparr>))"

text \<open>One refresh: whether the two \<open>nlmsg_alloc\<close> succeed and the answers to the two dumps.\<close>

record refresh_input =
  msg1_alloc :: bool
  interface_reply :: "nl_msg nl_reply"
  msg2_alloc :: bool
  station_reply :: "nl_msg nl_reply"

definition wlan_nl80211_refresh :: "system \<Rightarrow> refresh_input \<Rightarrow> wlinkd \<Rightarrow> wlinkd nl_run option" where
  "wlan_nl80211_refresh env inp s =
     (if \<not> g_req_sock s \<or> g_nl80211_id s < 0 then Some (Returned 0 s)
      else let s1 = (wlan_nl80211_reset_ap_info env s)\<lparr>g_nl80211_is_ap_mode := False\<rparr> in
        if \<not> msg1_alloc inp then Some (Returned 0 s1)
        else (case wlan_libnl_send_and_recv (g_req_sock s1) True
                     (wlan_nl80211_netdev_info_handler_cb env) (interface_reply inp) s1 of
                None \<Rightarrow> None
              | Some (Waiting t) \<Rightarrow> Some (Waiting t)
              | Some (Returned err t) \<Rightarrow>
                  if err < 0 then Some (Returned 0 t)
                  else if \<not> g_nl80211_is_ap_mode t
                  then map_option (Returned 0) (wlan_nl80211_remove_sta env None (-1) t)
                  else if \<not> msg2_alloc inp then Some (Returned 0 t)
                  else (case wlan_libnl_send_and_recv (g_req_sock t) True
                               (wlan_nl80211_get_link_signal_cb env) (station_reply inp)
                               (t, (replicate WLAN_NL80211_MAX_STAS (replicate MAC_ADDR_LEN NUL), 0)) of
                          None \<Rightarrow> None
                        | Some (Waiting (u, _)) \<Rightarrow> Some (Waiting u)
                        | Some (Returned err2 (u, (bssids, cnt))) \<Rightarrow>
                            if err2 < 0 then Some (Returned 0 u)
                            else map_option (Returned 0)
                                   (wlan_nl80211_remove_sta env (Some bssids) (int cnt) u))))"

text \<open>
  Messages of the multicast socket: \<open>nl_recvmsgs_default\<close> calls the handler for each.
\<close>

definition wlan_libnl_dispatch :: "system \<Rightarrow> nl_msg list \<Rightarrow> wlinkd \<Rightarrow> wlinkd option" where
  "wlan_libnl_dispatch env ms s =
     (if \<not> g_event_sock s then Some s
      else fold_opt (wlan_nl80211_netdev_info_handler_cb env) ms s)"

definition wlan_nl80211_handler :: "system \<Rightarrow> nl_msg list \<Rightarrow> wlinkd \<Rightarrow> wlinkd option" where
  "wlan_nl80211_handler env ms s = wlan_libnl_dispatch env ms s"

record init_input =
  if_nametoindex :: u32
  req_alloc :: bool
  req_connect :: int
  family_id :: int
  event_alloc :: bool
  event_connect :: int
  event_fd :: int
  first_refresh :: refresh_input

definition wlan_nl80211_init ::
  "system \<Rightarrow> init_input \<Rightarrow> string \<Rightarrow> wlinkd \<Rightarrow> (int \<times> wlinkd) nl_run option" where
  "wlan_nl80211_init env inp ifname s0 =
     (let s = s0\<lparr>g_wlan_ifname := strncpy (g_wlan_ifname s0) ifname (IFNAMSIZ - 1),
                 g_wlan_idx := if_nametoindex inp\<rparr> in
      if g_wlan_idx s = 0 then Some (Returned 0 (-1, s))
      else let s1 = wlan_nl80211_reset_ap_info env s in
        if \<not> req_alloc inp then Some (Returned 0 (-1, s1\<lparr>g_req_sock := False\<rparr>))
        else let s2 = s1\<lparr>g_req_sock := True, nl_live := Suc (nl_live s1)\<rparr> in
          if req_connect inp < 0 then Some (Returned 0 (-1, wlan_libnl_close s2))
          else let s3 = s2\<lparr>g_nl80211_id := family_id inp\<rparr> in
            if g_nl80211_id s3 < 0 then Some (Returned 0 (-1, wlan_libnl_close s3))
            else if \<not> event_alloc inp
            then Some (Returned 0 (-1, wlan_libnl_close (s3\<lparr>g_event_sock := False\<rparr>)))
            else let s4 = s3\<lparr>g_event_sock := True, nl_live := Suc (nl_live s3)\<rparr> in
              if event_connect inp < 0 then Some (Returned 0 (-1, wlan_libnl_close s4))
              else let s5 = s4\<lparr>g_libnl_fd := event_fd inp\<rparr> in
                (case wlan_nl80211_refresh env (first_refresh inp) s5 of
                   None \<Rightarrow> None
                 | Some (Waiting t) \<Rightarrow> Some (Waiting (g_libnl_fd t, t))
                 | Some (Returned _ t) \<Rightarrow> Some (Returned 0 (g_libnl_fd t, t))))"

section \<open>Every operation keeps the invariant\<close>

lemma mac_buffer_text [simp]:
  "cstr (mac_buffer (Some m)) = bssid_text m" "cstr (mac_buffer None) = []"
  by (simp_all add: mac_buffer_def wlan_utils_format_bssid_def MAC_ADDR_LEN_def cbuf)

lemma station_add_cases:
  assumes "parts_ok s" "good_bssid b"
  obtains (added) st where "station_add env b s = Some (1, s\<lparr>stas := st\<rparr>)" "sta_inv st"
      "sta_views st = (b, 0, 0, time_now env (malloc_calls (stas s))) # sta_views (stas s)"
      "b \<notin> names s" "malloc_ok env (malloc_calls (stas s))"
    | (kept) r st where "station_add env b s = Some (r, s\<lparr>stas := st\<rparr>)" "r \<le> 0" "sta_inv st"
      "sta_views st = sta_views (stas s)" "b \<in> names s \<or> \<not> malloc_ok env (malloc_calls (stas s))"
proof -
  have inv: "sta_inv (stas s)" using assms(1) by (simp add: parts_ok_def)
  let ?now = "time_now env (malloc_calls (stas s))"
  obtain r st where st: "wlan_sta_mgr_add (malloc_ok env) ?now (Some b) (stas s) = Some (r, st)"
    "sta_inv st" "sta_views st = (if r = 1 then (b, 0, 0, ?now) # sta_views (stas s) else sta_views (stas s))"
    "r = 1 \<longleftrightarrow> b \<notin> fst ` set (sta_views (stas s)) \<and> malloc_ok env (malloc_calls (stas s))"
    "0 < r \<longleftrightarrow> r = 1"
    by (rule stab.add_total [where mok = "malloc_ok env" and now = ?now, OF inv assms(2)])
  then have "station_add env b s = Some (r, s\<lparr>stas := st\<rparr>)" by (simp add: station_add_def)
  with st that show thesis by (cases "r = 1") (auto simp: names_def)
qed

lemma new_station_inv:
  assumes "wlinkd_inv s" "b = [] \<or> good_bssid b"
  shows "\<exists>t. new_station env b s = Some t \<and> wlinkd_inv t \<and>
     (b \<noteq> [] \<and> malloc_ok env (malloc_calls (stas s)) \<longrightarrow> names t = insert b (names s))"
proof (cases "b = []")
  case True
  with assms show ?thesis by (simp add: new_station_def)
next
  case False
  with assms have p: "parts_ok s" "good_bssid b" by (auto simp: wlinkd_inv_def)
  from p show ?thesis
  proof (cases rule: station_add_cases [where env = env])
    case (added st)
    with p False wlinkd_inv_msgs [OF assms(1)] show ?thesis
      by (auto simp: new_station_def wlinkd_inv_def led_ok_def frame parts_stas led_next_def names_def)
  next
    case (kept r st)
    with p False assms(1) show ?thesis
      by (auto simp: new_station_def wlinkd_inv_def led_ok_def parts_stas names_def)
  qed
qed

lemma del_station_inv:
  assumes "wlinkd_inv s"
  shows "\<exists>t. del_station env b s = Some t \<and> wlinkd_inv t \<and> names t = names s - {b}"
proof (cases "b = []")
  case True
  with assms have "b \<notin> names s"
    using views_names_nonempty [of "stas s"] by (auto simp: names_def wlinkd_inv_def parts_ok_def)
  with True assms show ?thesis by (simp add: del_station_def)
next
  case False
  have inv: "sta_inv (stas s)" using assms by (simp add: wlinkd_inv_def parts_ok_def)
  obtain r st where st: "wlan_sta_mgr_remove b (stas s) = Some (r, st)" "sta_inv st"
    "sta_views st = filter (\<lambda>v. fst v \<noteq> b) (sta_views (stas s))"
    "r = (if b \<in> fst ` set (sta_views (stas s)) then 1 else 0)"
    by (rule stab.remove_total [OF inv])
  have nm: "fst ` set (sta_views st) = names s - {b}" using st(3) by (auto simp: names_def)
  have count: "wlan_sta_mgr_count st = Some (int (length (sta_views st)))"
    by (rule wlan_sta_mgr_count_eq [OF st(2)])
  have "sta_views st = [] \<longleftrightarrow> names s - {b} = {}" by (simp flip: nm)
  with assms False st(1,2) count nm show ?thesis
    by (cases "sta_views st = []")
      (auto simp: del_station_def Let_def wlinkd_inv_def led_ok_def frame parts_stas led_next_def
        wlan_sta_mgr_led_off_def)
qed

lemma refill_ip_frame [frame]:
  "stas (refill_ip env s) = stas s" "pushes (refill_ip env s) = pushes s"
  "names (refill_ip env s) = names s" "g_wlan_idx (refill_ip env s) = g_wlan_idx s"
  "g_nl80211_is_ap_mode (refill_ip env s) = g_nl80211_is_ap_mode s"
  "g_req_sock (refill_ip env s) = g_req_sock s" "g_event_sock (refill_ip env s) = g_event_sock s"
  by (simp_all add: refill_ip_def names_def)

lemma refill_ip_parts: "parts_ok s \<Longrightarrow> parts_ok (refill_ip env s)"
  by (auto simp: parts_ok_def refill_ip_def wlan_utils_fill_ip_address_def split: option.split)

lemma parts_ap_info: "parts_ok s \<Longrightarrow> ap_info_wf a \<Longrightarrow> parts_ok (s\<lparr>g_ap_info := a\<rparr>)"
  by (simp add: parts_ok_def)

lemma parts_ap_mode [simp]: "parts_ok (s\<lparr>g_nl80211_is_ap_mode := m\<rparr>) = parts_ok s"
  by (simp add: parts_ok_def)

lemma wf_iface: "ap_info_wf a \<Longrightarrow> terminated 32 x \<Longrightarrow> ap_info_wf (a\<lparr>iface := x\<rparr>)"
  by (simp add: ap_info_wf_def)

lemma wf_mode: "ap_info_wf a \<Longrightarrow> terminated 16 x \<Longrightarrow> ap_info_wf (a\<lparr>mode := x\<rparr>)"
  by (simp add: ap_info_wf_def)

lemma wf_ip: "ap_info_wf a \<Longrightarrow> terminated 32 x \<Longrightarrow> ap_info_wf (a\<lparr>ip := x\<rparr>)"
  by (simp add: ap_info_wf_def)

lemma wf_channel: "ap_info_wf a \<Longrightarrow> terminated 32 x \<Longrightarrow> ap_info_wf (a\<lparr>channel := x\<rparr>)"
  by (simp add: ap_info_wf_def)

lemma wf_fields:
  "ap_info_wf a \<Longrightarrow> terminated 32 (strncpy (iface a) x 31)"
  "ap_info_wf a \<Longrightarrow> terminated 16 (strncpy (mode a) x 15)"
  "ap_info_wf a \<Longrightarrow> terminated 32 (strncpy (ip a) x 31)"
  "ap_info_wf a \<Longrightarrow> terminated 32 (strncpy (channel a) x 31)"
  "ap_info_wf a \<Longrightarrow> terminated 32 (the (wlan_utils_format_channel f (Some (channel a)) 32))"
  using terminated_strncpy [of 32] terminated_strncpy [of 16] terminated_snprintf [of 32 _ 32]
  by (simp_all add: ap_info_wf_def wlan_utils_format_channel_def)

lemma wf_numbers [simp]:
  "ap_info_wf (a\<lparr>bandwidth_mhz := n\<rparr>) = ap_info_wf a" "ap_info_wf (a\<lparr>phy_rate_mbps := n\<rparr>) = ap_info_wf a"
  "ap_info_wf (a\<lparr>rssi_dbm := n\<rparr>) = ap_info_wf a"
  by (simp_all add: ap_info_wf_def)

lemmas wf_updates = wf_iface wf_mode wf_ip wf_channel wf_fields

lemma set_mode_parts: "parts_ok s \<Longrightarrow> parts_ok (set_mode t s)"
  using parts_ap_info [of s] by (auto simp: set_mode_def Let_def parts_ok_def wf_updates)

lemma set_mode_frame [frame]:
  "stas (set_mode t s) = stas s" "pushes (set_mode t s) = pushes s" "names (set_mode t s) = names s"
  "g_wlan_idx (set_mode t s) = g_wlan_idx s" "g_req_sock (set_mode t s) = g_req_sock s"
  by (simp_all add: set_mode_def Let_def names_def)

lemma interface_info_frame [frame]:
  "stas (interface_info env m s) = stas s" "pushes (interface_info env m s) = pushes s"
  "names (interface_info env m s) = names s" "g_wlan_idx (interface_info env m s) = g_wlan_idx s"
  "g_req_sock (interface_info env m s) = g_req_sock s"
  by (simp_all add: interface_info_def Let_def names_def frame split: option.split)

lemma interface_info_parts:
  assumes "parts_ok s"
  shows "parts_ok (interface_info env m s)"
proof -
  have "ap_info_wf (g_ap_info s)" using assms by (simp add: parts_ok_def)
  then show ?thesis unfolding interface_info_def Let_def
    by (intro refill_ip_parts)
      (auto intro!: set_mode_parts parts_ap_info assms wf_updates split: option.split)
qed

lemma netdev_cb_inv:
  assumes "wlinkd_inv s"
  shows "\<exists>t. wlan_nl80211_netdev_info_handler_cb env m s = Some t \<and> wlinkd_inv t"
proof -
  have b: "cstr (mac_buffer (attr_mac m)) = [] \<or> good_bssid (cstr (mac_buffer (attr_mac m)))"
    by (cases "attr_mac m") auto
  have "wlinkd_inv (interface_info env m s)"
    using assms by (simp add: wlinkd_inv_def led_ok_def frame interface_info_parts)
  with new_station_inv [OF assms b, of env] assms
    del_station_inv [OF assms, of env "cstr (mac_buffer (attr_mac m))"] show ?thesis
    by (auto simp: wlan_nl80211_netdev_info_handler_cb_def Let_def split: option.split)
qed

lemma wlinkd_inv_stas:
  assumes "wlinkd_inv s" "sta_inv st" "fst ` set (sta_views st) = names s"
  shows "wlinkd_inv (s\<lparr>stas := st\<rparr>)"
  using assms by (simp add: wlinkd_inv_def led_ok_def parts_stas)

lemma names_with_stats: "fst ` set (map (with_stats b r p) vs) = fst ` set vs"
  by (induction vs) (auto simp: with_stats_def)

lemma update_sta_inv:
  assumes inv: "wlinkd_inv s" and b: "good_bssid b"
  shows "\<exists>t. wlan_nl80211_update_sta env b r p s = Some t \<and> wlinkd_inv t \<and>
     names s \<subseteq> names t \<and> names t \<subseteq> insert b (names s) \<and>
     (malloc_ok env (malloc_calls (stas s)) \<longrightarrow> b \<in> names t)"
proof -
  have p: "parts_ok s" using inv by (simp add: wlinkd_inv_def)
  have ne: "b \<noteq> []" using b by (simp add: good_bssid_def)
  from p b show ?thesis
  proof (cases rule: station_add_cases [where env = env])
    case (added st)
    then have "b \<in> fst ` set (sta_views st)" by simp
    from find_known [OF added(2) this, of r p] obtain a where a:
      "wlan_sta_mgr_find b st = Some (Some a)" "sta_inv (write_stats st a r p)"
      "sta_views (write_stats st a r p) = map (with_stats b r p) (sta_views st)" by blast
    have "fst ` set (sta_views (write_stats st a r p)) = insert b (names s)"
      unfolding a(3) names_with_stats using added(3) by (simp add: names_def)
    with a added p ne wlinkd_inv_msgs [OF inv] show ?thesis
      by (auto simp: wlan_nl80211_update_sta_def wlinkd_inv_def led_ok_def frame parts_stas led_next_def)
  next
    case (kept k st)
    have nst: "fst ` set (sta_views st) = names s" using kept(4) by (simp add: names_def)
    show ?thesis
    proof (cases "b \<in> names s")
      case True
      from find_known [OF kept(3), of b r p] True nst obtain a where a:
        "wlan_sta_mgr_find b st = Some (Some a)" "sta_inv (write_stats st a r p)"
        "sta_views (write_stats st a r p) = map (with_stats b r p) (sta_views st)" by auto
      let ?u = "s\<lparr>stas := write_stats st a r p\<rparr>"
      have nm: "fst ` set (sta_views (write_stats st a r p)) = names s"
        unfolding a(3) names_with_stats by (rule nst)
      have u: "wlinkd_inv ?u" by (rule wlinkd_inv_stas [OF inv a(2) nm])
      then have "wlinkd_inv (wlan_sta_mgr_traffic env b ?u)" "names (wlan_sta_mgr_traffic env b ?u) = names s"
        using nm True by (auto simp: wlinkd_inv_def led_ok_def wlan_sta_mgr_traffic_def frame led_next_def)
      with u a(1) kept(1,2) ne nm True show ?thesis
        by (auto simp: wlan_nl80211_update_sta_def Let_def)
    next
      case False
      with kept find_unknown [OF kept(3), of b] nst ne wlinkd_inv_stas [OF inv kept(3)] show ?thesis
        by (auto simp: wlan_nl80211_update_sta_def)
    qed
  qed
qed

fun macs_of :: "nl_msg list \<Rightarrow> mac list" where
  "macs_of [] = []"
| "macs_of (m # ms) = (case attr_mac m of None \<Rightarrow> macs_of ms | Some a \<Rightarrow> a # macs_of ms)"

definition ctx_ok :: "mac list \<Rightarrow> sta_ctx \<Rightarrow> bool" where
  "ctx_ok macs ctx \<longleftrightarrow> length (fst ctx) = WLAN_NL80211_MAX_STAS \<and>
     (\<forall>b \<in> set (fst ctx). terminated MAC_ADDR_LEN b) \<and>
     snd ctx = min WLAN_NL80211_MAX_STAS (length macs) \<and>
     map cstr (take (snd ctx) (fst ctx)) = map bssid_text (take WLAN_NL80211_MAX_STAS macs)"

lemma ctx_ok_start: "ctx_ok [] (replicate WLAN_NL80211_MAX_STAS (replicate MAC_ADDR_LEN NUL), 0)"
  by (simp add: ctx_ok_def WLAN_NL80211_MAX_STAS_def MAC_ADDR_LEN_def)

lemma collect_bssid_ok:
  assumes "ctx_ok macs ctx"
  shows "ctx_ok (macs @ [m]) (collect_bssid (bssid_text m) ctx)"
proof -
  obtain bs c where ctx: "ctx = (bs, c)" by fastforce
  show ?thesis
  proof (cases "c < WLAN_NL80211_MAX_STAS")
    case True
    let ?x = "(strncpy (bs ! c) (bssid_text m) 17)[17 := NUL]"
    from assms ctx True have c: "c = length macs" "length bs = WLAN_NL80211_MAX_STAS" "c < length bs"
      by (auto simp: ctx_ok_def)
    with assms ctx have trm: "terminated 18 (bs ! c)" by (auto simp: ctx_ok_def MAC_ADDR_LEN_def)
    then have cp: "terminated 18 (strncpy (bs ! c) (bssid_text m) 17)"
      using terminated_strncpy [of 18] by simp
    then have x: "?x = strncpy (bs ! c) (bssid_text m) 17"
      by (simp add: terminated_def list_update_same_conv)
    have "cstr ?x = bssid_text m"
      unfolding x using cstr_strncpy_terminated [OF trm, of "bssid_text m"] by simp
    moreover have "\<forall>b \<in> set (bs[c := ?x]). terminated MAC_ADDR_LEN b"
      using cp x set_update_subset_insert [of bs c ?x] assms ctx
      by (auto simp: ctx_ok_def MAC_ADDR_LEN_def)
    moreover have "map cstr (take (Suc c) (bs[c := ?x])) = map cstr (take c bs) @ [cstr ?x]"
      using c(3) by (simp add: take_Suc_conv_app_nth)
    moreover have "map cstr (take c bs) = map bssid_text macs"
      using assms ctx c by (simp add: ctx_ok_def)
    moreover have "collect_bssid (bssid_text m) ctx = (bs[c := ?x], Suc c)"
      using True ctx by (simp add: collect_bssid_def MAC_ADDR_LEN_def)
    ultimately show ?thesis using c True by (simp add: ctx_ok_def)
  next
    case False
    with assms ctx show ?thesis by (auto simp: ctx_ok_def collect_bssid_def)
  qed
qed

lemma link_signal_cb_inv:
  assumes "wlinkd_inv s" "ctx_ok macs ctx"
  shows "\<exists>t ctx'. wlan_nl80211_get_link_signal_cb env m (s, ctx) = Some (t, ctx') \<and> wlinkd_inv t \<and>
     ctx_ok (macs @ macs_of [m]) ctx' \<and> names s \<subseteq> names t \<and>
     names t \<subseteq> names s \<union> bssid_text ` set (macs_of [m]) \<and>
     ((\<forall>k. malloc_ok env k) \<longrightarrow> bssid_text ` set (macs_of [m]) \<subseteq> names t)"
proof (cases "attr_mac m")
  case None
  with assms show ?thesis by (simp add: wlan_nl80211_get_link_signal_cb_def)
next
  case (Some mac)
  let ?a = "(g_ap_info s)\<lparr>phy_rate_mbps := link_rate (attr_sta_info m) (phy_rate_mbps (g_ap_info s)),
                          rssi_dbm := link_rssi (attr_sta_info m)\<rparr>"
  let ?s1 = "s\<lparr>g_ap_info := ?a\<rparr>"
  have "ap_info_wf ?a" using assms(1) by (simp add: wlinkd_inv_def parts_ok_def)
  then have s1: "wlinkd_inv ?s1" and nm: "names ?s1 = names s"
    using assms(1) by (auto simp: wlinkd_inv_def led_ok_def names_def parts_ap_info)
  from update_sta_inv [OF s1, of "bssid_text mac" env "link_rssi (attr_sta_info m)"
      "link_packets (attr_sta_info m)"] obtain t where
    "wlan_nl80211_update_sta env (bssid_text mac) (link_rssi (attr_sta_info m))
       (link_packets (attr_sta_info m)) ?s1 = Some t" "wlinkd_inv t" "names s \<subseteq> names t"
    "names t \<subseteq> insert (bssid_text mac) (names s)"
    "malloc_ok env (malloc_calls (stas s)) \<longrightarrow> bssid_text mac \<in> names t"
    using nm by auto
  with Some collect_bssid_ok [OF assms(2), of mac] show ?thesis
    by (auto simp: wlan_nl80211_get_link_signal_cb_def Let_def)
qed

lemma fold_leave:
  "fold (\<lambda>b (t, k). (wlan_sta_mgr_leave b t, Suc k)) bs (s, n) =
     (s\<lparr>tcps := push_all (map (\<lambda>b. (''sta_leave'', Some b)) bs) (tcps s)\<rparr>, n + length bs)"
  by (induction bs arbitrary: s n) (simp_all add: push_all_def wlan_sta_mgr_leave_def)

lemma remove_sta_keep:
  assumes inv: "wlinkd_inv s"
    and keep: "(if bssids = None \<or> n < 0 then (\<lambda>_. Some False) else in_bssids bssids n) = (\<lambda>b. Some (K b))"
  shows "\<exists>t. wlan_nl80211_remove_sta env bssids n s = Some t \<and> wlinkd_inv t \<and>
     names t = {b \<in> names s. K b} \<and>
     tcps t = push_all (map (\<lambda>b. (''sta_leave'', Some b))
                (filter (\<lambda>b. \<not> K b) (map fst (sta_views (stas s))))) (tcps s)"
proof -
  define gone where "gone = filter (\<lambda>b. \<not> K b) (map fst (sta_views (stas s)))"
  define t where "t = s\<lparr>tcps := push_all (map (\<lambda>b. (''sta_leave'', Some b)) gone) (tcps s)\<rparr>"
  have sinv: "sta_inv (stas s)" using inv by (simp add: wlinkd_inv_def parts_ok_def)
  from purge_inv [OF sinv, of "\<lambda>b. Some (K b)" K "\<lambda>b (t, k). (wlan_sta_mgr_leave b t, Suc k)" "(s, 0)"]
  obtain st where st: "purge_loop (\<lambda>b. Some (K b)) (\<lambda>b (t, k). (wlan_sta_mgr_leave b t, Suc k))
      (sta_mgr_head (stas s)) (stas s) (s, 0) = Some (st, (t, length gone))"
    "sta_inv st" "sta_views st = filter (\<lambda>v. K (fst v)) (sta_views (stas s))"
    unfolding fold_leave gone_def [symmetric] t_def [symmetric] by auto
  have nm: "fst ` set (sta_views st) = {b \<in> names s. K b}" unfolding st(3) by (auto simp: names_def)
  have cnt: "wlan_sta_mgr_count st = Some (int (length (sta_views st)))"
    by (rule wlan_sta_mgr_count_eq [OF st(2)])
  have run: "wlan_nl80211_remove_sta env bssids n s =
      Some (if gone \<noteq> [] \<and> sta_views st = [] then wlan_sta_mgr_led_off env (t\<lparr>stas := st\<rparr>)
            else t\<lparr>stas := st\<rparr>)"
    unfolding wlan_nl80211_remove_sta_def keep by (simp add: st(1) cnt Let_def)
  have parts: "parts_ok (t\<lparr>stas := st\<rparr>)"
    using inv by (intro parts_stas st(2)) (simp add: wlinkd_inv_def t_def)
  have tc: "tcps t = push_all (map (\<lambda>b. (''sta_leave'', Some b)) gone) (tcps s)" "pushes t = pushes s"
    by (simp_all add: t_def)
  have empty: "sta_views st = [] \<longleftrightarrow> {b \<in> names s. K b} = {}" by (simp flip: nm)
  have gone: "gone = [] \<longleftrightarrow> {b \<in> names s. K b} = names s"
    by (auto simp: names_def gone_def filter_empty_conv)
  show ?thesis unfolding gone_def [symmetric]
  proof (cases "gone \<noteq> [] \<and> sta_views st = []")
    case True
    with run parts nm empty tc wlinkd_inv_msgs [OF inv] show
      "\<exists>u. wlan_nl80211_remove_sta env bssids n s = Some u \<and> wlinkd_inv u \<and> names u = {b \<in> names s. K b} \<and>
         tcps u = push_all (map (\<lambda>b. (''sta_leave'', Some b)) gone) (tcps s)"
      by (auto simp: wlan_sta_mgr_led_off_def wlinkd_inv_def led_ok_def frame led_next_def)
  next
    case False
    then have "names s \<noteq> {} \<longleftrightarrow> {b \<in> names s. K b} \<noteq> {}" using empty gone by auto
    moreover have "wlan_nl80211_remove_sta env bssids n s = Some (t\<lparr>stas := st\<rparr>)" using run False by auto
    ultimately show
      "\<exists>u. wlan_nl80211_remove_sta env bssids n s = Some u \<and> wlinkd_inv u \<and> names u = {b \<in> names s. K b} \<and>
         tcps u = push_all (map (\<lambda>b. (''sta_leave'', Some b)) gone) (tcps s)"
      using parts nm inv tc by (simp add: wlinkd_inv_def led_ok_def)
  qed
qed

lemma remove_sta_all:
  assumes "wlinkd_inv s"
  shows "\<exists>t. wlan_nl80211_remove_sta env None n s = Some t \<and> wlinkd_inv t \<and> names t = {}"
  using remove_sta_keep [OF assms, of None n "\<lambda>_. False" env] by auto

lemma remove_sta_missing:
  assumes "wlinkd_inv s" "0 \<le> n" "n \<le> int (length bs)"
  shows "\<exists>t. wlan_nl80211_remove_sta env (Some bs) n s = Some t \<and> wlinkd_inv t \<and>
     names t = names s \<inter> cstr ` set (take (nat n) bs)"
proof -
  have "in_bssids (Some bs) n = (\<lambda>b. Some (b \<in> cstr ` set (take (nat n) bs)))"
    by (simp add: fun_eq_iff in_bssids_def wlan_utils_find_sta_eq [OF assms(3)])
  with remove_sta_keep [OF assms(1), of "Some bs" n "\<lambda>b. b \<in> cstr ` set (take (nat n) bs)" env] assms(2)
  show ?thesis by (auto simp: Int_def)
qed

section \<open>Refresh\<close>

lemma reset_ap_info_frame [frame]:
  "stas (wlan_nl80211_reset_ap_info env s) = stas s" "names (wlan_nl80211_reset_ap_info env s) = names s"
  "pushes (wlan_nl80211_reset_ap_info env s) = pushes s"
  "g_wlan_idx (wlan_nl80211_reset_ap_info env s) = g_wlan_idx s"
  "g_req_sock (wlan_nl80211_reset_ap_info env s) = g_req_sock s"
  "g_nl80211_is_ap_mode (wlan_nl80211_reset_ap_info env s) = False"
  by (simp_all add: wlan_nl80211_reset_ap_info_def Let_def names_def frame)

lemma reset_ap_info_parts: "parts_ok s \<Longrightarrow> parts_ok (wlan_nl80211_reset_ap_info env s)"
  unfolding wlan_nl80211_reset_ap_info_def Let_def
  by (intro refill_ip_parts) (auto simp: parts_ok_def intro!: wf_updates)

lemma reset_ap_info_inv: "wlinkd_inv s \<Longrightarrow> wlinkd_inv (wlan_nl80211_reset_ap_info env s)"
  by (simp add: wlinkd_inv_def led_ok_def frame reset_ap_info_parts)

lemma wlinkd_inv_ap_mode [simp]: "wlinkd_inv (s\<lparr>g_nl80211_is_ap_mode := m\<rparr>) = wlinkd_inv s"
  by (simp add: wlinkd_inv_def led_ok_def names_def)

lemma refresh_inv:
  assumes "wlinkd_inv s"
  shows "\<exists>r. wlan_nl80211_refresh env inp s = Some r \<and> wlinkd_inv (run_state r)"
proof -
  define s1 where "s1 = (wlan_nl80211_reset_ap_info env s)\<lparr>g_nl80211_is_ap_mode := False\<rparr>"
  define start where "start = (replicate WLAN_NL80211_MAX_STAS (replicate MAC_ADDR_LEN NUL), 0::nat)"
  define P where "P = (\<lambda>(s, ctx). wlinkd_inv s \<and> (\<exists>macs. ctx_ok macs ctx))"
  have s1: "wlinkd_inv s1" by (simp add: s1_def reset_ap_info_inv assms)
  from send_and_recv_inv [where P = wlinkd_inv and cb = "wlan_nl80211_netdev_info_handler_cb env",
      OF netdev_cb_inv s1, of "g_req_sock s1" True "interface_reply inp"]
  obtain r where r: "wlan_libnl_send_and_recv (g_req_sock s1) True
      (wlan_nl80211_netdev_info_handler_cb env) (interface_reply inp) s1 = Some r" "wlinkd_inv (run_state r)"
    by blast
  have cb: "\<exists>t. wlan_nl80211_get_link_signal_cb env m u = Some t \<and> P t" if "P u" for m u
  proof -
    obtain v ctx where u: "u = (v, ctx)" by (cases u)
    with that obtain macs where "wlinkd_inv v" "ctx_ok macs ctx" by (auto simp: P_def)
    with u link_signal_cb_inv [of v macs ctx env m] show ?thesis by (auto simp: P_def)
  qed
  have dump: "\<exists>q. wlan_libnl_send_and_recv (g_req_sock t) True (wlan_nl80211_get_link_signal_cb env)
      (station_reply inp) (t, start) = Some q \<and> P (run_state q)" if "wlinkd_inv t" for t
    by (rule send_and_recv_inv [where P = P, OF cb])
      (use that ctx_ok_start in \<open>auto simp: P_def start_def\<close>)
  have rest: "\<exists>q. wlan_nl80211_remove_sta env (Some bs) (int c) u = Some q \<and> wlinkd_inv q"
    if "P (u, (bs, c))" for u bs c
  proof -
    from that obtain macs where "wlinkd_inv u" "ctx_ok macs (bs, c)" by (auto simp: P_def)
    then show ?thesis using remove_sta_missing [of u "int c" bs env] by (auto simp: ctx_ok_def)
  qed
  show ?thesis
  proof (cases r)
    case (Waiting t)
    with r s1 assms show ?thesis by (simp add: wlan_nl80211_refresh_def s1_def Let_def)
  next
    case (Returned err t)
    then have t: "wlinkd_inv t" using r(2) by simp
    obtain q where q: "wlan_libnl_send_and_recv (g_req_sock t) True (wlan_nl80211_get_link_signal_cb env)
      (station_reply inp) (t, start) = Some q" "P (run_state q)" using dump [OF t] by blast
    obtain v where v: "wlan_nl80211_remove_sta env None (-1) t = Some v" "wlinkd_inv v"
      using remove_sta_all [OF t] by blast
    have q2: "\<exists>w. (case q of Returned err2 (u, bs, c) \<Rightarrow>
          if err2 < 0 then Some (Returned 0 u)
          else map_option (Returned 0) (wlan_nl80211_remove_sta env (Some bs) (int c) u)
        | Waiting (u, _) \<Rightarrow> Some (Waiting u)) = Some w \<and> wlinkd_inv (run_state w)"
    proof (cases q)
      case (Returned e x)
      obtain u bs c where x: "x = (u, bs, c)" by (metis prod_cases3)
      with Returned q(2) rest [of u bs c] show ?thesis by (auto simp: P_def)
    next
      case (Waiting x)
      with q(2) show ?thesis by (auto simp: P_def split: prod.splits)
    qed
    show ?thesis
      using assms s1 r t q(1) v q2 Returned
      by (simp add: wlan_nl80211_refresh_def s1_def [symmetric] start_def [symmetric] Let_def)
  qed
qed

lemma dump_collects:
  assumes "wlinkd_inv s" "ctx_ok macs ctx" "\<forall>k. malloc_ok env k"
  shows "\<exists>t ctx'. fold_opt (wlan_nl80211_get_link_signal_cb env) ms (s, ctx) = Some (t, ctx') \<and>
     wlinkd_inv t \<and> ctx_ok (macs @ macs_of ms) ctx' \<and>
     names t = names s \<union> bssid_text ` set (macs_of ms)"
  using assms(1,2)
proof (induction ms arbitrary: s macs ctx)
  case (Cons m ms)
  from link_signal_cb_inv [OF Cons.prems, of env m] obtain u ctx1 where
    u: "wlan_nl80211_get_link_signal_cb env m (s, ctx) = Some (u, ctx1)" "wlinkd_inv u"
      "ctx_ok (macs @ macs_of [m]) ctx1" "names s \<subseteq> names u"
      "names u \<subseteq> names s \<union> bssid_text ` set (macs_of [m])"
      "(\<forall>k. malloc_ok env k) \<longrightarrow> bssid_text ` set (macs_of [m]) \<subseteq> names u"
    by (elim exE conjE)
  have nm: "names u = names s \<union> bssid_text ` set (macs_of [m])"
    using u(4,5) mp [OF u(6) assms(3)] by (intro equalityI Un_least)
  have cons: "macs_of (m # ms) = macs_of [m] @ macs_of ms" by (simp split: option.split)
  from Cons.IH [OF u(2,3)] obtain t ctx' where
    t: "fold_opt (wlan_nl80211_get_link_signal_cb env) ms (u, ctx1) = Some (t, ctx')" "wlinkd_inv t"
      "ctx_ok ((macs @ macs_of [m]) @ macs_of ms) ctx'" "names t = names u \<union> bssid_text ` set (macs_of ms)"
    by (elim exE conjE)
  show ?case
  proof (intro exI conjI)
    show "fold_opt (wlan_nl80211_get_link_signal_cb env) (m # ms) (s, ctx) = Some (t, ctx')"
      using u(1) t(1) by simp
    show "ctx_ok (macs @ macs_of (m # ms)) ctx'" using t(3) unfolding cons by simp
    show "names t = names s \<union> bssid_text ` set (macs_of (m # ms))"
      unfolding t(4) nm cons set_append image_Un by (rule Un_assoc)
  qed (rule t(2))
qed simp

lemma netdev_cb_other:
  "attr_ifindex m \<noteq> Some (g_wlan_idx s) \<Longrightarrow> wlan_nl80211_netdev_info_handler_cb env m s = Some s"
  by (auto simp: wlan_nl80211_netdev_info_handler_cb_def split: option.split)

lemma netdev_fold_other:
  "\<forall>m \<in> set ms. attr_ifindex m \<noteq> Some (g_wlan_idx s) \<Longrightarrow>
     fold_opt (wlan_nl80211_netdev_info_handler_cb env) ms s = Some s"
  by (induction ms) (auto simp: netdev_cb_other)

definition interface_msg :: "u32 \<Rightarrow> u32 \<Rightarrow> nl_msg \<Rightarrow> bool" where
  "interface_msg ix iftype m \<longleftrightarrow> attr_ifindex m = Some ix \<and> attr_iftype m = Some iftype \<and>
     cmd m \<noteq> NL80211_CMD_NEW_STATION \<and> cmd m \<noteq> NL80211_CMD_DEL_STATION"

lemma interface_info_mode:
  "attr_iftype m = Some t \<Longrightarrow>
     g_nl80211_is_ap_mode (interface_info env m s) = (t \<in> {NL80211_IFTYPE_AP, NL80211_IFTYPE_P2P_GO})"
  by (auto simp: interface_info_def Let_def frame set_mode_def)

lemma interface_dump_result:
  assumes "\<forall>m \<in> set xs \<union> set ys. attr_ifindex m \<noteq> Some (g_wlan_idx s)" "interface_msg (g_wlan_idx s) t m"
  shows "fold_opt (wlan_nl80211_netdev_info_handler_cb env) (xs @ m # ys) s = Some (interface_info env m s)"
proof -
  have "wlan_nl80211_netdev_info_handler_cb env m s = Some (interface_info env m s)"
    using assms(2) by (simp add: interface_msg_def wlan_nl80211_netdev_info_handler_cb_def Let_def)
  with assms(1) show ?thesis
    by (simp add: fold_opt_append netdev_fold_other frame)
qed

lemma dispatch_inv:
  assumes "wlinkd_inv s"
  shows "\<exists>t. wlan_libnl_dispatch env ms s = Some t \<and> wlinkd_inv t"
proof -
  have "\<exists>t. fold_opt (wlan_nl80211_netdev_info_handler_cb env) ms s = Some t \<and> wlinkd_inv t"
    using assms
  proof (induction ms arbitrary: s)
    case (Cons m ms)
    from netdev_cb_inv [OF Cons.prems, of env m] obtain u where
      u: "wlan_nl80211_netdev_info_handler_cb env m s = Some u" "wlinkd_inv u" by (elim exE conjE)
    from Cons.IH [OF u(2)] u(1) show ?case by simp
  qed simp
  with assms show ?thesis by (simp add: wlan_libnl_dispatch_def)
qed

lemma libnl_close_inv: "wlinkd_inv s \<Longrightarrow> wlinkd_inv (wlan_libnl_close s)"
  by (auto simp: wlan_libnl_close_def Let_def wlinkd_inv_def led_ok_def parts_ok_def names_def)

lemma libnl_close_live: "wlinkd_inv s \<Longrightarrow> nl_live (wlan_libnl_close s) = 0"
  by (auto simp: wlan_libnl_close_def Let_def wlinkd_inv_def parts_ok_def)

definition setup_fails :: "init_input \<Rightarrow> bool" where
  "setup_fails inp \<longleftrightarrow> if_nametoindex inp = 0 \<or> \<not> req_alloc inp \<or> req_connect inp < 0 \<or>
     family_id inp < 0 \<or> \<not> event_alloc inp \<or> event_connect inp < 0"

lemma wlinkd_inv_setup:
  assumes "wlinkd_inv s"
  shows "wlinkd_inv (s\<lparr>g_nl80211_id := i\<rparr>)" "wlinkd_inv (s\<lparr>g_libnl_fd := fd\<rparr>)"
    "\<not> g_req_sock s \<Longrightarrow> wlinkd_inv (s\<lparr>g_req_sock := True, nl_live := Suc (nl_live s)\<rparr>)"
    "\<not> g_event_sock s \<Longrightarrow> wlinkd_inv (s\<lparr>g_event_sock := True, nl_live := Suc (nl_live s)\<rparr>)"
    "wlinkd_inv (s\<lparr>g_wlan_ifname := strncpy (g_wlan_ifname s) nm (IFNAMSIZ - 1), g_wlan_idx := ix\<rparr>)"
    "wlinkd_inv (s\<lparr>g_wlan_core_ifname := strncpy (g_wlan_core_ifname s) nm (IFNAMSIZ - 1)\<rparr>)"
  using assms terminated_strncpy [of IFNAMSIZ "g_wlan_ifname s"]
    terminated_strncpy [of IFNAMSIZ "g_wlan_core_ifname s"]
  by (simp_all add: wlinkd_inv_def led_ok_def names_def parts_ok_def)

lemma nl80211_init_inv:
  assumes inv: "wlinkd_inv s" and none: "\<not> g_req_sock s" "\<not> g_event_sock s"
  shows "setup_fails inp \<Longrightarrow> \<exists>t. wlan_nl80211_init env inp ifname s = Some (Returned 0 (-1, t)) \<and>
      wlinkd_inv t \<and> nl_live t = 0"
    and "\<not> setup_fails inp \<Longrightarrow> \<exists>r. wlan_nl80211_init env inp ifname s = Some r \<and>
      wlinkd_inv (snd (run_state r))"
proof -
  define s0 where "s0 = s\<lparr>g_wlan_ifname := strncpy (g_wlan_ifname s) ifname (IFNAMSIZ - 1),
    g_wlan_idx := if_nametoindex inp\<rparr>"
  define s1 where "s1 = wlan_nl80211_reset_ap_info env s0"
  define s2 where "s2 = s1\<lparr>g_req_sock := True, nl_live := Suc (nl_live s1)\<rparr>"
  define s3 where "s3 = s2\<lparr>g_nl80211_id := family_id inp\<rparr>"
  define s4 where "s4 = s3\<lparr>g_event_sock := True, nl_live := Suc (nl_live s3)\<rparr>"
  define s5 where "s5 = s4\<lparr>g_libnl_fd := event_fd inp\<rparr>"
  note defs = s0_def s1_def s2_def s3_def s4_def s5_def
  have s0: "wlinkd_inv s0" unfolding s0_def by (rule wlinkd_inv_setup(5) [OF inv])
  have live0: "nl_live s0 = 0" using inv none by (simp add: s0_def wlinkd_inv_def parts_ok_def)
  have live1: "nl_live s1 = 0" using live0
    by (simp add: s1_def wlan_nl80211_reset_ap_info_def Let_def refill_ip_def)
  have s1: "wlinkd_inv s1" unfolding s1_def by (rule reset_ap_info_inv [OF s0])
  have none1: "\<not> g_req_sock s1" "\<not> g_event_sock s1"
    using none by (simp_all add: s1_def s0_def wlan_nl80211_reset_ap_info_def Let_def refill_ip_def)
  have s2: "wlinkd_inv s2" unfolding s2_def by (rule wlinkd_inv_setup(3) [OF s1 none1(1)])
  have s3: "wlinkd_inv s3" unfolding s3_def by (rule wlinkd_inv_setup(1) [OF s2])
  have none3: "\<not> g_event_sock s3" using none1 by (simp add: s3_def s2_def)
  have s4: "wlinkd_inv s4" unfolding s4_def by (rule wlinkd_inv_setup(4) [OF s3 none3])
  have s5: "wlinkd_inv s5" unfolding s5_def by (rule wlinkd_inv_setup(2) [OF s4])
  have e1: "s1\<lparr>g_req_sock := False\<rparr> = s1" "s3\<lparr>g_event_sock := False\<rparr> = s3" using none1(1) none3 by simp_all
  note unf = wlan_nl80211_init_def Let_def s0_def [symmetric] s1_def [symmetric] s2_def [symmetric]
    s3_def [symmetric] s4_def [symmetric] s5_def [symmetric]
  have ids: "g_wlan_idx s0 = if_nametoindex inp" "g_nl80211_id s3 = family_id inp" by (simp_all add: s0_def s3_def)
  show "\<exists>t. wlan_nl80211_init env inp ifname s = Some (Returned 0 (-1, t)) \<and> wlinkd_inv t \<and> nl_live t = 0"
    if "setup_fails inp"
    using that unfolding unf ids e1 setup_fails_def
    by (auto simp: s0 s1 s2 s3 s4 live0 live1 libnl_close_inv libnl_close_live)
  from refresh_inv [OF s5, of env "first_refresh inp"] obtain r where
    r: "wlan_nl80211_refresh env (first_refresh inp) s5 = Some r" "wlinkd_inv (run_state r)" by blast
  show "\<exists>r. wlan_nl80211_init env inp ifname s = Some r \<and> wlinkd_inv (snd (run_state r))"
    if "\<not> setup_fails inp"
    using that r unfolding unf ids e1 setup_fails_def by (cases r) auto
qed

section \<open>Properties\<close>

text \<open>
  C3. The station table mirrors the kernel: after a refresh in AP mode whose two dumps arrive
  complete, and while memory can be had, the table holds exactly the stations of the dump (the first 64 of them, the size of
  the array the callback fills), whatever it held before, and the LED messages pushed so far
  leave the LED lit exactly when the dump is not empty.
\<close>

theorem refresh_mirrors_dump:
  assumes inv: "wlinkd_inv s" and sock: "g_req_sock s" "0 \<le> g_nl80211_id s"
    and mem: "\<forall>k. malloc_ok env k" "msg1_alloc inp" "msg2_alloc inp"
    and ifs: "interface_reply inp = complete_reply iss fs" "concat iss @ fs = xs @ im # ys"
      "\<forall>m \<in> set xs \<union> set ys. attr_ifindex m \<noteq> Some (g_wlan_idx s)"
      "interface_msg (g_wlan_idx s) NL80211_IFTYPE_AP im"
    and dump: "station_reply inp = complete_reply mss ms"
  shows "\<exists>t. wlan_nl80211_refresh env inp s = Some (Returned 0 t) \<and> wlinkd_inv t \<and>
     names t = bssid_text ` set (take 64 (macs_of (concat mss @ ms))) \<and>
     (led_on (pushes t) \<longleftrightarrow> macs_of (concat mss @ ms) \<noteq> [])"
proof -
  define s1 where "s1 = (wlan_nl80211_reset_ap_info env s)\<lparr>g_nl80211_is_ap_mode := False\<rparr>"
  define t where "t = interface_info env im s1"
  define start where "start = (replicate WLAN_NL80211_MAX_STAS (replicate MAC_ADDR_LEN NUL), 0::nat)"
  have s1: "wlinkd_inv s1" "g_wlan_idx s1 = g_wlan_idx s" "g_req_sock s1"
    using inv sock by (simp_all add: s1_def reset_ap_info_inv frame)
  have "fold_opt (wlan_nl80211_netdev_info_handler_cb env) (concat iss @ fs) s1 = Some t"
    unfolding ifs(2) t_def by (rule interface_dump_result [where t = NL80211_IFTYPE_AP]) (use ifs s1 in auto)
  then have first: "wlan_libnl_send_and_recv (g_req_sock s1) True (wlan_nl80211_netdev_info_handler_cb env)
      (interface_reply inp) s1 = Some (Returned 0 t)"
    using s1(3) send_and_recv_complete [of "wlan_nl80211_netdev_info_handler_cb env" iss fs s1]
    by (simp add: ifs(1))
  have t: "wlinkd_inv t" "g_req_sock t" "g_nl80211_is_ap_mode t"
    using s1 ifs(4)
    by (auto simp: t_def wlinkd_inv_def led_ok_def frame interface_info_parts interface_msg_def
        interface_info_mode)
  from dump_collects [OF t(1) ctx_ok_start mem(1), of "concat mss @ ms"] obtain u bs c where
    u: "fold_opt (wlan_nl80211_get_link_signal_cb env) (concat mss @ ms) (t, start) = Some (u, bs, c)"
      "wlinkd_inv u" "ctx_ok (macs_of (concat mss @ ms)) (bs, c)"
      "names u = names t \<union> bssid_text ` set (macs_of (concat mss @ ms))"
    unfolding start_def by auto
  have second: "wlan_libnl_send_and_recv (g_req_sock t) True (wlan_nl80211_get_link_signal_cb env)
      (station_reply inp) (t, start) = Some (Returned 0 (u, bs, c))"
    using t(2) u(1) send_and_recv_complete [of "wlan_nl80211_get_link_signal_cb env" mss ms "(t, start)"]
    by (simp add: dump)
  let ?kept = "bssid_text ` set (take 64 (macs_of (concat mss @ ms)))"
  have c: "c \<le> length bs" and kept: "cstr ` set (take c bs) = ?kept"
    using u(3) by (auto simp: ctx_ok_def WLAN_NL80211_MAX_STAS_def simp flip: set_map)
  from remove_sta_missing [OF u(2), of "int c" bs env] c obtain v where
    v: "wlan_nl80211_remove_sta env (Some bs) (int c) u = Some v" "wlinkd_inv v" "names v = names u \<inter> ?kept"
    unfolding kept [symmetric] by auto
  have nv: "names v = ?kept"
    unfolding v(3) u(4) by (auto dest: in_set_takeD)
  have "wlan_nl80211_refresh env inp s = Some (Returned 0 v)"
    using sock mem(2,3) first t(3) second v(1)
    by (simp add: wlan_nl80211_refresh_def Let_def s1_def [symmetric] start_def [symmetric])
  moreover have "led_on (pushes v) \<longleftrightarrow> macs_of (concat mss @ ms) \<noteq> []"
    using v(2) nv by (simp add: wlinkd_inv_def led_ok_def)
  ultimately show ?thesis using v(2) nv by blast
qed

theorem refresh_mirrors_dump_witness:
  "\<exists>env inp s t. wlinkd_inv s \<and> names s = {} \<and> wlan_nl80211_refresh env inp s = Some (Returned 0 t) \<and>
     names t = {''02:00:00:00:00:01'', ''02:00:00:00:00:FF''} \<and> led_on (pushes t)"
proof -
  define msg where "msg = \<lparr>cmd = 7, attr_ifindex = Some 3, attr_mac = None, attr_ifname = Some ''wlan0'',
    attr_freq = Some 2412, attr_width = Some 1, attr_iftype = Some NL80211_IFTYPE_AP, attr_sta_info = None\<rparr>"
  define a where "a = msg\<lparr>attr_mac := Some (2, 0, 0, 0, 0, 1)\<rparr>"
  define b where "b = msg\<lparr>attr_mac := Some (2, 0, 0, 0, 0, 255)\<rparr>"
  define inp where "inp = \<lparr>msg1_alloc = True, interface_reply = complete_reply [] [msg\<lparr>attr_ifindex := Some 1\<rparr>, msg],
    msg2_alloc = True, station_reply = complete_reply [[a]] [b]\<rparr>"
  define env where "env = \<lparr>malloc_ok = (\<lambda>_. True), time_now = (\<lambda>_. 0), ifaddr_list = (\<lambda>_. None),
    ipc_sys = (\<lambda>_ _. 0)\<rparr>"
  define s where "s = wlinkd_start\<lparr>g_req_sock := True, nl_live := Suc (nl_live wlinkd_start),
    g_nl80211_id := 20, g_wlan_idx := 3\<rparr>"
  have inv: "wlinkd_inv s" "names s = {}"
    using wlinkd_start_inv by (simp_all add: s_def wlinkd_inv_def parts_ok_def led_ok_def names_def wlinkd_start_def)
  have im: "interface_msg 3 NL80211_IFTYPE_AP msg"
    by (simp add: interface_msg_def msg_def NL80211_CMD_NEW_STATION_def NL80211_CMD_DEL_STATION_def)
  have texts: "bssid_text (2, 0, 0, 0, 0, 1) = ''02:00:00:00:00:01''"
    "bssid_text (2, 0, 0, 0, 0, 255) = ''02:00:00:00:00:FF''"
    by code_simp+
  have bs: "bssid_text ` set (take 64 (macs_of (concat [[a]] @ [b]))) = {''02:00:00:00:00:01'', ''02:00:00:00:00:FF''}"
    "macs_of (concat [[a]] @ [b]) \<noteq> []"
    using texts by (simp_all add: a_def b_def)
  have "\<exists>t. wlan_nl80211_refresh env inp s = Some (Returned 0 t) \<and> wlinkd_inv t \<and>
      names t = bssid_text ` set (take 64 (macs_of (concat [[a]] @ [b]))) \<and>
      (led_on (pushes t) \<longleftrightarrow> macs_of (concat [[a]] @ [b]) \<noteq> [])"
    by (rule refresh_mirrors_dump [where iss = "[]" and xs = "[msg\<lparr>attr_ifindex := Some 1\<rparr>]" and ys = "[]"
          and fs = "[msg\<lparr>attr_ifindex := Some 1\<rparr>, msg]" and im = msg])
      (use inv(1) im in \<open>simp_all add: s_def env_def inp_def\<close>)
  with inv bs show ?thesis by auto
qed

end
