(* ===== verification/Wlan_Core.thy ===== *)
theory Wlan_Core
  imports Wlan_Nl80211
begin

text \<open>
  \<open>wlinkd/src/wlan_core.c\<close>: the service layer between the event loop and nl80211, and the
  status report that the UNIX socket and the TCP port send. The report is built in a fixed buffer
  with a running position; the main lemma shows that the buffer ends up holding the longest
  prefix of the full report that fits.
\<close>

section \<open>Wrappers\<close>

definition wlan_core_init ::
  "system \<Rightarrow> init_input \<Rightarrow> string \<Rightarrow> wlinkd \<Rightarrow> (int \<times> wlinkd) nl_run option" where
  "wlan_core_init env inp ifname s =
     (let s1 = s\<lparr>g_wlan_core_ifname := strncpy (g_wlan_core_ifname s) ifname (IFNAMSIZ - 1),
                 stas := wlan_sta_mgr_init (stas s)\<rparr>
      in case wlan_nl80211_init env inp ifname s1 of
           None \<Rightarrow> None
         | Some (Waiting r) \<Rightarrow> Some (Waiting r)
         | Some (Returned e (fd, t)) \<Rightarrow> Some (Returned e (if fd < 0 then -1 else fd, t)))"

definition wlan_core_get_fd :: "wlinkd \<Rightarrow> int" where
  "wlan_core_get_fd s = g_libnl_fd s"

definition wlan_core_is_ap_mode :: "wlinkd \<Rightarrow> bool" where
  "wlan_core_is_ap_mode s = wlan_nl80211_is_ap_mode s"

definition wlan_core_get_ap_info :: "ApInfo option \<Rightarrow> wlinkd \<Rightarrow> int \<times> ApInfo option" where
  "wlan_core_get_ap_info info s = wlan_nl80211_get_ap_basic_info info s"

definition wlan_core_handler :: "system \<Rightarrow> nl_msg list \<Rightarrow> wlinkd \<Rightarrow> wlinkd option" where
  "wlan_core_handler env ms s = wlan_libnl_dispatch env ms s"

definition wlan_core_refresh :: "system \<Rightarrow> refresh_input \<Rightarrow> wlinkd \<Rightarrow> wlinkd nl_run option" where
  "wlan_core_refresh env inp s = wlan_nl80211_refresh env inp s"

definition wlan_core_close :: "wlinkd \<Rightarrow> wlinkd option" where
  "wlan_core_close s =
     (let s1 = wlan_nl80211_deinit s
      in map_option (\<lambda>st. s1\<lparr>stas := st\<rparr>) (wlan_sta_mgr_clear (stas s1)))"

section \<open>The status report\<close>

definition snprintf_at :: "cbuffer \<Rightarrow> nat \<Rightarrow> nat \<Rightarrow> string \<Rightarrow> cbuffer" where
  "snprintf_at buf pos sz text = take pos buf @ snprintf (drop pos buf) (sz - pos) text"

definition ap_text :: "ApInfo \<Rightarrow> int \<Rightarrow> string" where
  "ap_text a n =
     ''===== AP ====='' @ [newline] @ ''MODE='' @ cstr (mode a) @ [newline] @
     ''IFACE='' @ cstr (iface a) @ [newline] @ ''IP='' @ cstr (ip a) @ [newline] @
     ''CHANNEL='' @ cstr (channel a) @ [newline] @
     ''BANDWIDTH='' @ dec_int (bandwidth_mhz a) @ '' MHz'' @ [newline] @
     ''PHY_RATE='' @ dec_int (phy_rate_mbps a) @ '' Mbps'' @ [newline] @
     ''RSSI='' @ dec_int (rssi_dbm a) @ '' dBm'' @ [newline] @
     ''STA_COUNT='' @ dec_int n @ [newline]"

definition sta_head_text :: "int \<Rightarrow> string" where
  "sta_head_text n = ''===== STA ====='' @ [newline] @ ''COUNT='' @ dec_int n @ [newline]"

definition sta_text :: "sta_view \<Rightarrow> string" where
  "sta_text = (\<lambda>(b, r, p, t).
     ''-----'' @ [newline] @ ''BSSID='' @ b @ [newline] @ ''RSSI='' @ dec_int r @ [newline] @
     ''PKTS='' @ dec_nat (unat p) @ [newline] @ ''CONNECTED='' @ dec_int t @ [newline])"

partial_function (option) status_loop ::
  "sta_mgr \<Rightarrow> nat option \<Rightarrow> cbuffer \<Rightarrow> nat \<Rightarrow> nat \<Rightarrow> cbuffer option" where
  "status_loop st cur buf pos sz =
     (case cur of
        None \<Rightarrow> Some buf
      | Some a \<Rightarrow>
          if \<not> pos < sz then Some buf
          else (case deref st a of
                  None \<Rightarrow> None
                | Some n \<Rightarrow>
                    let text = sta_text (view n); buf1 = snprintf_at buf pos sz text in
                    if length text \<ge> sz - pos then Some buf1
                    else status_loop st (sta_next n) buf1 (pos + length text) sz))"

declare status_loop.simps [code]

definition wlan_core_build_status :: "cbuffer \<Rightarrow> nat \<Rightarrow> wlinkd \<Rightarrow> cbuffer option" where
  "wlan_core_build_status buf sz s =
     (let (r, info) = wlan_nl80211_get_ap_basic_info (Some ap_info_zero) s;
          a = (case info of Some a \<Rightarrow> a | None \<Rightarrow> ap_info_zero);
          a1 = (if r < 0
                then a\<lparr>iface := strncpy (iface a) (cstr (g_wlan_core_ifname s)) 31,
                       mode := strncpy (mode a) WLAN_MODE 15,
                       ip := strncpy (ip a) WLAN_NOT_AVAILABLE 31,
                       channel := strncpy (channel a) WLAN_NOT_AVAILABLE 31\<rparr>
                else a)
      in case wlan_sta_mgr_count (stas s) of
           None \<Rightarrow> None
         | Some n \<Rightarrow>
             let text1 = ap_text a1 n; buf1 = snprintf_at buf 0 sz text1 in
             if length text1 \<ge> sz then Some buf1
             else let pos1 = length text1; text2 = sta_head_text n; buf2 = snprintf_at buf1 pos1 sz text2 in
               if length text2 \<ge> sz - pos1 then Some buf2
               else status_loop (stas s) (sta_mgr_head (stas s)) buf2 (pos1 + length text2) sz)"

definition status_text :: "wlinkd \<Rightarrow> string" where
  "status_text s =
     (let vs = sta_views (stas s); n = int (length vs)
      in ap_text (g_ap_info s) n @ sta_head_text n @ concat (map sta_text vs))"

section \<open>Filling the buffer\<close>

text \<open>\<open>holds buf sz x\<close>: the buffer holds the text \<open>x\<close>, cut to what fits in \<open>sz\<close> bytes.\<close>

definition holds :: "cbuffer \<Rightarrow> nat \<Rightarrow> string \<Rightarrow> bool" where
  "holds buf sz x \<longleftrightarrow> 0 < sz \<and> sz \<le> length buf \<and> nul_free x \<and> cstr buf = take (sz - 1) x"

lemma snprintf_at_holds:
  assumes x: "holds buf sz x" "length x < sz" and y: "nul_free y"
  shows "holds (snprintf_at buf (length x) sz y) sz (x @ y)"
proof -
  let ?k = "sz - length x"
  have cx: "cstr buf = x" using x by (simp add: holds_def)
  have tx: "take (length x) buf = x"
    using take_length_cstr [of buf] by (simp add: cx)
  have len: "?k \<le> length (drop (length x) buf)" "0 < ?k" using x by (auto simp: holds_def)
  have "cstr (snprintf_at buf (length x) sz y) = x @ cstr (snprintf (drop (length x) buf) ?k y)"
    using x unfolding snprintf_at_def tx by (simp add: holds_def cstr_append_free)
  also have "cstr (snprintf (drop (length x) buf) ?k y) = take (?k - 1) y"
    using len y by (simp add: cbuf)
  finally have "cstr (snprintf_at buf (length x) sz y) = take (sz - 1) (x @ y)"
    using x(2) by simp
  moreover have "length (snprintf_at buf (length x) sz y) = length buf"
    using len x by (simp add: snprintf_at_def length_snprintf holds_def)
  ultimately show ?thesis using x y by (simp add: holds_def)
qed

lemma holds_full: "holds buf sz x \<Longrightarrow> sz \<le> length x \<Longrightarrow> nul_free y \<Longrightarrow> holds buf sz (x @ y)"
  by (auto simp: holds_def)

lemma sta_text_nul_free [simp]: "nul_free (sta_text (view n))"
  by (simp add: sta_text_def view_def)

lemma ap_text_nul_free [simp]: "nul_free (ap_text a n)" "nul_free (sta_head_text n)"
  by (simp_all add: ap_text_def sta_head_text_def)

lemma nul_free_concat: "(\<And>x. x \<in> set xs \<Longrightarrow> nul_free x) \<Longrightarrow> nul_free (concat xs)"
  by (induction xs) auto

lemma status_loop_path:
  assumes "path st p as None" "holds buf sz x" "length x < sz"
  shows "\<exists>buf'. status_loop st p buf (length x) sz = Some buf' \<and>
     holds buf' sz (x @ concat (map (\<lambda>a. sta_text (view (node st a))) as))"
  using assms
proof (induction as arbitrary: p buf x)
  case Nil
  then show ?case by (subst status_loop.simps) simp
next
  case (Cons a as)
  then obtain n where n: "p = Some a" "deref st a = Some n" "path st (sta_next n) as None"
    by (auto split: option.splits)
  let ?y = "sta_text (view n)"
  let ?rest = "concat (map (\<lambda>a. sta_text (view (node st a))) as)"
  have nd: "node st a = n" using n(2) by (rule node_deref)
  have h: "holds (snprintf_at buf (length x) sz ?y) sz (x @ ?y)"
    by (rule snprintf_at_holds) (use Cons.prems in auto)
  show ?case
  proof (cases "sz \<le> length (x @ ?y)")
    case True
    have "nul_free ?rest" by (rule nul_free_concat) auto
    with holds_full [OF h True] True n nd Cons.prems(3) show ?thesis
      by (subst status_loop.simps) (auto simp: Let_def)
  next
    case False
    from Cons.IH [OF n(3) h] False n nd Cons.prems(3) show ?thesis
      by (subst status_loop.simps) (auto simp: Let_def)
  qed
qed

lemma build_status_holds:
  assumes inv: "sta_inv (stas s)" and sz: "0 < sz" "sz \<le> length buf"
  shows "\<exists>buf'. wlan_core_build_status buf sz s = Some buf' \<and> holds buf' sz (status_text s)"
proof -
  from inv obtain as where rep: "sta_rep (stas s) as" by (auto simp: sta_inv_def)
  let ?n = "int (length (sta_views (stas s)))"
  let ?x = "ap_text (g_ap_info s) ?n" and ?y = "sta_head_text ?n"
  let ?z = "concat (map (\<lambda>a. sta_text (view (node (stas s) a))) as)"
  have full: "status_text s = ?x @ ?y @ ?z"
    by (simp add: status_text_def Let_def sta_views_rep [OF rep] comp_def)
  have nf: "nul_free ?z" by (rule nul_free_concat) auto
  let ?b1 = "snprintf_at buf 0 sz ?x"
  have h1: "holds ?b1 sz ?x"
    using sz by (simp add: snprintf_at_def holds_def length_snprintf cstr_snprintf)
  have cnt: "wlan_sta_mgr_count (stas s) = Some ?n" by (rule wlan_sta_mgr_count_eq [OF inv])
  note unf = wlan_core_build_status_def wlan_nl80211_get_ap_basic_info_def Let_def cnt
  show ?thesis
  proof (cases "sz \<le> length ?x")
    case True
    with holds_full [OF h1 True, of "?y @ ?z"] nf show ?thesis by (simp add: unf full)
  next
    case False
    let ?b2 = "snprintf_at ?b1 (length ?x) sz ?y"
    have h2: "holds ?b2 sz (?x @ ?y)" by (rule snprintf_at_holds [OF h1]) (use False in auto)
    show ?thesis
    proof (cases "sz \<le> length (?x @ ?y)")
      case True
      with holds_full [OF h2 True nf] False show ?thesis by (auto simp: unf full)
    next
      case fits: False
      from status_loop_path [OF sta_rep_path [OF rep] h2] fits False show ?thesis
        by (auto simp: unf full)
    qed
  qed
qed

text \<open>
  C12. The status report is never torn: for every buffer size the text in the buffer is the longest
  prefix of the full report (access point, number of stations, one block per station in list
  order) that fits with its terminating NUL.
\<close>

theorem build_status_prefix:
  assumes "wlinkd_inv s" "0 < sz" "sz \<le> length buf"
  shows "\<exists>buf'. wlan_core_build_status buf sz s = Some buf' \<and> length buf' \<ge> sz \<and>
     cstr buf' = take (sz - 1) (status_text s)"
  using build_status_holds [of s sz buf] assms by (auto simp: wlinkd_inv_def parts_ok_def holds_def)

theorem build_status_prefix_witness:
  "\<exists>buf'. wlan_core_build_status (replicate 40 NUL) 20 wlinkd_start = Some buf' \<and>
     cstr buf' = ''===== AP ====='' @ [newline] @ ''MODE''"
proof -
  have v: "sta_views (stas wlinkd_start) = []" by (simp add: wlinkd_start_def)
  have "take (20 - 1) (status_text wlinkd_start) = ''===== AP ====='' @ [newline] @ ''MODE''"
    by (simp add: status_text_def ap_text_def v)
  moreover have "length (replicate 40 NUL) = 40" by simp
  ultimately show ?thesis
    using build_status_prefix [OF wlinkd_start_inv, of 20 "replicate 40 NUL"] by auto
qed

end
