(* ===== verification/Wlinkd_Main.thy ===== *)
theory Wlinkd_Main
  imports Wlan_Core Getopt
begin

text \<open>
  \<open>ipc_handler\<close> of \<open>wlinkd/src/ipc.c\<close> and \<open>wlinkd/src/main.c\<close>: the requests of the UNIX socket,
  the options, and the poll loop that runs one handler per ready descriptor. The invariant of the
  daemon is carried through every iteration.
\<close>

section \<open>The request handler\<close>

definition IPC_BUFFER_SIZE :: nat where
  "IPC_BUFFER_SIZE = 4096"

definition ipc_reply :: "string \<Rightarrow> wlinkd \<Rightarrow> cbuffer option" where
  "ipc_reply req s =
     (let buf = replicate IPC_BUFFER_SIZE NUL in
      if req = ''WLAN_PING''
      then Some (snprintf buf IPC_BUFFER_SIZE
                   ((if wlan_core_is_ap_mode s then ''PONG AP'' else ''PONG MONITOR'') @ [newline]))
      else if req = ''WLAN_DUMP'' then wlan_core_build_status buf IPC_BUFFER_SIZE s
      else Some (snprintf buf IPC_BUFFER_SIZE (''ERR unknown command: '' @ req @ [newline])))"

text \<open>
  \<open>rx\<close> is what the client sent. \<open>recv\<close> is given room for 255 bytes; a result above that would
  write outside \<open>req\<close> and is the value \<open>None\<close>.
\<close>

definition ipc_handler :: "ipc_os \<Rightarrow> string \<Rightarrow> wlinkd \<Rightarrow> wlinkd option" where
  "ipc_handler os rx s =
     (let (fd, i1) = syscall os (Accept (g_server_fd (ipcs s))) (ipcs s) in
      if fd < 0 then Some (s\<lparr>ipcs := i1\<rparr>)
      else let (n, i2) = syscall os (Recv fd 255) i1 in
        if n \<le> 0 then Some (s\<lparr>ipcs := snd (syscall os (Close fd) i2)\<rparr>)
        else if n > 255 then None
        else let req = cstr (take (nat n) rx) in
          if strncmp_eq req ''SUBSCRIBE'' 9
          then if g_push_count i2 < IPC_MAX_PUSH_CLIENTS
               then let i3 = i2\<lparr>g_push_fds := (g_push_fds i2)[g_push_count i2 := fd],
                                g_push_count := Suc (g_push_count i2)\<rparr>
                    in Some (s\<lparr>ipcs := snd (syscall os (Send fd (''OK'' @ [newline])) i3)\<rparr>)
               else let i3 = snd (syscall os (Send fd (''ERR full'' @ [newline])) i2)
                    in Some (s\<lparr>ipcs := snd (syscall os (Close fd) i3)\<rparr>)
          else (case ipc_reply req s of
                  None \<Rightarrow> None
                | Some buf \<Rightarrow>
                    let i3 = snd (syscall os (Send fd (cstr buf)) i2)
                    in Some (s\<lparr>ipcs := snd (syscall os (Close fd) i3)\<rparr>)))"

text \<open>What the handler relies on: \<open>recv\<close> returns at most the room it was given.\<close>

definition recv_bounded :: "ipc_os \<Rightarrow> bool" where
  "recv_bounded os \<longleftrightarrow> (\<forall>h fd n. os h (Recv fd n) \<le> int n)"

section \<open>Options\<close>

record config =
  cfg_ifname :: string
  cfg_ipc :: bool
  cfg_debug :: int
  cfg_log_file :: "string option"

text \<open>
  \<open>LOG_DEBUG\<close> and the initial \<open>g_debug_level\<close> belong to the shared logging code of the daemon,
  hence the parameters. \<open>None\<close>: \<open>usage\<close> ends the process with status 1.
\<close>

fun parse_options :: "int \<Rightarrow> (char \<times> string option) list \<Rightarrow> config \<Rightarrow> config option" where
  "parse_options log_debug [] cfg = Some cfg"
| "parse_options log_debug ((c, arg) # opts) cfg =
     (if c = CHR ''h'' then None
      else if c = CHR ''i'' then parse_options log_debug opts (cfg\<lparr>cfg_ifname := the arg\<rparr>)
      else if c = CHR ''d''
      then parse_options log_debug opts
             (if cfg_debug cfg < log_debug then cfg\<lparr>cfg_debug := cfg_debug cfg + 1\<rparr> else cfg)
      else if c = CHR ''f'' then parse_options log_debug opts (cfg\<lparr>cfg_log_file := arg\<rparr>)
      else if c = CHR ''s'' then parse_options log_debug opts (cfg\<lparr>cfg_ipc := True\<rparr>)
      else None)"

definition wlinkd_options :: "int \<Rightarrow> int \<Rightarrow> string list \<Rightarrow> config option" where
  "wlinkd_options log_debug level args =
     parse_options log_debug (getopt ''hi:df:s'' args)
       \<lparr>cfg_ifname = ''wlan0'', cfg_ipc = False, cfg_debug = level, cfg_log_file = None\<rparr>"

text \<open>The text on \<open>stderr\<close> and the exit status.\<close>

definition usage :: "string \<times> int" where
  "usage = ([newline] @ ''usage: wlinkd [-hd] [-i <ifname>] [-s <socket path>]'' @ [newline] @
     [CHR 0x5C, newline] @
     ''options:'' @ [newline] @
     ''   -h   show this usage'' @ [newline] @
     ''   -d   show more debug messages (-dd for even more)'' @ [newline] @
     ''   -i   specify wlan interface (default: wlan0)'' @ [newline] @
     ''   -s   specify IPC socket path'' @ [newline], 1)"

section \<open>The event loop\<close>

record poll_input =
  poll_result :: int
  poll_eintr :: bool
  ipc_ready :: bool
  ipc_rx :: string
  nl_ready :: bool
  nl_events :: "nl_msg list"
  timer_ready :: bool
  timer_read :: int
  refresh_data :: refresh_input

definition main_iteration :: "system \<Rightarrow> bool \<Rightarrow> poll_input \<Rightarrow> wlinkd \<Rightarrow> wlinkd nl_run option" where
  "main_iteration env ipc inp s =
     Option.bind (if ipc \<and> ipc_ready inp then ipc_handler (ipc_sys env) (ipc_rx inp) s else Some s)
       (\<lambda>s1. Option.bind (if nl_ready inp then wlan_core_handler env (nl_events inp) s1 else Some s1)
         (\<lambda>s2. if timer_ready inp \<and> timer_read inp > 0 then wlan_core_refresh env (refresh_data inp) s2
               else Some (Returned 0 s2)))"

text \<open>\<open>g_running\<close> after one of the signals \<open>SIGTERM\<close>, \<open>SIGINT\<close>, \<open>SIGHUP\<close>.\<close>

definition shutdown_handler :: "bool \<Rightarrow> bool" where
  "shutdown_handler g_running = False"

text \<open>
  One entry per test of \<open>g_running\<close>: how many signals were handled since the test before, and what \<open>poll\<close>
  reports. \<open>Ended\<close>: the loop was left; \<open>Polling\<close>: the entries are used up; \<open>Stuck\<close>: a refresh waits
  for its answer.
\<close>

datatype loop_state = Ended wlinkd | Polling wlinkd | Stuck wlinkd

fun main_loop :: "system \<Rightarrow> bool \<Rightarrow> bool \<Rightarrow> (nat \<times> poll_input) list \<Rightarrow> wlinkd \<Rightarrow> loop_state option" where
  "main_loop env ipc g_running [] s = Some (Polling s)"
| "main_loop env ipc g_running ((signals, inp) # rest) s =
     (let running = (shutdown_handler ^^ signals) g_running in
      if \<not> running then Some (Ended s)
      else if poll_result inp < 0
      then if poll_eintr inp then main_loop env ipc running rest s else Some (Ended s)
      else (case main_iteration env ipc inp s of
              None \<Rightarrow> None
            | Some (Waiting t) \<Rightarrow> Some (Stuck t)
            | Some (Returned _ t) \<Rightarrow> main_loop env ipc running rest t))"

fun loop_daemon :: "loop_state \<Rightarrow> wlinkd" where
  "loop_daemon (Ended s) = s"
| "loop_daemon (Polling s) = s"
| "loop_daemon (Stuck s) = s"

section \<open>main\<close>

definition LED_OFF :: string where
  "LED_OFF = ''sta_leave''"

text \<open>
  What \<open>main\<close> itself does to the system: the timer, the TCP thread (whose descriptors are its own, see
  \<open>Tcp_Server\<close>) and the LED device. What \<open>pthread_detach\<close> does when the creation of the thread has failed, and
  its argument has no value, is left open.
\<close>

datatype main_ev = Timer_create int | Tcp_create int | Tcp_detach | Led_open int | Led_write string | Fd_close int

definition led_off :: "int \<Rightarrow> main_ev list" where
  "led_off fd = Led_open fd # (if fd \<ge> 0 then [Led_write LED_OFF, Fd_close fd] else [])"

datatype outcome =
    Exited int wlinkd "main_ev list"
  | Running loop_state "main_ev list"

record main_input =
  core_init :: init_input
  timer_fd :: int
  tcp_create :: int
  led_fd_start :: int
  led_fd_end :: int
  iterations :: "(nat \<times> poll_input) list"

definition wlinkd_main :: "system \<Rightarrow> main_input \<Rightarrow> config option \<Rightarrow> wlinkd \<Rightarrow> outcome option" where
  "wlinkd_main env inp opts s =
     (case opts of
        None \<Rightarrow> Some (Exited (snd usage) s [])
      | Some cfg \<Rightarrow>
          (case wlan_core_init env (core_init inp) (cfg_ifname cfg) s of
             None \<Rightarrow> None
           | Some (Waiting (_, t)) \<Rightarrow> Some (Running (Stuck t) [])
           | Some (Returned _ (fd, t)) \<Rightarrow>
               if fd < 0 then Some (Exited 1 t [])
               else let (r, u) = (if cfg_ipc cfg
                                  then let (r, i) = ipc_init (ipc_sys env) None (ipcs t) in (r, t\<lparr>ipcs := i\<rparr>)
                                  else (0, t)) in
                 if cfg_ipc cfg \<and> r < 0
                 then map_option (\<lambda>v. Exited 1 v []) (wlan_core_close u)
                 else let e1 = [Timer_create (timer_fd inp)] in
                   if timer_fd inp < 0 then Some (Exited (-1) u e1)
                   else let e2 = e1 @ [Tcp_create (tcp_create inp), Tcp_detach] @ led_off (led_fd_start inp) in
                     (case main_loop env (cfg_ipc cfg) True (iterations inp) u of
                        None \<Rightarrow> None
                      | Some (Ended v) \<Rightarrow>
                          let e3 = e2 @ [Fd_close (timer_fd inp)] @ led_off (led_fd_end inp);
                              w = (if cfg_ipc cfg then v\<lparr>ipcs := ipc_close (ipc_sys env) (ipcs v)\<rparr> else v)
                          in map_option (\<lambda>x. Exited 0 x e3) (wlan_core_close w)
                      | Some l \<Rightarrow> Some (Running l e2))))"

text \<open>The descriptors of \<open>main\<close> itself: of the timer and of the LED device.\<close>

fun main_opened :: "main_ev list \<Rightarrow> int multiset" where
  "main_opened [] = {#}"
| "main_opened (Timer_create fd # es) = (if fd \<ge> 0 then {#fd#} else {#}) + main_opened es"
| "main_opened (Led_open fd # es) = (if fd \<ge> 0 then {#fd#} else {#}) + main_opened es"
| "main_opened (_ # es) = main_opened es"

fun main_closed :: "main_ev list \<Rightarrow> int multiset" where
  "main_closed [] = {#}"
| "main_closed (Fd_close fd # es) = {#fd#} + main_closed es"
| "main_closed (_ # es) = main_closed es"

lemma main_fds_append [simp]:
  "main_opened (xs @ ys) = main_opened xs + main_opened ys" "main_closed (xs @ ys) = main_closed xs + main_closed ys"
  by (induction xs rule: main_opened.induct) auto

lemma led_off_closes: "main_opened (led_off fd) = main_closed (led_off fd)"
  by (simp add: led_off_def)

section \<open>The invariant through the handlers\<close>

lemma wlinkd_inv_ipcs:
  "wlinkd_inv s \<Longrightarrow> ipc_inv i \<Longrightarrow> fd_ledger i \<Longrightarrow> deliver_ok (pushes s) i \<Longrightarrow> wlinkd_inv (s\<lparr>ipcs := i\<rparr>)"
  by (simp add: wlinkd_inv_def parts_ok_def led_ok_def names_def)

lemma ipc_reply_some:
  assumes "wlinkd_inv s"
  shows "\<exists>buf. ipc_reply req s = Some buf"
  using build_status_holds [of s IPC_BUFFER_SIZE "replicate IPC_BUFFER_SIZE NUL"] assms
  by (auto simp: ipc_reply_def Let_def wlinkd_inv_def parts_ok_def IPC_BUFFER_SIZE_def)

lemma ipc_trace_inv [simp]: "ipc_inv (i\<lparr>ipc_trace := h\<rparr>) = ipc_inv i"
  by (simp add: ipc_inv_def subscribers_def)

lemma ledger_trace:
  assumes "fd_ledger i" "opened h = opened (ipc_trace i) + x" "closed h = closed (ipc_trace i) + x"
  shows "fd_ledger (i\<lparr>ipc_trace := h\<rparr>)"
  using assms by (simp add: fd_ledger_def subscribers_def server_fds_def)

lemma register_inv:
  assumes "ipc_inv i" "0 \<le> fd" "g_push_count i < IPC_MAX_PUSH_CLIENTS"
  shows "ipc_inv (i\<lparr>g_push_fds := (g_push_fds i)[g_push_count i := fd], g_push_count := Suc (g_push_count i),
           ipc_trace := h\<rparr>)"
    and "subscribers (i\<lparr>g_push_fds := (g_push_fds i)[g_push_count i := fd],
           g_push_count := Suc (g_push_count i), ipc_trace := h\<rparr>) = subscribers i @ [fd]"
  using assms by (auto simp: ipc_inv_def subscribers_def take_Suc_conv_app_nth)

lemma log_call: "snd (syscall os c i) = i\<lparr>ipc_trace := ipc_trace i @ [(c, os (ipc_trace i) c)]\<rparr>"
  by (simp add: syscall_def Let_def)

lemma ipc_handler_run:
  assumes fd: "fd = os (ipc_trace (ipcs s)) (Accept (g_server_fd (ipcs s)))"
    and h1: "h1 = ipc_trace (ipcs s) @ [(Accept (g_server_fd (ipcs s)), fd)]"
    and n: "n = os h1 (Recv fd 255)" "n \<le> 255"
    and h2: "h2 = h1 @ [(Recv fd 255, n)]"
    and buf: "ipc_reply (cstr (take (nat n) rx)) s = Some buf"
  shows "ipc_handler os rx s =
      (if fd < 0 then Some (s\<lparr>ipcs := (ipcs s)\<lparr>ipc_trace := h1\<rparr>\<rparr>)
       else if n \<le> 0 then Some (s\<lparr>ipcs := snd (syscall os (Close fd) ((ipcs s)\<lparr>ipc_trace := h2\<rparr>))\<rparr>)
       else if strncmp_eq (cstr (take (nat n) rx)) ''SUBSCRIBE'' 9
       then if g_push_count (ipcs s) < IPC_MAX_PUSH_CLIENTS
            then Some (s\<lparr>ipcs := snd (syscall os (Send fd (''OK'' @ [newline]))
                   ((ipcs s)\<lparr>ipc_trace := h2, g_push_fds := (g_push_fds (ipcs s))[g_push_count (ipcs s) := fd],
                      g_push_count := Suc (g_push_count (ipcs s))\<rparr>))\<rparr>)
            else Some (s\<lparr>ipcs := snd (syscall os (Close fd)
                   (snd (syscall os (Send fd (''ERR full'' @ [newline])) ((ipcs s)\<lparr>ipc_trace := h2\<rparr>))))\<rparr>)
       else Some (s\<lparr>ipcs := snd (syscall os (Close fd)
                   (snd (syscall os (Send fd (cstr buf)) ((ipcs s)\<lparr>ipc_trace := h2\<rparr>))))\<rparr>))"
proof -
  have acc: "syscall os (Accept (g_server_fd (ipcs s))) (ipcs s) = (fd, (ipcs s)\<lparr>ipc_trace := h1\<rparr>)"
    by (simp add: syscall_def fd h1 Let_def)
  have rcv: "syscall os (Recv fd 255) ((ipcs s)\<lparr>ipc_trace := h1\<rparr>) = (n, (ipcs s)\<lparr>ipc_trace := h2\<rparr>)"
    by (simp add: syscall_def n h2 Let_def)
  show ?thesis
    unfolding ipc_handler_def acc Let_def prod.case rcv using n(2) buf by simp
qed

lemma ipc_handler_inv:
  assumes inv: "wlinkd_inv s" and os: "recv_bounded os"
  shows "\<exists>t. ipc_handler os rx s = Some t \<and> wlinkd_inv t"
proof -
  define i where "i = ipcs s"
  define fd where "fd = os (ipc_trace i) (Accept (g_server_fd i))"
  define h1 where "h1 = ipc_trace i @ [(Accept (g_server_fd i), fd)]"
  define n where "n = os h1 (Recv fd 255)"
  define h2 where "h2 = h1 @ [(Recv fd 255, n)]"
  have i: "ipc_inv i" "fd_ledger i" "deliver_ok (pushes s) i" using inv by (simp_all add: i_def wlinkd_inv_def parts_ok_def)
  have n: "n \<le> 255" using os [unfolded recv_bounded_def, rule_format, of h1 fd 255] by (simp add: n_def)
  have closing: "wlinkd_inv (s\<lparr>ipcs := i\<lparr>ipc_trace := h2 @ x @ [(Close fd, r)]\<rparr>\<rparr>)"
    if "0 \<le> fd" "opened x = {#}" "closed x = {#}" "x = [] \<or> x = [(Send fd m, q)]" for x r m q
    using i that deliver_request(1) [OF i(3,1,2), of fd "(Recv fd 255, n) # x @ [(Close fd, r)]" "g_server_fd i"]
    by (intro wlinkd_inv_ipcs inv ledger_trace [where x = "{#fd#}"]) (auto simp: h2_def h1_def)
  obtain buf where buf: "ipc_reply (cstr (take (nat n) rx)) s = Some buf" using ipc_reply_some [OF inv] by blast
  have sub: "wlinkd_inv (s\<lparr>ipcs := i\<lparr>g_push_fds := (g_push_fds i)[g_push_count i := fd],
      g_push_count := Suc (g_push_count i), ipc_trace := h2 @ [(Send fd ipc_ok_msg, r)]\<rparr>\<rparr>)"
    if "0 \<le> fd" "g_push_count i < IPC_MAX_PUSH_CLIENTS" for r
    using i that register_inv [OF i(1) that]
    by (intro wlinkd_inv_ipcs inv deliver_request(2) [OF i(3,1,2), where g = "g_server_fd i"])
      (simp_all add: fd_ledger_def server_fds_def h1_def h2_def)
  have accepted: "wlinkd_inv (s\<lparr>ipcs := i\<lparr>ipc_trace := h1\<rparr>\<rparr>)" if "fd < 0"
    using i that deliver_request(1) [OF i(3,1,2), of fd "[]" "g_server_fd i"]
    by (intro wlinkd_inv_ipcs inv ledger_trace [where x = "{#}"]) (simp_all add: h1_def)
  note run = ipc_handler_run [OF fd_def [unfolded i_def] h1_def [unfolded i_def] n_def n h2_def buf,
      folded i_def]
  show ?thesis
    unfolding run using accepted sub closing [of "[]"] closing [of "[(Send fd m, r)]" m r for m r]
    by (simp add: log_call ipc_ok_msg_def)
qed

lemma main_iteration_inv:
  assumes "wlinkd_inv s" "recv_bounded (ipc_sys env)"
  shows "\<exists>r. main_iteration env ipc inp s = Some r \<and> wlinkd_inv (run_state r)"
proof -
  obtain s1 where s1: "(if ipc \<and> ipc_ready inp then ipc_handler (ipc_sys env) (ipc_rx inp) s else Some s) = Some s1"
    "wlinkd_inv s1" using ipc_handler_inv [OF assms, of "ipc_rx inp"] assms(1)
    by (cases "ipc \<and> ipc_ready inp") auto
  obtain s2 where s2: "(if nl_ready inp then wlan_core_handler env (nl_events inp) s1 else Some s1) = Some s2"
    "wlinkd_inv s2"
    using dispatch_inv [OF s1(2), of env "nl_events inp"] s1(2) unfolding wlan_core_handler_def
    by (cases "nl_ready inp") auto
  from refresh_inv [OF s2(2), of env "refresh_data inp"] s2(2) show ?thesis
    by (auto simp: main_iteration_def s1(1) s2(1) wlan_core_refresh_def)
qed

lemma main_loop_inv:
  assumes "wlinkd_inv s" "recv_bounded (ipc_sys env)"
  shows "\<exists>l. main_loop env ipc g its s = Some l \<and> wlinkd_inv (loop_daemon l)"
  using assms(1)
proof (induction its arbitrary: s g)
  case (Cons it its)
  obtain signals inp where it: "it = (signals, inp)" by (cases it)
  from main_iteration_inv [OF Cons.prems assms(2)] obtain r where
    r: "main_iteration env ipc inp s = Some r" "wlinkd_inv (run_state r)" by blast
  with Cons it show ?case by (cases r) (auto simp: Let_def)
qed simp

text \<open>A signal is never lost: the loop does not go on polling once one has been handled.\<close>

lemma shutdown_signals: "(shutdown_handler ^^ n) True \<longleftrightarrow> n = 0"
  by (cases n) (simp_all add: shutdown_handler_def)

lemma main_loop_polling:
  "main_loop env ipc True its s = Some (Polling t) \<Longrightarrow> \<forall>(n, inp) \<in> set its. n = 0"
proof (induction its arbitrary: s)
  case (Cons it its)
  then show ?case
    by (cases it) (auto simp: Let_def shutdown_signals split: if_splits option.splits nl_run.splits)
qed simp

lemma core_init_inv:
  "\<exists>r. wlan_core_init env inp ifname wlinkd_start = Some r \<and> wlinkd_inv (snd (run_state r))"
proof -
  let ?s1 = "wlinkd_start\<lparr>g_wlan_core_ifname := strncpy (g_wlan_core_ifname wlinkd_start) ifname (IFNAMSIZ - 1),
    stas := wlan_sta_mgr_init (stas wlinkd_start)\<rparr>"
  have "stas wlinkd_start = wlan_sta_mgr_init (stas wlinkd_start)"
    by (simp add: wlinkd_start_def sta_mgr_start_def wlan_sta_mgr_init_def)
  then have "?s1 = wlinkd_start\<lparr>g_wlan_core_ifname :=
      strncpy (g_wlan_core_ifname wlinkd_start) ifname (IFNAMSIZ - 1)\<rparr>" by simp
  then have s1: "wlinkd_inv ?s1" using wlinkd_inv_setup(6) [OF wlinkd_start_inv, of ifname] by simp
  have "\<not> g_req_sock ?s1" "\<not> g_event_sock ?s1" by (simp_all add: wlinkd_start_def)
  from nl80211_init_inv [OF s1 this] obtain r where
    "wlan_nl80211_init env inp ifname ?s1 = Some r" "wlinkd_inv (snd (run_state r))"
    by (cases "setup_fails inp") fastforce+
  then show ?thesis
    by (cases r) (auto simp: wlan_core_init_def Let_def split: prod.split)
qed

lemma core_close_inv:
  assumes "wlinkd_inv s"
  shows "\<exists>t. wlan_core_close s = Some t \<and> parts_ok t \<and> names t = {} \<and> nl_live t = 0 \<and> ipcs t = ipcs s"
proof -
  let ?s1 = "wlan_libnl_close s"
  have s1: "wlinkd_inv ?s1" "nl_live ?s1 = 0" "stas ?s1 = stas s" "ipcs ?s1 = ipcs s"
    using libnl_close_inv [OF assms] libnl_close_live [OF assms]
    by (simp_all add: wlan_libnl_close_def Let_def)
  from s1(1) have "sta_inv (stas ?s1)" by (simp add: wlinkd_inv_def parts_ok_def)
  from wlan_sta_mgr_clear_eq [OF this] obtain st where
    "wlan_sta_mgr_clear (stas ?s1) = Some st" "sta_inv st" "sta_views st = []" by blast
  with s1 show ?thesis
    by (simp add: wlan_core_close_def wlan_nl80211_deinit_def Let_def wlinkd_inv_def parts_stas)
qed

lemma ipc_close_all_closed:
  assumes "ipc_inv i" "fd_ledger i"
  shows "opened (ipc_trace (ipc_close os i)) = closed (ipc_trace (ipc_close os i))"
  using ipc_close_ledger [OF assms, of os] ipc_close_inv(2,3) [OF assms(1), of os]
  by (simp add: fd_ledger_def server_fds_def)

lemma wlinkd_main_outcome:
  assumes os: "recv_bounded (ipc_sys env)"
  shows "\<exists>out. wlinkd_main env inp opts wlinkd_start = Some out \<and>
     (\<forall>l ws. out = Running l ws \<longrightarrow> wlinkd_inv (loop_daemon l)) \<and>
     (\<forall>l ws. out = Running l ws \<longrightarrow> (\<exists>t. l = Stuck t) \<or> (\<forall>(n, p) \<in> set (iterations inp). n = 0)) \<and>
     (\<forall>t ws. out = Exited 0 t ws \<longrightarrow> parts_ok t \<and> names t = {} \<and> nl_live t = 0 \<and>
        main_opened ws = main_closed ws \<and> (\<exists>pre. ws = pre @ led_off (led_fd_end inp)) \<and>
        (map_option cfg_ipc opts = Some True \<longrightarrow> opened (ipc_trace (ipcs t)) = closed (ipc_trace (ipcs t))))"
proof (cases opts)
  case None
  then show ?thesis by (simp add: wlinkd_main_def usage_def)
next
  case (Some cfg)
  from core_init_inv obtain r where
    r: "wlan_core_init env (core_init inp) (cfg_ifname cfg) wlinkd_start = Some r" "wlinkd_inv (snd (run_state r))"
    by blast
  show ?thesis
  proof (cases r)
    case (Waiting x)
    with Some r show ?thesis by (cases x) (simp add: wlinkd_main_def)
  next
    case (Returned e x)
    obtain fd t where x: "x = (fd, t)" by (cases x)
    have t: "wlinkd_inv t" using r(2) Returned x by simp
    obtain q u where u: "(if cfg_ipc cfg
        then let (r, i) = ipc_init (ipc_sys env) None (ipcs t) in (r, t\<lparr>ipcs := i\<rparr>) else (0, t)) = (q, u)"
      by (meson surj_pair)
    have uinv: "wlinkd_inv u"
      using u t ipc_init_inv [of "ipcs t" "ipc_sys env" None] ipc_init_ledger [of "ipcs t" "ipc_sys env" None]
        ipc_init_deliver [of "pushes t" "ipcs t" "ipc_sys env" None]
      by (auto simp: Let_def wlinkd_inv_def parts_ok_def led_ok_def names_def split: if_splits prod.splits)
    from main_loop_inv [OF uinv os] obtain l where
      l: "main_loop env (cfg_ipc cfg) True (iterations inp) u = Some l" "wlinkd_inv (loop_daemon l)" by blast
    define w where "w = (if cfg_ipc cfg then (loop_daemon l)\<lparr>ipcs := ipc_close (ipc_sys env) (ipcs (loop_daemon l))\<rparr>
      else loop_daemon l)"
    have li: "ipc_inv (ipcs (loop_daemon l))" "fd_ledger (ipcs (loop_daemon l))"
      using l(2) by (simp_all add: wlinkd_inv_def parts_ok_def)
    have ld: "push_marks (ipc_trace (ipcs (loop_daemon l))) = pushes (loop_daemon l)"
      using l(2) by (simp add: wlinkd_inv_def parts_ok_def deliver_ok_def)
    have winv: "wlinkd_inv w" unfolding w_def
      using l(2) ipc_close_inv(1,2) [OF li(1)] ipc_close_ledger [OF li] ipc_close_marks [of "ipc_sys env" "ipcs (loop_daemon l)"] ld
      by (auto intro!: wlinkd_inv_ipcs deliver_none)
    from core_close_inv [OF uinv] obtain v where v: "wlan_core_close u = Some v" by blast
    from core_close_inv [OF winv] obtain z where
      z: "wlan_core_close w = Some z" "parts_ok z" "names z = {}" "nl_live z = 0" "ipcs z = ipcs w" by blast
    have fin: "cfg_ipc cfg \<longrightarrow> opened (ipc_trace (ipcs z)) = closed (ipc_trace (ipcs z))"
      using ipc_close_all_closed [OF li] z(5) by (simp add: w_def)
    show ?thesis
      using Some r(1) Returned x u v l z fin main_loop_polling [of env "cfg_ipc cfg" "iterations inp" u]
      by (cases l) (auto simp: wlinkd_main_def Let_def w_def led_off_closes split: if_splits)
  qed
qed

section \<open>A sample run\<close>

text \<open>
  A system where everything succeeds, an access point on interface 3 and one iteration of the
  loop that sees a request without data and a station join; used to run the daemon below.
\<close>

lemma ipc_dump_run:
  assumes "wlinkd_inv s" "fd = os (ipc_trace (ipcs s)) (Accept (g_server_fd (ipcs s)))" "0 \<le> fd"
    and "h1 = ipc_trace (ipcs s) @ [(Accept (g_server_fd (ipcs s)), fd)]"
    and "n = os h1 (Recv fd 255)" "0 < n" "n \<le> 255" "cstr (take (nat n) rx) = ''WLAN_DUMP''"
  shows "\<exists>r q. ipc_handler os rx s = Some (s\<lparr>ipcs := (ipcs s)\<lparr>ipc_trace := h1 @
      [(Recv fd 255, n), (Send fd (take 4095 (status_text s)), r), (Close fd, q)]\<rparr>\<rparr>)"
proof -
  have "sta_inv (stas s)" using assms(1) by (simp add: wlinkd_inv_def parts_ok_def)
  from build_status_holds [OF this, of IPC_BUFFER_SIZE "replicate IPC_BUFFER_SIZE NUL"] obtain buf where
    buf: "wlan_core_build_status (replicate IPC_BUFFER_SIZE NUL) IPC_BUFFER_SIZE s = Some buf"
      "cstr buf = take 4095 (status_text s)"
    by (auto simp: IPC_BUFFER_SIZE_def holds_def)
  have reply: "ipc_reply (cstr (take (nat n) rx)) s = Some buf"
    unfolding ipc_reply_def Let_def assms(8) using buf(1) by simp
  have "\<not> strncmp_eq (cstr (take (nat n) rx)) ''SUBSCRIBE'' 9" unfolding assms(8) by code_simp
  with ipc_handler_run [OF assms(2,4,5,7) refl reply] assms(3,6) show ?thesis
    by (simp add: log_call buf(2)) blast
qed

definition sample_env :: system where
  "sample_env = \<lparr>malloc_ok = (\<lambda>_. True), time_now = (\<lambda>_. 7), ifaddr_list = (\<lambda>_. None),
     ipc_sys = (\<lambda>_ _. 0)\<rparr>"

definition sample_refresh :: refresh_input where
  "sample_refresh = \<lparr>msg1_alloc = False, interface_reply = complete_reply [] [], msg2_alloc = False,
     station_reply = complete_reply [] []\<rparr>"

definition sample_poll :: poll_input where
  "sample_poll = \<lparr>poll_result = 1, poll_eintr = False, ipc_ready = True, ipc_rx = [], nl_ready = True,
     nl_events = [\<lparr>cmd = 19, attr_ifindex = Some 3, attr_mac = Some (2, 0, 0, 0, 0, 1),
       attr_ifname = None, attr_freq = None, attr_width = None, attr_iftype = None, attr_sta_info = None\<rparr>],
     timer_ready = False, timer_read = 0, refresh_data = sample_refresh\<rparr>"

definition sample_main :: "(nat \<times> poll_input) list \<Rightarrow> main_input" where
  "sample_main its = \<lparr>core_init = \<lparr>if_nametoindex = 3, req_alloc = True, req_connect = 0, family_id = 20,
     event_alloc = True, event_connect = 0, event_fd = 5, first_refresh = sample_refresh\<rparr>,
     timer_fd = 6, tcp_create = 0, led_fd_start = 7, led_fd_end = 7, iterations = its\<rparr>"

definition sample_config :: config where
  "sample_config = \<lparr>cfg_ifname = ''wlan0'', cfg_ipc = True, cfg_debug = 0, cfg_log_file = None\<rparr>"

lemma sample_recv: "recv_bounded (ipc_sys sample_env)"
  by (simp add: recv_bounded_def sample_env_def)

text \<open>The same with a client that subscribes before the station joins.\<close>

definition chain_env :: system where
  "chain_env = sample_env\<lparr>ipc_sys := (\<lambda>_ c. case c of
     Socket \<Rightarrow> 3 | Accept _ \<Rightarrow> 4 | Recv _ n \<Rightarrow> min 10 (int n) | _ \<Rightarrow> 0)\<rparr>"

definition chain_polls :: "(nat \<times> poll_input) list" where
  "chain_polls = [(0, sample_poll\<lparr>nl_ready := False, ipc_rx := ''SUBSCRIBE'' @ [newline]\<rparr>),
     (0, sample_poll\<lparr>ipc_ready := False\<rparr>)]"

lemma chain_recv: "recv_bounded (ipc_sys chain_env)"
  by (simp add: recv_bounded_def chain_env_def)

lemma chain_run:
  obtains l ws where "wlinkd_main chain_env (sample_main chain_polls) (Some sample_config) wlinkd_start = Some (Running l ws)"
    "sta_views (stas (loop_daemon l)) \<noteq> []" "fresh_fds (ipc_trace (ipcs (loop_daemon l)))"
    "subscribers (ipcs (loop_daemon l)) = [4]"
    "sent_to 4 (ipc_trace (ipcs (loop_daemon l))) = [ipc_ok_msg, sta_join_msg]"
proof -
  have "case wlinkd_main chain_env (sample_main chain_polls) (Some sample_config) wlinkd_start of
      Some (Running l ws) \<Rightarrow> sta_views (stas (loop_daemon l)) \<noteq> [] \<and> fresh_fds (ipc_trace (ipcs (loop_daemon l))) \<and>
        subscribers (ipcs (loop_daemon l)) = [4] \<and>
        sent_to 4 (ipc_trace (ipcs (loop_daemon l))) = [ipc_ok_msg, sta_join_msg]
    | _ \<Rightarrow> False"
    by code_simp
  then show thesis using that by (auto split: option.splits outcome.splits)
qed

section \<open>Properties\<close>

text \<open>
  C2. The main thread of the daemon never crashes and its LED messages track the table: from start-up, for
  every system behaviour, every option, every sequence of readiness, requests, netlink messages and
  refreshes, the main thread reaches a well-defined state; while it runs, the \<open>sta_join\<close>,
  \<open>sta_leave\<close> and \<open>traffic\<close> messages pushed so far leave the LED lit exactly when the station table is not
  empty, and every descriptor the UNIX socket server (\<open>ipc.c\<close>) got from \<open>socket\<close> or \<open>accept\<close> is closed,
  registered as a push client or the listening socket. The timer, the netlink sockets and the sockets of
  the TCP thread are not in this ledger.
\<close>

theorem wlinkd_led_tracks_table:
  assumes "recv_bounded (ipc_sys env)"
  shows "\<exists>out. wlinkd_main env inp opts wlinkd_start = Some out \<and>
     (\<forall>l ws. out = Running l ws \<longrightarrow>
        (led_on (pushes (loop_daemon l)) \<longleftrightarrow> names (loop_daemon l) \<noteq> {}) \<and>
        fd_ledger (ipcs (loop_daemon l)) \<and> ipc_inv (ipcs (loop_daemon l)) \<and>
        sta_inv (stas (loop_daemon l)))"
  using wlinkd_main_outcome [OF assms, of inp opts]
  by (elim exE conjE) (auto simp: wlinkd_inv_def led_ok_def parts_ok_def)

theorem wlinkd_led_tracks_table_witness:
  "\<exists>l ws. wlinkd_main sample_env (sample_main [(0, sample_poll)]) (Some sample_config) wlinkd_start =
      Some (Running l ws) \<and> (led_on (pushes (loop_daemon l)) \<longleftrightarrow> names (loop_daemon l) \<noteq> {}) \<and>
     map fst (sta_views (stas (loop_daemon l))) = [''02:00:00:00:00:01'']"
proof -
  let ?out = "wlinkd_main sample_env (sample_main [(0, sample_poll)]) (Some sample_config) wlinkd_start"
  have run: "case ?out of
      Some (Running l ws) \<Rightarrow> map fst (sta_views (stas (loop_daemon l))) = [''02:00:00:00:00:01'']
    | _ \<Rightarrow> False"
    by code_simp
  from wlinkd_led_tracks_table [OF sample_recv, of "sample_main [(0, sample_poll)]" "Some sample_config"]
  obtain out where out: "?out = Some out" "\<forall>l ws. out = Running l ws \<longrightarrow>
      (led_on (pushes (loop_daemon l)) \<longleftrightarrow> names (loop_daemon l) \<noteq> {})" by blast
  with run show ?thesis by (cases out) auto
qed

text \<open>
  C16. The daemon's data keep their shape: for every behaviour of the system and every sequence of
  events no step reads or writes outside its data, and in every state it runs in the station list is a
  well-formed list of distinct terminated names without a leaked cell, the table of push clients
  has its eight entries and counts at most eight, all of them descriptors, the buffers of the access
  point and of the interface names have their declared sizes and end in a terminator, and the netlink sockets
  that exist are the ones recorded.
\<close>

theorem wlinkd_state_well_formed:
  assumes "recv_bounded (ipc_sys env)"
  shows "\<exists>out. wlinkd_main env inp opts wlinkd_start = Some out \<and>
    (\<forall>l ws. out = Running l ws \<longrightarrow>
       (\<exists>as. sta_rep (stas (loop_daemon l)) as) \<and>
       length (g_push_fds (ipcs (loop_daemon l))) = 8 \<and> g_push_count (ipcs (loop_daemon l)) \<le> 8 \<and>
       (\<forall>fd \<in> set (subscribers (ipcs (loop_daemon l))). 0 \<le> fd) \<and>
       ap_info_wf (g_ap_info (loop_daemon l)) \<and> terminated IFNAMSIZ (g_wlan_ifname (loop_daemon l)) \<and>
       terminated IFNAMSIZ (g_wlan_core_ifname (loop_daemon l)) \<and>
       nl_live (loop_daemon l) = of_bool (g_event_sock (loop_daemon l)) + of_bool (g_req_sock (loop_daemon l)))"
proof -
  from wlinkd_main_outcome [OF assms, of inp opts] obtain out where
    "wlinkd_main env inp opts wlinkd_start = Some out" "\<forall>l ws. out = Running l ws \<longrightarrow> wlinkd_inv (loop_daemon l)"
    by blast
  then show ?thesis
    by (intro exI [of _ out]) (auto simp: wlinkd_inv_def parts_ok_def ipc_inv_def sta_inv_def IPC_MAX_PUSH_CLIENTS_def)
qed

theorem wlinkd_state_well_formed_witness:
  "\<exists>l ws as. wlinkd_main chain_env (sample_main chain_polls) (Some sample_config) wlinkd_start = Some (Running l ws) \<and>
     sta_rep (stas (loop_daemon l)) as \<and> length (g_push_fds (ipcs (loop_daemon l))) = 8 \<and>
     terminated IFNAMSIZ (g_wlan_ifname (loop_daemon l))"
proof -
  obtain l ws where l: "wlinkd_main chain_env (sample_main chain_polls) (Some sample_config) wlinkd_start = Some (Running l ws)"
    by (rule chain_run)
  with wlinkd_state_well_formed [OF chain_recv, of "sample_main chain_polls" "Some sample_config"] show ?thesis by auto
qed

text \<open>
  C14. A push client loses nothing: at every moment of every run of the daemon's main thread, a registered client
  has been sent the answer to its subscription, if that could be sent, followed by every message
  handed to \<open>ipc_push_event\<close> since its connection was accepted, each once and in order; these are the latest
  ones of all messages pushed. It is assumed that \<open>recv\<close> respects its size and that the system hands out no
  descriptor that is still open.
\<close>

theorem subscribers_lose_nothing:
  assumes "recv_bounded (ipc_sys env)" "wlinkd_main env inp opts wlinkd_start = Some (Running l ws)"
    and "h = ipc_trace (ipcs (loop_daemon l))" "fresh_fds h" "fd \<in> set (subscribers (ipcs (loop_daemon l)))"
  shows "(sent_to fd h = owed fd h \<or> sent_to fd h = ipc_ok_msg # owed fd h) \<and>
    suffix (owed fd h) (pushes (loop_daemon l)) \<and> push_marks h = pushes (loop_daemon l)"
proof -
  have i: "wlinkd_inv (loop_daemon l)" using wlinkd_main_outcome [OF assms(1), of inp opts] assms(2) by auto
  then have "push_marks h = pushes (loop_daemon l)" by (simp add: assms(3) wlinkd_inv_def parts_ok_def deliver_ok_def)
  with wlinkd_delivers [OF i] assms(3-5) show ?thesis by (simp add: got_all_def)
qed

theorem subscribers_lose_nothing_witness:
  "\<exists>l ws. wlinkd_main chain_env (sample_main chain_polls) (Some sample_config) wlinkd_start = Some (Running l ws) \<and>
     sent_to 4 (ipc_trace (ipcs (loop_daemon l))) = [ipc_ok_msg, sta_join_msg] \<and>
     owed 4 (ipc_trace (ipcs (loop_daemon l))) = [sta_join_msg]"
proof -
  obtain l ws where l: "wlinkd_main chain_env (sample_main chain_polls) (Some sample_config) wlinkd_start = Some (Running l ws)"
    "fresh_fds (ipc_trace (ipcs (loop_daemon l)))" "subscribers (ipcs (loop_daemon l)) = [4]"
    "sent_to 4 (ipc_trace (ipcs (loop_daemon l))) = [ipc_ok_msg, sta_join_msg]"
    by (rule chain_run)
  have "ipc_ok_msg \<notin> set (pushes (loop_daemon l))"
    using wlinkd_main_outcome [OF chain_recv, of "sample_main chain_polls" "Some sample_config"] l(1)
      wlinkd_inv_msgs ok_no_led_msg by auto
  moreover have "(sent_to 4 (ipc_trace (ipcs (loop_daemon l))) = owed 4 (ipc_trace (ipcs (loop_daemon l))) \<or>
      sent_to 4 (ipc_trace (ipcs (loop_daemon l))) = ipc_ok_msg # owed 4 (ipc_trace (ipcs (loop_daemon l)))) \<and>
      suffix (owed 4 (ipc_trace (ipcs (loop_daemon l)))) (pushes (loop_daemon l))"
    using subscribers_lose_nothing [OF chain_recv l(1) refl l(2), of 4] l(3) by simp
  ultimately have "owed 4 (ipc_trace (ipcs (loop_daemon l))) = [sta_join_msg]"
    unfolding l(4) by (metis list.inject list.set_intros(1) set_mono_suffix subsetD)
  with l(1,4) show ?thesis by blast
qed

text \<open>
  C13. A shutdown signal ends the daemon's loop and a clean end releases what the main thread took: once
  \<open>SIGTERM\<close>, \<open>SIGINT\<close> or \<open>SIGHUP\<close> has been handled before some test of the loop, the daemon is not polling any more,
  it has exited or a refresh still waits for its answer; and when the daemon with its UNIX socket ends
  with status 0, every socket of the UNIX socket server has been closed exactly once, and so have the
  descriptors of the timer and of the LED device, both netlink sockets are freed, the station list is empty with no
  cell leaked, and the last thing done to the LED device, if it can be opened then, is to tell it to go dark.
  The sockets of the TCP thread are not closed by the code, only by the end of the process.
\<close>

theorem wlinkd_shutdown_releases:
  assumes "recv_bounded (ipc_sys env)" "cfg_ipc cfg" "(n, p) \<in> set (iterations inp)" "0 < n"
  shows "\<exists>out. wlinkd_main env inp (Some cfg) wlinkd_start = Some out \<and>
     (\<forall>l ws. out = Running l ws \<longrightarrow> (\<exists>t. l = Stuck t)) \<and>
     (\<forall>t ws. out = Exited 0 t ws \<longrightarrow>
        opened (ipc_trace (ipcs t)) = closed (ipc_trace (ipcs t)) \<and> main_opened ws = main_closed ws \<and> nl_live t = 0 \<and>
        sta_inv (stas t) \<and> sta_views (stas t) = [] \<and>
        (0 \<le> led_fd_end inp \<longrightarrow>
          (\<exists>pre. ws = pre @ [Led_open (led_fd_end inp), Led_write LED_OFF, Fd_close (led_fd_end inp)])))"
proof -
  from wlinkd_main_outcome [OF assms(1), of inp "Some cfg"] obtain out where
    "wlinkd_main env inp (Some cfg) wlinkd_start = Some out" and
    run: "\<forall>l ws. out = Running l ws \<longrightarrow> (\<exists>t. l = Stuck t) \<or> (\<forall>(n, p) \<in> set (iterations inp). n = 0)" and
    "\<forall>t ws. out = Exited 0 t ws \<longrightarrow> parts_ok t \<and> names t = {} \<and> nl_live t = 0 \<and>
        main_opened ws = main_closed ws \<and> (\<exists>pre. ws = pre @ led_off (led_fd_end inp)) \<and>
        (map_option cfg_ipc (Some cfg) = Some True \<longrightarrow> opened (ipc_trace (ipcs t)) = closed (ipc_trace (ipcs t)))"
    by blast
  moreover have "\<forall>l ws. out = Running l ws \<longrightarrow> (\<exists>t. l = Stuck t)" using run assms(3,4) by fastforce
  ultimately show ?thesis
    using assms(2) by (intro exI [of _ out]) (auto simp: parts_ok_def names_def led_off_def)
qed

theorem wlinkd_shutdown_releases_witness:
  "\<exists>t ws pre. wlinkd_main sample_env (sample_main [(0, sample_poll), (1, sample_poll)])
       (Some sample_config) wlinkd_start = Some (Exited 0 t ws) \<and> nl_live t = 0 \<and> main_opened ws = main_closed ws \<and>
     opened (ipc_trace (ipcs t)) = closed (ipc_trace (ipcs t)) \<and> sta_views (stas t) = [] \<and>
     ws = pre @ [Led_open 7, Led_write LED_OFF, Fd_close 7]"
proof -
  let ?inp = "sample_main [(0, sample_poll), (1, sample_poll)]"
  have run: "case wlinkd_main sample_env ?inp (Some sample_config) wlinkd_start of
      Some (Exited e t ws) \<Rightarrow> e = 0 | _ \<Rightarrow> False"
    by code_simp
  moreover have "cfg_ipc sample_config" "led_fd_end ?inp = 7" "(1, sample_poll) \<in> set (iterations ?inp)"
    by (simp_all add: sample_config_def sample_main_def)
  ultimately show ?thesis
    using wlinkd_shutdown_releases [OF sample_recv, of sample_config 1 sample_poll ?inp]
    by (auto split: option.splits outcome.splits)
qed

text \<open>
  The usage text leaves out an option the daemon accepts, \<open>f\<close>, and shows an argument for \<open>s\<close>, which takes
  none: a path given after it is skipped and the default path is used.
\<close>

lemma usage_incomplete:
  "documented (fst usage) = ''hdis'' \<and> accepted ''hi:df:s'' = ''hidfs'' \<and>
   wlinkd_options 3 1 [''-s'', ''/tmp/other.sock''] = wlinkd_options 3 1 [''-s'']"
  by (intro conjI; code_simp)

text \<open>
  A dump request is answered with the status report: the daemon accepts, reads, sends the
  report cut to 4095 bytes and closes the connection, in this order and with nothing in between;
  no other part of its state changes.
\<close>

lemma ipc_dump_answered:
  assumes "wlinkd_inv s" "fd = os (ipc_trace (ipcs s)) (Accept (g_server_fd (ipcs s)))" "0 \<le> fd"
    and "h1 = ipc_trace (ipcs s) @ [(Accept (g_server_fd (ipcs s)), fd)]"
    and "n = os h1 (Recv fd 255)" "0 < n" "n \<le> 255" "cstr (take (nat n) rx) = ''WLAN_DUMP''"
  shows "\<exists>r q. ipc_handler os rx s = Some (s\<lparr>ipcs := (ipcs s)\<lparr>ipc_trace := h1 @
      [(Recv fd 255, n), (Send fd (take 4095 (status_text s)), r), (Close fd, q)]\<rparr>\<rparr>)"
  using assms by (rule ipc_dump_run)

definition sample_os :: ipc_os where
  "sample_os h c = (case c of Accept _ \<Rightarrow> 4 | Recv _ _ \<Rightarrow> 9 | _ \<Rightarrow> 0)"

lemma ipc_dump_answered_example:
  "\<exists>r q. ipc_handler sample_os (''WLAN_DUMP'' @ [NUL]) wlinkd_start =
     Some (wlinkd_start\<lparr>ipcs := (ipcs wlinkd_start)\<lparr>ipc_trace := [(Accept (-1), 4), (Recv 4 255, 9),
       (Send 4 (take 4095 (status_text wlinkd_start)), r), (Close 4, q)]\<rparr>\<rparr>)"
  using ipc_dump_answered [OF wlinkd_start_inv, of 4 sample_os "[(Accept (-1), 4)]" 9 "''WLAN_DUMP'' @ [NUL]"]
  by (simp add: sample_os_def wlinkd_start_def ipc_start_def cbuf)

text \<open>
  Subscription: a client whose request begins with \<open>SUBSCRIBE\<close> is appended to the push
  clients and stays open while fewer than eight are registered; with eight it is told so and
  closed and the list is unchanged, so the array is never written past its end.
\<close>

lemma ipc_subscribe_bounded:
  assumes "wlinkd_inv s" "fd = os (ipc_trace (ipcs s)) (Accept (g_server_fd (ipcs s)))" "0 \<le> fd"
    and "h1 = ipc_trace (ipcs s) @ [(Accept (g_server_fd (ipcs s)), fd)]"
    and "n = os h1 (Recv fd 255)" "0 < n" "n \<le> 255" "take 9 (cstr (take (nat n) rx)) = ''SUBSCRIBE''"
  shows "\<exists>t. ipc_handler os rx s = Some t \<and> wlinkd_inv t \<and>
     (if length (subscribers (ipcs s)) < 8
      then subscribers (ipcs t) = subscribers (ipcs s) @ [fd] \<and>
           fst (last (ipc_trace (ipcs t))) = Send fd (''OK'' @ [newline])
      else subscribers (ipcs t) = subscribers (ipcs s) \<and> fst (last (ipc_trace (ipcs t))) = Close fd)"
proof -
  have i: "ipc_inv (ipcs s)" "fd_ledger (ipcs s)" "deliver_ok (pushes s) (ipcs s)"
    using assms(1) by (simp_all add: wlinkd_inv_def parts_ok_def)
  then have len: "length (subscribers (ipcs s)) = g_push_count (ipcs s)"
    by (simp add: subscribers_def ipc_inv_def)
  obtain buf where buf: "ipc_reply (cstr (take (nat n) rx)) s = Some buf"
    using ipc_reply_some [OF assms(1)] by blast
  have sub: "strncmp_eq (cstr (take (nat n) rx)) ''SUBSCRIBE'' 9"
    unfolding strncmp_eq_def assms(8) by simp
  have close: "wlinkd_inv (s\<lparr>ipcs := (ipcs s)\<lparr>ipc_trace := h1 @ [(Recv fd 255, n), (Send fd m, r), (Close fd, q)]\<rparr>\<rparr>)"
    for m r q
    using i assms(3,4) deliver_request(1) [OF i(3,1,2), of fd "[(Recv fd 255, n), (Send fd m, r), (Close fd, q)]"
        "g_server_fd (ipcs s)"]
    by (intro wlinkd_inv_ipcs assms(1) ledger_trace [where x = "{#fd#}"]) simp_all
  note run = ipc_handler_run [OF assms(2,4,5,7) refl buf]
  show ?thesis
  proof (cases "g_push_count (ipcs s) < IPC_MAX_PUSH_CLIENTS")
    case True
    note reg = register_inv [OF i(1) assms(3) True]
    have "wlinkd_inv (s\<lparr>ipcs := (ipcs s)\<lparr>g_push_fds := (g_push_fds (ipcs s))[g_push_count (ipcs s) := fd],
        g_push_count := Suc (g_push_count (ipcs s)), ipc_trace := h1 @ [(Recv fd 255, n), (Send fd ipc_ok_msg, r)]\<rparr>\<rparr>)" for r
      using i assms(3,4) reg
      by (intro wlinkd_inv_ipcs assms(1) deliver_request(2) [OF i(3,1,2), where g = "g_server_fd (ipcs s)"])
        (simp_all add: fd_ledger_def server_fds_def)
    with run True sub assms(3,6) len reg show ?thesis
      by (simp add: log_call IPC_MAX_PUSH_CLIENTS_def ipc_ok_msg_def)
  next
    case False
    with run sub assms(3,6) len close show ?thesis
      by (simp add: log_call IPC_MAX_PUSH_CLIENTS_def subscribers_def)
  qed
qed

lemma ipc_subscribe_bounded_example:
  "\<exists>t. ipc_handler sample_os ''SUBSCRIBE'' wlinkd_start = Some t \<and> subscribers (ipcs t) = [4]"
  using ipc_subscribe_bounded [OF wlinkd_start_inv, of 4 sample_os "[(Accept (-1), 4)]" 9 "''SUBSCRIBE''"]
  by (force simp: sample_os_def wlinkd_start_def ipc_start_def subscribers_def cbuf)

end
