(* ===== verification/Status_Race.thy ===== *)
theory Status_Race
  imports Wlan_Core
begin

text \<open>
  A client thread of \<open>wlinkd/src/tcp_server.c\<close> that answers \<open>status\<close>: it runs the station loop of
  \<open>wlan_core_build_status\<close> with no lock, while the main thread adds, updates and removes stations. The
  loop is cut into its two reads of a cell, of the fields and of \<open>next\<close>; an operation of the main thread is
  one step. \<open>sz\<close> is the size of the buffer, 2048 for a TCP client.
\<close>

section \<open>The two threads\<close>

datatype status_pc = At_fields nat | At_next nat | Status_done

text \<open>\<open>status_seen\<close> is history: the fields of the stations as they were printed, in order.\<close>

record status_race =
  table :: sta_mgr
  status_pc :: status_pc
  status_buf :: cbuffer
  status_pos :: nat
  status_seen :: "sta_view list"

fun go_to :: "nat option \<Rightarrow> status_pc" where
  "go_to None = Status_done"
| "go_to (Some a) = At_fields a"

text \<open>The head of the list has been read and the part of the report before the stations, up to \<open>pos\<close>, printed.\<close>

definition status_begin :: "cbuffer \<Rightarrow> nat \<Rightarrow> sta_mgr \<Rightarrow> status_race" where
  "status_begin buf pos st = \<lparr>table = st, status_pc = go_to (sta_mgr_head st), status_buf = buf, status_pos = pos, status_seen = []\<rparr>"

text \<open>One access of the client thread; \<open>None\<close>: the cell has been freed.\<close>

definition status_reads :: "nat \<Rightarrow> status_race \<Rightarrow> status_race option" where
  "status_reads sz s =
     (case status_pc s of
        At_fields a \<Rightarrow>
          if \<not> status_pos s < sz then Some (s\<lparr>status_pc := Status_done\<rparr>)
          else (case deref (table s) a of
                  None \<Rightarrow> None
                | Some n \<Rightarrow>
                    let text = sta_text (view n);
                        s1 = s\<lparr>status_buf := snprintf_at (status_buf s) (status_pos s) sz text,
                               status_seen := status_seen s @ [view n]\<rparr> in
                    if length text \<ge> sz - status_pos s then Some (s1\<lparr>status_pc := Status_done\<rparr>)
                    else Some (s1\<lparr>status_pc := At_next a, status_pos := status_pos s + length text\<rparr>))
      | At_next a \<Rightarrow> map_option (\<lambda>n. s\<lparr>status_pc := go_to (sta_next n)\<rparr>) (deref (table s) a)
      | Status_done \<Rightarrow> Some s)"

text \<open>The second argument says whether the main thread removes stations.\<close>

inductive race_step :: "nat \<Rightarrow> bool \<Rightarrow> status_race \<Rightarrow> status_race \<Rightarrow> bool" for sz rm where
  reads: "status_reads sz s = Some t \<Longrightarrow> race_step sz rm s t"
| adds: "wlan_sta_mgr_add mok now b (table s) = Some (r, st) \<Longrightarrow> race_step sz rm s (s\<lparr>table := st\<rparr>)"
| updates: "wlan_sta_mgr_find b (table s) = Some (Some a) \<Longrightarrow>
     race_step sz rm s (s\<lparr>table := write_stats (table s) a rs pk\<rparr>)"
| removes: "rm \<Longrightarrow> wlan_sta_mgr_remove b (table s) = Some (r, st) \<Longrightarrow> race_step sz rm s (s\<lparr>table := st\<rparr>)"

section \<open>Cells that stay\<close>

definition same_cell :: "station \<Rightarrow> station \<Rightarrow> bool" where
  "same_cell n n' \<longleftrightarrow> bssid n' = bssid n \<and> sta_next n' = sta_next n"

text \<open>All cells of the first table are still there, with their BSSID and their \<open>next\<close>.\<close>

definition keeps :: "sta_mgr \<Rightarrow> sta_mgr \<Rightarrow> bool" where
  "keeps st st' \<longleftrightarrow> (\<forall>a n. deref st a = Some n \<longrightarrow> (\<exists>n'. deref st' a = Some n' \<and> same_cell n n'))"

lemma keeps_refl: "keeps st st"
  by (auto simp: keeps_def same_cell_def)

lemma keeps_trans: "keeps a b \<Longrightarrow> keeps b c \<Longrightarrow> keeps a c"
  unfolding keeps_def same_cell_def by metis

lemma add_keeps: "wlan_sta_mgr_add mok now b st = Some (r, st') \<Longrightarrow> keeps st st'"
  by (auto simp: wlan_sta_mgr_add_def keeps_def same_cell_def deref_def nth_append Let_def
      split: option.splits if_splits)

lemma find_live: "wlan_sta_mgr_find b st = Some (Some a) \<Longrightarrow> deref st a \<noteq> None"
proof -
  have "\<forall>a. r = Some a \<longrightarrow> deref s a \<noteq> None" if "find_loop s cur c = Some r" for s cur c r
    by (rule find_loop.raw_induct [where P = "\<lambda>s cur c r. \<forall>a. r = Some a \<longrightarrow> deref s a \<noteq> None", OF _ that])
      (auto split: option.splits if_splits)
  then show "wlan_sta_mgr_find b st = Some (Some a) \<Longrightarrow> deref st a \<noteq> None"
    by (simp add: wlan_sta_mgr_find_def)
qed

lemma update_keeps:
  assumes "wlan_sta_mgr_find b st = Some (Some a)"
  shows "keeps st (write_stats st a rs pk)"
proof -
  from find_live [OF assms] obtain n where n: "deref st a = Some n" by blast
  with deref_bound [OF n] show ?thesis
    by (auto simp: keeps_def same_cell_def write_stats_def node_def)
qed

section \<open>The walk without removals\<close>

text \<open>
  \<open>as\<close> are the cells of the list when the client thread read its head, \<open>x\<close> the text before the stations.
\<close>

definition printed :: "string \<Rightarrow> status_race \<Rightarrow> string" where
  "printed x s = x @ concat (map sta_text (status_seen s))"

definition walk_names :: "sta_mgr \<Rightarrow> nat list \<Rightarrow> bool \<Rightarrow> status_race \<Rightarrow> bool" where
  "walk_names st as full s \<longleftrightarrow>
     (case status_pc s of
        At_fields a \<Rightarrow> (\<exists>xs ys. as = xs @ a # ys \<and> map fst (status_seen s) = map (sta_name st) xs)
      | At_next a \<Rightarrow> (\<exists>xs ys. as = xs @ a # ys \<and> map fst (status_seen s) = map (sta_name st) (xs @ [a]))
      | Status_done \<Rightarrow> (\<exists>xs ys. as = xs @ ys \<and> map fst (status_seen s) = map (sta_name st) xs \<and> (full \<or> ys = [])))"

definition walk_inv :: "nat \<Rightarrow> string \<Rightarrow> sta_mgr \<Rightarrow> nat list \<Rightarrow> status_race \<Rightarrow> bool" where
  "walk_inv sz x st as s \<longleftrightarrow> keeps st (table s) \<and> walk_names st as (sz \<le> length (printed x s)) s \<and>
     holds (status_buf s) sz (printed x s) \<and>
     (status_pc s \<noteq> Status_done \<longrightarrow> status_pos s = length (printed x s) \<and> status_pos s < sz)"

lemma path_next: "path st p (xs @ a # ys) None \<Longrightarrow> deref st a = Some n \<Longrightarrow> path st (sta_next n) ys None"
  by (auto simp: path_append)

lemma go_to_path: "path st p ys None \<Longrightarrow> go_to p = (case ys of [] \<Rightarrow> Status_done | a # _ \<Rightarrow> At_fields a)"
  by (cases ys) auto

lemma kept_cell:
  assumes "sta_rep st (xs @ a # ys)" "keeps st t"
  obtains n where "deref t a = Some n" "fst (view n) = sta_name st a" "path st (sta_next n) ys None"
proof -
  have d: "deref st a = Some (node st a)" using path_deref [OF sta_rep_path [OF assms(1)]] by simp
  with assms(2) obtain n where n: "deref t a = Some n" "same_cell (node st a) n" by (auto simp: keeps_def)
  have "path st (sta_next n) ys None"
    using path_next [OF sta_rep_path [OF assms(1)] d] n(2) by (simp add: same_cell_def)
  moreover have "fst (view n) = sta_name st a" using n(2) by (simp add: same_cell_def sta_name_def view_def)
  ultimately show thesis using that n(1) by blast
qed

lemma walk_inv_fields:
  assumes rep: "sta_rep st as" and inv: "walk_inv sz x st as s" and pc: "status_pc s = At_fields a"
  shows "\<exists>t. status_reads sz s = Some t \<and> walk_inv sz x st as t"
proof -
  from inv pc obtain xs ys where as: "as = xs @ a # ys" "map fst (status_seen s) = map (sta_name st) xs"
    and k: "keeps st (table s)" and h: "holds (status_buf s) sz (printed x s)"
    and p: "status_pos s = length (printed x s)" "status_pos s < sz"
    by (auto simp: walk_inv_def walk_names_def)
  from kept_cell [OF rep [unfolded as(1)] k] obtain n where
    n: "deref (table s) a = Some n" "fst (view n) = sta_name st a" by blast
  let ?text = "sta_text (view n)"
  let ?s1 = "s\<lparr>status_buf := snprintf_at (status_buf s) (status_pos s) sz ?text, status_seen := status_seen s @ [view n]\<rparr>"
  have pr: "printed x ?s1 = printed x s @ ?text" by (simp add: printed_def)
  have b: "holds (snprintf_at (status_buf s) (status_pos s) sz ?text) sz (printed x s @ ?text)"
    using snprintf_at_holds [OF h] p by simp
  have m: "map fst (status_seen s @ [view n]) = map (sta_name st) (xs @ [a])" using as(2) n(2) by simp
  have sp: "as = (xs @ [a]) @ ys" by (simp add: as(1))
  show ?thesis
  proof (cases "length ?text \<ge> sz - status_pos s")
    case True
    let ?t = "?s1\<lparr>status_pc := Status_done\<rparr>"
    have "status_reads sz s = Some ?t" using True pc n(1) p(2) by (simp add: status_reads_def Let_def)
    moreover have "printed x ?t = printed x s @ ?text" by (simp add: printed_def)
    moreover have "sz \<le> length (printed x s @ ?text)" using True p by simp
    moreover have "walk_names st as (sz \<le> length (printed x ?t)) ?t"
      unfolding walk_names_def using m sp \<open>sz \<le> length (printed x s @ ?text)\<close> pr
      by (simp add: printed_def) (rule exI [of _ "xs @ [a]"], simp)
    ultimately show ?thesis using k b by (auto simp: walk_inv_def)
  next
    case False
    let ?t = "?s1\<lparr>status_pc := At_next a, status_pos := status_pos s + length ?text\<rparr>"
    have "status_reads sz s = Some ?t" using False pc n(1) p(2) by (simp add: status_reads_def Let_def)
    moreover have "printed x ?t = printed x s @ ?text" by (simp add: printed_def)
    ultimately show ?thesis using k b m as(1) p False by (auto simp: walk_inv_def walk_names_def)
  qed
qed

lemma walk_inv_next:
  assumes rep: "sta_rep st as" and inv: "walk_inv sz x st as s" and pc: "status_pc s = At_next a"
  shows "\<exists>t. status_reads sz s = Some t \<and> walk_inv sz x st as t"
proof -
  from inv pc obtain xs ys where as: "as = xs @ a # ys" "map fst (status_seen s) = map (sta_name st) (xs @ [a])"
    and k: "keeps st (table s)" by (auto simp: walk_inv_def walk_names_def)
  from kept_cell [OF rep [unfolded as(1)] k] obtain n where
    n: "deref (table s) a = Some n" "path st (sta_next n) ys None" by blast
  let ?t = "s\<lparr>status_pc := go_to (sta_next n)\<rparr>"
  have r: "status_reads sz s = Some ?t" using pc n(1) by (simp add: status_reads_def)
  have pr: "printed x ?t = printed x s" by (simp add: printed_def)
  have sp: "as = (xs @ [a]) @ ys" by (simp add: as(1))
  have "walk_names st as full ?t" for full
  proof (cases ys)
    case Nil
    with go_to_path [OF n(2)] as show ?thesis by (simp add: walk_names_def) (rule exI [of _ "xs @ [a]"], simp)
  next
    case (Cons b zs)
    with go_to_path [OF n(2)] as(2) sp show ?thesis
      by (simp add: walk_names_def) (rule exI [of _ "xs @ [a]"], simp)
  qed
  with r inv pc pr show ?thesis by (simp add: walk_inv_def)
qed

lemma walk_inv_reads:
  assumes "sta_rep st as" "walk_inv sz x st as s"
  shows "\<exists>t. status_reads sz s = Some t \<and> walk_inv sz x st as t"
proof (cases "status_pc s")
  case (At_fields a)
  with walk_inv_fields assms show ?thesis by blast
next
  case (At_next a)
  with walk_inv_next assms show ?thesis by blast
next
  case Status_done
  with assms show ?thesis by (simp add: status_reads_def)
qed

lemma walk_inv_table:
  assumes "walk_inv sz x st as s" "keeps (table s) t"
  shows "walk_inv sz x st as (s\<lparr>table := t\<rparr>)"
proof -
  have "walk_names st as full (s\<lparr>table := t\<rparr>) = walk_names st as full s" for full
    by (simp add: walk_names_def cong: status_pc.case_cong)
  then show ?thesis
    using assms keeps_trans by (auto simp: walk_inv_def printed_def)
qed

lemma walk_inv_step:
  assumes rep: "sta_rep st as" and "race_step sz False s t" "walk_inv sz x st as s"
  shows "walk_inv sz x st as t"
  using assms(2)
proof cases
  case reads
  with walk_inv_reads [OF rep assms(3)] show ?thesis by simp
next
  case (adds mok now b r st')
  with walk_inv_table [OF assms(3) add_keeps [OF adds(2)]] show ?thesis by simp
next
  case (updates b a rs pk)
  with walk_inv_table [OF assms(3) update_keeps [OF updates(2)]] show ?thesis by simp
qed simp

lemma walk_inv_start:
  assumes "sta_rep st as" "holds buf sz x" "length x < sz"
  shows "walk_inv sz x st as (status_begin buf (length x) st)"
  using go_to_path [OF sta_rep_path [OF assms(1)]] assms(2,3)
  by (cases as) (auto simp: walk_inv_def walk_names_def status_begin_def printed_def keeps_refl intro!: exI [of _ "[]"])

lemma walk_inv_reachable:
  assumes "(race_step sz False)\<^sup>*\<^sup>* (status_begin buf (length x) st) s" "sta_rep st as" "holds buf sz x" "length x < sz"
  shows "walk_inv sz x st as s"
  using assms(1)
proof (induction rule: rtranclp_induct)
  case base
  show ?case by (rule walk_inv_start [OF assms(2-4)])
next
  case (step s t)
  then show ?case using walk_inv_step [OF assms(2)] by blast
qed

lemma walk_names_prefix: "walk_names st as full s \<Longrightarrow> prefix (map fst (status_seen s)) (map (sta_name st) as)"
  by (auto simp: walk_names_def prefix_def split: status_pc.splits)

section \<open>Properties\<close>

lemma remove_first:
  assumes "sta_rep st (a # as)"
  shows "wlan_sta_mgr_remove (sta_name st a) st = Some (1, free_cell (st\<lparr>sta_mgr_head := sta_next (node st a)\<rparr>) a)"
proof -
  have p: "path st (sta_mgr_head st) (a # as) None" using assms by (rule sta_rep_path)
  then have "sta_mgr_head st = Some a" "deref st a = Some (node st a)"
    using path_deref [OF p] by simp_all
  then show ?thesis
    by (simp add: wlan_sta_mgr_remove_def remove_loop.simps sta_name_def)
qed

text \<open>
  C15. The unlocked walk of a TCP client, from a report whose first part is in the buffer: as long as the main
  thread only adds and updates stations, every read of the walk finds its cell, the stations printed
  are the first ones of those that were in the table when it began, in order, and the buffer holds the
  longest prefix of their report that fits. A finished walk has printed all of them, unless the buffer is
  full. A removal breaks this: from every well-formed table that has a station an interleaving leads
  to a read of a freed cell.
\<close>

theorem status_walk_race:
  assumes "sta_inv st" "holds buf sz x" "length x < sz"
  shows "((race_step sz False)\<^sup>*\<^sup>* (status_begin buf (length x) st) s \<longrightarrow>
      status_reads sz s \<noteq> None \<and> prefix (map fst (status_seen s)) (map fst (sta_views st)) \<and>
      cstr (status_buf s) = take (sz - 1) (x @ concat (map sta_text (status_seen s))) \<and>
      (status_pc s = Status_done \<longrightarrow>
         map fst (status_seen s) = map fst (sta_views st) \<or> sz \<le> length (x @ concat (map sta_text (status_seen s))))) \<and>
   (sta_views st \<noteq> [] \<longrightarrow>
      (\<exists>s'. (race_step sz True)\<^sup>*\<^sup>* (status_begin buf (length x) st) s' \<and> status_reads sz s' = None))"
proof -
  obtain as where rep: "sta_rep st as" using assms(1) by (auto simp: sta_inv_def)
  note names = map_fst_views_rep [OF rep]
  have "status_reads sz s \<noteq> None \<and> prefix (map fst (status_seen s)) (map fst (sta_views st)) \<and>
      cstr (status_buf s) = take (sz - 1) (x @ concat (map sta_text (status_seen s))) \<and>
      (status_pc s = Status_done \<longrightarrow>
         map fst (status_seen s) = map fst (sta_views st) \<or> sz \<le> length (x @ concat (map sta_text (status_seen s))))"
    if "(race_step sz False)\<^sup>*\<^sup>* (status_begin buf (length x) st) s"
  proof -
    note inv = walk_inv_reachable [OF that rep assms(2,3)]
    then have "walk_names st as (sz \<le> length (printed x s)) s" "holds (status_buf s) sz (printed x s)"
      by (simp_all add: walk_inv_def)
    then show ?thesis
      using walk_inv_reads [OF rep inv] walk_names_prefix [of st as]
      by (auto simp: names printed_def holds_def walk_names_def)
  qed
  moreover have "\<exists>s'. (race_step sz True)\<^sup>*\<^sup>* (status_begin buf (length x) st) s' \<and> status_reads sz s' = None"
    if "sta_views st \<noteq> []"
  proof -
    from that rep obtain a ys where as: "as = a # ys" by (cases as) (auto simp: sta_views_rep)
    let ?b = "status_begin buf (length x) st"
    let ?rm = "free_cell (st\<lparr>sta_mgr_head := sta_next (node st a)\<rparr>) a"
    let ?s = "?b\<lparr>table := ?rm\<rparr>"
    have "race_step sz True ?b ?s"
      by (rule race_step.removes [of _ "sta_name st a"]) (simp_all add: status_begin_def remove_first [OF rep [unfolded as]])
    moreover have "status_pc ?s = At_fields a"
      using sta_rep_path [OF rep] as by (simp add: status_begin_def)
    then have "status_reads sz ?s = None" using assms(3) by (simp add: status_reads_def status_begin_def)
    ultimately show ?thesis by blast
  qed
  ultimately show ?thesis by blast
qed

theorem status_walk_race_witness:
  "\<exists>st s. map fst (sta_views st) = [''aa''] \<and> (race_step 2048 True)\<^sup>*\<^sup>* (status_begin (replicate 2048 NUL) 0 st) s \<and>
     status_reads 2048 s = None"
proof -
  obtain r t where t: "sta_inv t" "sta_views t = (if r = 1 then (''aa'', 0, 0, 9) # sta_views sta_mgr_start else sta_views sta_mgr_start)"
    "r = 1 \<longleftrightarrow> ''aa'' \<notin> fst ` set (sta_views sta_mgr_start) \<and> True"
    by (rule stab.add_total [OF sta_inv_start, of "''aa''" "\<lambda>_. True" 9]) (auto simp: good_bssid_def MAC_ADDR_LEN_def)
  then have v: "sta_views t = [(''aa'', 0, 0, 9)]" by simp
  have "holds (replicate 2048 NUL) 2048 []" by (simp add: holds_def cstr_def)
  with status_walk_race [OF t(1), of "replicate 2048 NUL" 2048 "[]" "status_begin (replicate 2048 NUL) 0 t"] v show ?thesis
    by (intro exI [of _ t]) auto
qed

end
