(* ===== verification/Kernel_Resources.thy ===== *)
theory Kernel_Resources
  imports Lab_Prelude "HOL-Library.Multiset"
begin

text \<open>
  What the three kernel modules under \<open>drivers/\<close> share: the kernel calls whose results decide how far
  the initialisation gets, the resources a module takes and gives back as a list of events, and the
  balance of such a list. Giving back something that is not held has no balance.
\<close>

section \<open>Kernel calls and resources\<close>

text \<open>A pointer the kernel returns: \<open>NULL\<close>, an \<open>ERR_PTR\<close> code, or a usable pointer.\<close>

datatype kptr = Null | Err_ptr | Valid_ptr

record kernel =
  chrdev_result :: int
  class_result :: kptr
  device_result :: kptr
  cdev_result :: int
  gpio_request_result :: "nat \<Rightarrow> int"
  gpio_direction_result :: "nat \<Rightarrow> int"
  irq_result :: int
  thread_result :: kptr

datatype kres =
    Chrdev | Kclass | Kdevice | Kcdev | Gpio nat | Irq | Kthread
  | Of_node | Platform_dev | Controller_dev | Spi_dev | Kobject | Kobject_mem | Workqueue | Hrtimer

text \<open>
  \<open>Wrote\<close> is a message to the device, which takes nothing; \<open>Oops\<close> is a use of an error pointer as if it were
  an object, after which the kernel kills the loading process.
\<close>

datatype kev = Got kres | Dropped kres | Wrote "u8 list" | Oops

fun balance :: "kev list \<Rightarrow> kres multiset \<Rightarrow> kres multiset option" where
  "balance [] h = Some h"
| "balance (Got r # es) h = balance es (add_mset r h)"
| "balance (Dropped r # es) h = (if r \<in># h then balance es (h - {#r#}) else None)"
| "balance (Wrote d # es) h = balance es h"
| "balance (Oops # es) h = None"

text \<open>
  \<open>kthread_create\<close> and \<open>wake_up_process\<close>, with the only test the modules make: \<open>NULL\<close>, which
  \<open>kthread_create\<close> never returns, is no thread, and anything else is woken.
\<close>

fun start_thread :: "kptr \<Rightarrow> kev list" where
  "start_thread Null = []"
| "start_thread Err_ptr = [Oops]"
| "start_thread Valid_ptr = [Got Kthread]"

text \<open>
  The modules test \<open>class_create\<close> and \<open>device_create\<close> for \<open>NULL\<close> and \<open>cdev_add\<close> for -1, and pass over every
  other failure. \<open>usable\<close>: what they took for a success was one.
\<close>

definition usable :: "'z kernel_scheme \<Rightarrow> bool" where
  "usable k \<longleftrightarrow> class_result k = Valid_ptr \<and> device_result k = Valid_ptr \<and> cdev_result k = 0"

text \<open>A started thread outlives its module: no exit function stops it.\<close>

definition thread_stays :: "bool \<Rightarrow> 'z kernel_scheme \<Rightarrow> kres multiset" where
  "thread_stays started k = (if started \<and> thread_result k = Valid_ptr then {#Kthread#} else {#})"

lemma balance_append:
  "balance (xs @ ys) h = (case balance xs h of None \<Rightarrow> None | Some h' \<Rightarrow> balance ys h')"
  by (induction xs h rule: balance.induct) auto

lemma balance_got: "balance (map Got rs) h = Some (h + mset rs)"
  by (induction rs arbitrary: h) auto

lemma balance_dropped: "balance (map Dropped rs) (mset rs + h) = Some h"
  by (induction rs arbitrary: h) auto

lemma balance_frame: "balance es h = Some h' \<Longrightarrow> balance es (h + x) = Some (h' + x)"
  by (induction es h rule: balance.induct) (auto split: if_splits)

lemma only_threads: "set_mset h \<subseteq> {Kthread} \<Longrightarrow> \<exists>n. h = replicate_mset n Kthread"
  using set_mset_subset_singletonD by metis

section \<open>A module as an interface\<close>

text \<open>
  What loading and unloading relies on: a successful initialisation whose calls were \<open>usable\<close> holds
  \<open>full\<close> and what \<open>stays\<close>; the exit function gives back exactly \<open>full\<close>; after a successful initialisation
  with a failed call the exit function gives back something that was never taken. Only threads
  may stay: no exit function ends the thread its module started.
\<close>

locale driver_module =
  fixes ok :: "'k \<Rightarrow> bool"
    and init :: "'k \<Rightarrow> int \<times> kev list"
    and unload :: "'k \<Rightarrow> kev list"
    and full :: "'k \<Rightarrow> kres multiset"
    and stays :: "'k \<Rightarrow> kres multiset"
  assumes init_full: "ok k \<Longrightarrow> fst (init k) = 0 \<Longrightarrow> balance (snd (init k)) {#} = Some (full k + stays k)"
    and unload_full: "balance (unload k) (full k) = Some {#}"
    and unusable: "\<not> ok k \<Longrightarrow> fst (init k) = 0 \<Longrightarrow>
      balance (snd (init k) @ unload k) (replicate_mset n Kthread) = None"
    and stays_thread: "set_mset (stays k) \<subseteq> {Kthread}"
begin

lemma cycle:
  "ok k \<Longrightarrow> fst (init k) = 0 \<Longrightarrow> balance (snd (init k) @ unload k) h = Some (h + stays k)"
  using balance_frame [OF init_full, of k h] balance_frame [OF unload_full [of k], of "stays k + h"]
  by (simp add: balance_append ac_simps)

lemma cycles_from:
  "\<forall>k \<in> set ks. fst (init k) = 0 \<Longrightarrow> set_mset h \<subseteq> {Kthread} \<Longrightarrow>
     balance (concat (map (\<lambda>k. snd (init k) @ unload k) ks)) h =
       (if \<forall>k \<in> set ks. ok k then Some (h + sum_list (map stays ks)) else None)"
proof (induction ks arbitrary: h)
  case (Cons k ks)
  from only_threads [OF Cons.prems(2)] obtain n where n: "h = replicate_mset n Kthread" by blast
  let ?e = "snd (init k) @ unload k"
  have split: "balance (concat (map (\<lambda>k. snd (init k) @ unload k) (k # ks))) h =
      (case balance ?e h of None \<Rightarrow> None
       | Some h' \<Rightarrow> balance (concat (map (\<lambda>k. snd (init k) @ unload k) ks)) h')"
    using balance_append [of ?e _ h] by simp
  show ?case
  proof (cases "ok k")
    case True
    have "set_mset (h + stays k) \<subseteq> {Kthread}" using Cons.prems(2) stays_thread [of k] by auto
    from Cons.IH [OF _ this] True Cons.prems(1) show ?thesis
      unfolding split by (simp add: cycle ac_simps)
  next
    case False
    with unusable [OF this, of n] Cons.prems(1) show ?thesis unfolding split by (simp add: n)
  qed
qed simp

lemma cycles:
  "\<forall>k \<in> set ks. fst (init k) = 0 \<Longrightarrow>
     balance (concat (map (\<lambda>k. snd (init k) @ unload k) ks)) {#} =
       (if \<forall>k \<in> set ks. ok k then Some (sum_list (map stays ks)) else None)"
  using cycles_from [of ks "{#}"] by simp

end

end
