(* ===== verification/Led_Gpio.thy ===== *)
theory Led_Gpio
  imports Kernel_Resources
begin

text \<open>
  \<open>drivers/led_gpio.c\<close>: the LED driver. The state holds the level of every GPIO line, the log of
  all level changes, the write buffer and the wait-queue flag. What \<open>ENABLE_KTHREAD_EXAMPLES\<close> compiles in
  is the argument \<open>examples\<close> of the initialisation and the theory \<open>Led_Thread\<close>.
\<close>

section \<open>State\<close>

definition BUF_SIZE :: nat where
  "BUF_SIZE = 1024"

definition GPIO_BASE :: nat where
  "GPIO_BASE = 512"

definition BCM_GPIO :: "nat \<Rightarrow> nat" where
  "BCM_GPIO n = GPIO_BASE + n"

definition TOY_GPIO_OUTPUT_LEFT_1 :: nat where
  "TOY_GPIO_OUTPUT_LEFT_1 = BCM_GPIO 22"

definition TOY_GPIO_OUTPUT_LEFT_2 :: nat where
  "TOY_GPIO_OUTPUT_LEFT_2 = BCM_GPIO 5"

definition TOY_GPIO_OUTPUT_RIGHT_1 :: nat where
  "TOY_GPIO_OUTPUT_RIGHT_1 = BCM_GPIO 23"

definition TOY_GPIO_OUTPUT_RIGHT_2 :: nat where
  "TOY_GPIO_OUTPUT_RIGHT_2 = BCM_GPIO 24"

definition TOY_GPIO_INPUT :: nat where
  "TOY_GPIO_INPUT = BCM_GPIO 19"

definition WAIT_QUEUE_WAIT :: int where
  "WAIT_QUEUE_WAIT = 0"

definition WAIT_QUEUE_KEY :: int where
  "WAIT_QUEUE_KEY = 1"

definition WAIT_QUEUE_NEXT :: int where
  "WAIT_QUEUE_NEXT = 2"

definition WAIT_QUEUE_EXIT :: int where
  "WAIT_QUEUE_EXIT = 3"

definition EFAULT :: int where
  "EFAULT = 14"

record led_dev =
  gpio :: "nat \<Rightarrow> int"
  gpio_log :: "(nat \<times> int) list"
  kernel_write_buffer :: cbuffer
  wait_queue_flag :: int
  wakeups :: nat

definition led_dev_start :: led_dev where
  "led_dev_start = \<lparr>gpio = (\<lambda>_. 0), gpio_log = [], kernel_write_buffer = replicate BUF_SIZE NUL,
     wait_queue_flag = WAIT_QUEUE_WAIT, wakeups = 0\<rparr>"

definition gpio_set_value :: "nat \<Rightarrow> int \<Rightarrow> led_dev \<Rightarrow> led_dev" where
  "gpio_set_value n v d = d\<lparr>gpio := (gpio d)(n := v), gpio_log := gpio_log d @ [(n, v)]\<rparr>"

definition LED_LEFT_ON :: "led_dev \<Rightarrow> led_dev" where
  "LED_LEFT_ON d = gpio_set_value TOY_GPIO_OUTPUT_LEFT_2 1 (gpio_set_value TOY_GPIO_OUTPUT_LEFT_1 1 d)"

definition LED_LEFT_OFF :: "led_dev \<Rightarrow> led_dev" where
  "LED_LEFT_OFF d = gpio_set_value TOY_GPIO_OUTPUT_LEFT_2 0 (gpio_set_value TOY_GPIO_OUTPUT_LEFT_1 0 d)"

definition LED_RIGHT_ON :: "led_dev \<Rightarrow> led_dev" where
  "LED_RIGHT_ON d = gpio_set_value TOY_GPIO_OUTPUT_RIGHT_2 1 (gpio_set_value TOY_GPIO_OUTPUT_RIGHT_1 1 d)"

definition LED_RIGHT_OFF :: "led_dev \<Rightarrow> led_dev" where
  "LED_RIGHT_OFF d = gpio_set_value TOY_GPIO_OUTPUT_RIGHT_2 0 (gpio_set_value TOY_GPIO_OUTPUT_RIGHT_1 0 d)"

section \<open>File operations\<close>

definition toy_driver_read :: "nat \<Rightarrow> int" where
  "toy_driver_read cnt = int BUF_SIZE"

definition toy_driver_open :: int where
  "toy_driver_open = 0"

definition toy_driver_close :: int where
  "toy_driver_close = 0"

definition wake_up :: "led_dev \<Rightarrow> led_dev" where
  "wake_up d = d\<lparr>wakeups := Suc (wakeups d)\<rparr>"

definition toy_command :: "led_dev \<Rightarrow> led_dev" where
  "toy_command d =
     (let s = cstr (kernel_write_buffer d); c = kernel_write_buffer d ! 0 in
      if strncmp_eq s ''sta_join'' 8 then LED_RIGHT_ON (LED_LEFT_ON d)
      else if strncmp_eq s ''sta_leave'' 9 then LED_RIGHT_OFF (LED_LEFT_OFF d)
      else if strncmp_eq s ''traffic'' 7 then LED_RIGHT_ON (LED_LEFT_ON (LED_LEFT_OFF (LED_RIGHT_OFF d)))
      else if c = CHR 0x00 then LED_RIGHT_OFF (LED_LEFT_OFF (d\<lparr>wait_queue_flag := WAIT_QUEUE_WAIT\<rparr>))
      else if c = CHR 0x01 then wake_up (d\<lparr>wait_queue_flag := WAIT_QUEUE_KEY\<rparr>)
      else if c = CHR 0x02 then wake_up (d\<lparr>wait_queue_flag := WAIT_QUEUE_NEXT\<rparr>)
      else d)"

text \<open>
  \<open>ubuf\<close> are the bytes at the user address; \<open>copied\<close> is how many of them \<open>copy_from_user\<close> can
  read before a fault (at least \<open>len\<close> when there is none).
\<close>

definition toy_driver_write :: "string \<Rightarrow> nat \<Rightarrow> nat \<Rightarrow> led_dev \<Rightarrow> int \<times> led_dev" where
  "toy_driver_write ubuf copied cnt d =
     (let len = min cnt (BUF_SIZE - 1);
          zeros = replicate BUF_SIZE NUL;
          data = take (min copied len) ubuf;
          buf = data @ drop (length data) zeros
      in if copied < len then (- EFAULT, d\<lparr>kernel_write_buffer := buf\<rparr>)
         else (int cnt, toy_command (d\<lparr>kernel_write_buffer := buf[len := NUL]\<rparr>)))"

section \<open>Loading and unloading\<close>

definition register_gpio_output :: "kernel \<Rightarrow> nat \<Rightarrow> int \<times> kev list" where
  "register_gpio_output k n =
     (if gpio_request_result k n \<noteq> 0 then (-1, [])
      else if gpio_direction_result k n \<noteq> 0 then (-1, [Got (Gpio n), Dropped (Gpio n)])
      else (0, [Got (Gpio n)]))"

text \<open>The labels at the end of \<open>toy_module_init\<close>: a jump runs the list from its label on.\<close>

definition toy_cleanup :: "kev list" where
  "toy_cleanup = map Dropped [Gpio TOY_GPIO_INPUT, Gpio TOY_GPIO_OUTPUT_RIGHT_2,
     Gpio TOY_GPIO_OUTPUT_RIGHT_1, Gpio TOY_GPIO_OUTPUT_LEFT_2, Gpio TOY_GPIO_OUTPUT_LEFT_1,
     Kdevice, Kclass, Chrdev]"

fun toy_gpios :: "kernel \<Rightarrow> (nat \<times> nat) list \<Rightarrow> kev list \<Rightarrow> nat option \<times> kev list" where
  "toy_gpios k [] es = (None, es)"
| "toy_gpios k ((n, label) # rest) es =
     (let (r, new) = register_gpio_output k n in
      if r \<noteq> 0 then (Some label, es @ new) else toy_gpios k rest (es @ new))"

text \<open>
  \<open>examples\<close>: compiled with \<open>ENABLE_KTHREAD_EXAMPLES\<close>. A loading process that the kernel kills returns no
  result; it counts as a failed load.
\<close>

definition toy_module_init :: "bool \<Rightarrow> kernel \<Rightarrow> int \<times> kev list" where
  "toy_module_init examples k =
     (if chrdev_result k < 0 then (-1, [])
      else let e1 = [Got Chrdev] in
        if class_result k = Null then (-1, e1 @ drop 7 toy_cleanup)
        else let e2 = e1 @ (if class_result k = Valid_ptr then [Got Kclass] else []) in
          if device_result k = Null then (-1, e2 @ drop 6 toy_cleanup)
          else let e3 = e2 @ (if device_result k = Valid_ptr then [Got Kdevice] else []) in
            if cdev_result k = -1 then (-1, e3 @ drop 5 toy_cleanup)
            else let e4 = e3 @ (if cdev_result k = 0 then [Got Kcdev] else []);
                     (jump, e5) = toy_gpios k
                       [(TOY_GPIO_OUTPUT_LEFT_1, 5), (TOY_GPIO_OUTPUT_LEFT_2, 4),
                        (TOY_GPIO_OUTPUT_RIGHT_1, 3), (TOY_GPIO_OUTPUT_RIGHT_2, 2)] e4
                 in (case jump of
                       Some label \<Rightarrow> (-1, e5 @ drop label toy_cleanup)
                     | None \<Rightarrow>
                         if gpio_request_result k TOY_GPIO_INPUT \<noteq> 0 then (-1, e5 @ drop 1 toy_cleanup)
                         else let e6 = e5 @ [Got (Gpio TOY_GPIO_INPUT)] in
                           if gpio_direction_result k TOY_GPIO_INPUT \<noteq> 0 then (-1, e6 @ toy_cleanup)
                           else let e7 = e6 @ (if examples then start_thread (thread_result k) else [])
                             in (if Oops \<in> set e7 then -1 else 0, e7)))"

definition toy_module_exit :: "led_dev \<Rightarrow> led_dev \<times> kev list" where
  "toy_module_exit d =
     (let d1 = wake_up (d\<lparr>wait_queue_flag := WAIT_QUEUE_EXIT\<rparr>);
          d2 = gpio_set_value TOY_GPIO_OUTPUT_RIGHT_2 0 (gpio_set_value TOY_GPIO_OUTPUT_RIGHT_1 0
                 (gpio_set_value TOY_GPIO_OUTPUT_LEFT_2 0 (gpio_set_value TOY_GPIO_OUTPUT_LEFT_1 0 d1)))
      in (d2, map Dropped [Gpio TOY_GPIO_INPUT, Gpio TOY_GPIO_OUTPUT_LEFT_1, Gpio TOY_GPIO_OUTPUT_LEFT_2,
                Gpio TOY_GPIO_OUTPUT_RIGHT_1, Gpio TOY_GPIO_OUTPUT_RIGHT_2, Kcdev, Kdevice, Kclass, Chrdev]))"

section \<open>LEDs\<close>

definition led_gpios :: "nat set" where
  "led_gpios = {TOY_GPIO_OUTPUT_LEFT_1, TOY_GPIO_OUTPUT_LEFT_2, TOY_GPIO_OUTPUT_RIGHT_1, TOY_GPIO_OUTPUT_RIGHT_2}"

text \<open>\<open>shows d lit\<close>: all four LEDs are on, or all four are off.\<close>

definition shows_led :: "led_dev \<Rightarrow> bool \<Rightarrow> bool" where
  "shows_led d lit \<longleftrightarrow> (\<forall>n \<in> led_gpios. gpio d n = (if lit then 1 else 0))"

lemmas gpio_numbers = TOY_GPIO_OUTPUT_LEFT_1_def TOY_GPIO_OUTPUT_LEFT_2_def TOY_GPIO_OUTPUT_RIGHT_1_def
  TOY_GPIO_OUTPUT_RIGHT_2_def TOY_GPIO_INPUT_def BCM_GPIO_def GPIO_BASE_def

lemmas led_macros = LED_LEFT_ON_def LED_LEFT_OFF_def LED_RIGHT_ON_def LED_RIGHT_OFF_def gpio_set_value_def

text \<open>What a write of the text \<open>m\<close> leaves in the buffer.\<close>

lemma write_buffer_text:
  assumes "nul_free m" "length m < BUF_SIZE"
  shows "toy_driver_write m (length m) (length m) d =
     (int (length m), toy_command (d\<lparr>kernel_write_buffer := m @ replicate (BUF_SIZE - length m) NUL\<rparr>))"
proof -
  have "(m @ replicate (BUF_SIZE - length m) NUL)[length m := NUL] = m @ replicate (BUF_SIZE - length m) NUL"
    using assms(2) by (auto simp: list_update_append list_update_same_conv)
  with assms show ?thesis
    by (simp add: toy_driver_write_def Let_def BUF_SIZE_def min_def)
qed

lemma toy_command_text:
  assumes "nul_free m" "m \<noteq> []" "kernel_write_buffer d = m @ replicate n NUL"
  shows "take 8 m = ''sta_join'' \<Longrightarrow> shows_led (toy_command d) True"
    and "take 9 m = ''sta_leave'' \<Longrightarrow> shows_led (toy_command d) False"
    and "take 7 m = ''traffic'' \<Longrightarrow> shows_led (toy_command d) True"
proof -
  have c: "cstr (kernel_write_buffer d) = m" using assms by (simp add: cbuf)
  show "shows_led (toy_command d) True" if "take 8 m = ''sta_join''"
    using that by (simp add: toy_command_def c strncmp_eq_def shows_led_def led_gpios_def led_macros gpio_numbers)
  show "shows_led (toy_command d) False" if m: "take 9 m = ''sta_leave''"
  proof -
    have "take 8 m = ''sta_leav''" using arg_cong [OF m, of "take 8"] by (simp add: min_def)
    with m show ?thesis
      by (simp add: toy_command_def c strncmp_eq_def shows_led_def led_gpios_def led_macros gpio_numbers)
  qed
  show "shows_led (toy_command d) True" if m: "take 7 m = ''traffic''"
  proof -
    have "take 8 m \<noteq> ''sta_join''"
    proof
      assume "take 8 m = ''sta_join''"
      from arg_cong [OF this, of "take 7"] m show False by (simp add: min_def)
    qed
    moreover have "take 9 m \<noteq> ''sta_leave''"
    proof
      assume "take 9 m = ''sta_leave''"
      from arg_cong [OF this, of "take 7"] m show False by (simp add: min_def)
    qed
    ultimately show ?thesis using m
      by (simp add: toy_command_def c strncmp_eq_def shows_led_def led_gpios_def led_macros gpio_numbers)
  qed
qed

definition toy_full :: "kres list" where
  "toy_full = [Chrdev, Kclass, Kdevice, Kcdev, Gpio TOY_GPIO_OUTPUT_LEFT_1, Gpio TOY_GPIO_OUTPUT_LEFT_2,
     Gpio TOY_GPIO_OUTPUT_RIGHT_1, Gpio TOY_GPIO_OUTPUT_RIGHT_2, Gpio TOY_GPIO_INPUT]"

definition gpios_ready :: "kernel \<Rightarrow> bool" where
  "gpios_ready k \<longleftrightarrow> (\<forall>n \<in> insert TOY_GPIO_INPUT led_gpios. gpio_request_result k n = 0 \<and> gpio_direction_result k n = 0)"

lemmas toy_init_defs = toy_module_init_def Let_def register_gpio_output_def

lemma toy_gpios_success: "toy_gpios k gs es = (None, es') \<Longrightarrow> es' = es @ map (Got \<circ> Gpio \<circ> fst) gs"
  by (induction k gs es rule: toy_gpios.induct) (auto simp: register_gpio_output_def split: if_splits)

lemma toy_init_success:
  assumes "fst (toy_module_init examples k) = 0"
  shows "snd (toy_module_init examples k) =
    [Got Chrdev] @ (if class_result k = Valid_ptr then [Got Kclass] else []) @
    (if device_result k = Valid_ptr then [Got Kdevice] else []) @ (if cdev_result k = 0 then [Got Kcdev] else []) @
    map Got (drop 4 toy_full) @ (if examples \<and> thread_result k = Valid_ptr then [Got Kthread] else [])"
  using assms
  by (cases "thread_result k")
    (auto simp: toy_module_init_def Let_def toy_full_def simp del: toy_gpios.simps dest!: toy_gpios_success
      split: if_splits prod.splits option.splits)

lemma exit_events:
  "snd (toy_module_exit d) = map Dropped [Gpio TOY_GPIO_INPUT, Gpio TOY_GPIO_OUTPUT_LEFT_1,
     Gpio TOY_GPIO_OUTPUT_LEFT_2, Gpio TOY_GPIO_OUTPUT_RIGHT_1, Gpio TOY_GPIO_OUTPUT_RIGHT_2,
     Kcdev, Kdevice, Kclass, Chrdev]"
  by (simp add: toy_module_exit_def Let_def)

interpretation led: driver_module usable "toy_module_init examples" "\<lambda>k. snd (toy_module_exit d)"
  "\<lambda>k. mset toy_full" "thread_stays examples" for examples d
proof (unfold_locales, goal_cases)
  case (1 k)
  then show ?case
    by (simp add: toy_init_success usable_def thread_stays_def toy_full_def)
next
  case 2
  then show ?case by (simp add: exit_events toy_full_def gpio_numbers)
next
  case (3 k n)
  then show ?case
    by (auto simp: toy_init_success exit_events usable_def toy_full_def gpio_numbers)
qed (simp add: thread_stays_def)

section \<open>Properties\<close>

definition led_command :: "string \<Rightarrow> bool option" where
  "led_command m =
     (if take 8 m = ''sta_join'' \<or> take 7 m = ''traffic'' then Some True
      else if take 9 m = ''sta_leave'' then Some False
      else None)"

text \<open>
  The LED driver obeys the three event texts: a write that begins with \<open>sta_join\<close> or
  \<open>traffic\<close> leaves all four LEDs on, one that begins with \<open>sta_leave\<close> leaves all four off,
  whatever they showed before, and the whole write is accepted.
\<close>

lemma led_write_shows:
  assumes "led_command m = Some lit" "nul_free m" "length m < BUF_SIZE"
  shows "\<exists>d'. toy_driver_write m (length m) (length m) d = (int (length m), d') \<and> shows_led d' lit"
proof -
  have "m \<noteq> []" using assms(1) by (auto simp: led_command_def)
  with assms write_buffer_text [OF assms(2,3)] show ?thesis
    by (auto simp: led_command_def toy_command_text split: if_splits)
qed

lemma led_write_shows_example:
  "let m = ''sta_leave'' @ [newline] in
     \<exists>d'. toy_driver_write m (length m) (length m) led_dev_start = (10, d') \<and> shows_led d' False"
  using led_write_shows [of "''sta_leave'' @ [newline]" False led_dev_start]
  by (simp add: led_command_def BUF_SIZE_def Let_def)

text \<open>
  No write can overrun the driver's buffer: for every user buffer, length and fault position
  the buffer keeps its 1024 bytes and its last byte stays NUL; a fault changes no LED.
\<close>

lemma led_write_in_bounds:
  assumes "toy_driver_write ubuf copied cnt d = (r, d')"
  shows "length (kernel_write_buffer d') = BUF_SIZE \<and> kernel_write_buffer d' ! (BUF_SIZE - 1) = NUL \<and>
     (r = - EFAULT \<longrightarrow> gpio d' = gpio d)"
proof -
  have frame: "kernel_write_buffer (toy_command x) = kernel_write_buffer x" for x
    by (simp add: toy_command_def Let_def led_macros wake_up_def)
  let ?data = "take (min copied (min cnt (BUF_SIZE - 1))) ubuf"
  let ?buf = "?data @ drop (length ?data) (replicate BUF_SIZE NUL)"
  have pad: "length (x @ drop (length x) (replicate 1024 NUL)) = 1024 \<and>
      (x @ drop (length x) (replicate 1024 NUL)) ! 1023 = NUL" if "length x \<le> 1023" for x
    using that by (simp add: nth_append)
  have "length ?data \<le> 1023" by (simp add: BUF_SIZE_def)
  from pad [OF this] have "length ?buf = BUF_SIZE" "?buf ! (BUF_SIZE - 1) = NUL"
    by (simp_all add: BUF_SIZE_def)
  moreover have "xs[i := NUL] ! j = NUL" if "xs ! j = NUL" for xs and i j :: nat
    using that by (cases "i < length xs") (auto simp: nth_list_update list_update_beyond)
  ultimately show ?thesis
    using assms by (auto simp: toy_driver_write_def Let_def frame EFAULT_def split: if_splits)
qed

lemma led_write_in_bounds_example:
  "fst (toy_driver_write ''sta'' 3 5000 led_dev_start) = -14 \<and>
     length (kernel_write_buffer (snd (toy_driver_write ''sta'' 3 5000 led_dev_start))) = 1024"
proof -
  have "fst (toy_driver_write ''sta'' 3 5000 led_dev_start) = -14"
    by (simp add: toy_driver_write_def Let_def BUF_SIZE_def EFAULT_def)
  with led_write_in_bounds [OF prod.collapse [symmetric], of "''sta''" 3 5000 led_dev_start]
  show ?thesis by (simp add: BUF_SIZE_def)
qed

text \<open>
  C37. Loading and unloading the LED module any number of times: it gives back what it took exactly if
  every \<open>class_create\<close>, \<open>device_create\<close> and \<open>cdev_add\<close> that it passed over had succeeded, and then
  nothing stays but the threads of the examples. Whatever the calls return, a failed load
  leaves nothing before \<open>cdev_add\<close>, the character device after it, and gives back what it never took
  when an error pointer was taken for a class or a device.
\<close>

theorem led_module_balance:
  assumes "\<forall>k \<in> set ks. fst (toy_module_init examples k) = 0" "fst (toy_module_init examples f) \<noteq> 0"
  shows "balance (concat (map (\<lambda>k. snd (toy_module_init examples k) @ snd (toy_module_exit d)) ks)) {#} =
      (if \<forall>k \<in> set ks. usable k then Some (sum_list (map (thread_stays examples) ks)) else None) \<and>
    balance (snd (toy_module_init examples f)) {#} =
      (if chrdev_result f < 0 \<or> class_result f = Null then Some {#}
       else if class_result f = Err_ptr then None
       else if device_result f = Null then Some {#}
       else if device_result f = Err_ptr then None
       else if cdev_result f = -1 then Some {#}
       else if gpios_ready f then None
       else Some (if cdev_result f = 0 then {#Kcdev#} else {#}))"
proof -
  have "balance (snd (toy_module_init examples f)) {#} =
      (if chrdev_result f < 0 \<or> class_result f = Null then Some {#}
       else if class_result f = Err_ptr then None
       else if device_result f = Null then Some {#}
       else if device_result f = Err_ptr then None
       else if cdev_result f = -1 then Some {#}
       else if gpios_ready f then None
       else Some (if cdev_result f = 0 then {#Kcdev#} else {#}))"
    using assms(2)
    by (cases "class_result f"; cases "device_result f"; cases "thread_result f")
      (auto simp: toy_init_defs toy_cleanup_def gpios_ready_def led_gpios_def gpio_numbers split: if_splits)
  with led.cycles [OF assms(1)] show ?thesis by simp
qed

definition all_ok :: kernel where
  "all_ok = \<lparr>chrdev_result = 0, class_result = Valid_ptr, device_result = Valid_ptr, cdev_result = 0,
     gpio_request_result = (\<lambda>_. 0), gpio_direction_result = (\<lambda>_. 0), irq_result = 0, thread_result = Valid_ptr\<rparr>"

theorem led_module_balance_witness:
  "balance (concat (map (\<lambda>k. snd (toy_module_init False k) @ snd (toy_module_exit led_dev_start)) [all_ok, all_ok])) {#} =
     Some {#} \<and>
   balance (snd (toy_module_init False (all_ok\<lparr>gpio_request_result := (\<lambda>n. if n = 535 then -16 else 0)\<rparr>))) {#} = Some {#Kcdev#}"
  using led_module_balance [of "[all_ok, all_ok]" False "all_ok\<lparr>gpio_request_result := (\<lambda>n. if n = 535 then -16 else 0)\<rparr>" led_dev_start]
  by (simp add: all_ok_def usable_def thread_stays_def gpios_ready_def led_gpios_def toy_init_defs gpio_numbers)

end
