(* ===== verification/Led_Thread.thy ===== *)
theory Led_Thread
  imports Led_Gpio
begin

text \<open>
  The thread of \<open>drivers/led_gpio.c\<close> that \<open>ENABLE_KTHREAD_EXAMPLES\<close> compiles in: six examples run one after
  the other, each until \<open>wait_queue_flag\<close> asks for the next one or for the end. The thread moves one
  access of the flag at a time, because writes to the device and the exit function run concurrently
  with it. The two lines of an LED macro are set in one step.
\<close>

section \<open>The examples\<close>

text \<open>
  The positions of an example: its start, the head of its loop, the reset of the flag in the loop, the wait or
  sleep, the two comparisons of the flag, and the return, which reads the flag once more. \<open>v\<close> is the
  local \<open>ledvalue\<close> of the first example. A position an example does not have is never entered.
\<close>

datatype ex_pc = Ex_start | Ex_loop | Ex_reset | Ex_wait | Ex_exit | Ex_next | Ex_return

datatype ex_move = Ex_go ex_pc int led_dev | Ex_blocked | Ex_returns int

definition ON :: int where
  "ON = 1"

definition OFF :: int where
  "OFF = 0"

definition set_flag :: "int \<Rightarrow> led_dev \<Rightarrow> led_dev" where
  "set_flag f d = d\<lparr>wait_queue_flag := f\<rparr>"

text \<open>The end of every loop body: both comparisons, the way back to \<open>again\<close>, and the return.\<close>

fun leave_test :: "ex_pc \<Rightarrow> ex_pc \<Rightarrow> int \<Rightarrow> led_dev \<Rightarrow> ex_move" where
  "leave_test again Ex_exit v d = Ex_go (if wait_queue_flag d = WAIT_QUEUE_EXIT then Ex_return else Ex_next) v d"
| "leave_test again Ex_next v d = Ex_go (if wait_queue_flag d = WAIT_QUEUE_NEXT then Ex_return else again) v d"
| "leave_test again Ex_return v d = Ex_returns (wait_queue_flag d)"
| "leave_test again p v d = Ex_blocked"

fun wait_event :: "int \<Rightarrow> led_dev \<Rightarrow> ex_move" where
  "wait_event v d = (if wait_queue_flag d \<noteq> WAIT_QUEUE_WAIT then Ex_go Ex_exit v d else Ex_blocked)"

fun toy_simple_io_example_1 :: "ex_pc \<Rightarrow> int \<Rightarrow> led_dev \<Rightarrow> ex_move" where
  "toy_simple_io_example_1 Ex_start v d = Ex_go Ex_loop OFF d"
| "toy_simple_io_example_1 Ex_loop v d =
     (if v = ON then Ex_go Ex_reset OFF (LED_LEFT_OFF d) else Ex_go Ex_reset ON (LED_LEFT_ON d))"
| "toy_simple_io_example_1 Ex_reset v d = Ex_go Ex_wait v (set_flag WAIT_QUEUE_WAIT d)"
| "toy_simple_io_example_1 Ex_wait v d = wait_event v d"
| "toy_simple_io_example_1 p v d = leave_test Ex_loop p v d"

fun toy_simple_io_example_2 :: "ex_pc \<Rightarrow> int \<Rightarrow> led_dev \<Rightarrow> ex_move" where
  "toy_simple_io_example_2 Ex_start v d = Ex_go Ex_loop v d"
| "toy_simple_io_example_2 Ex_loop v d = Ex_go Ex_reset v d"
| "toy_simple_io_example_2 Ex_reset v d = Ex_go Ex_wait v (set_flag WAIT_QUEUE_WAIT d)"
| "toy_simple_io_example_2 Ex_wait v d = wait_event v d"
| "toy_simple_io_example_2 p v d = leave_test Ex_loop p v d"

fun toy_simple_io_example_3 :: "ex_pc \<Rightarrow> int \<Rightarrow> led_dev \<Rightarrow> ex_move" where
  "toy_simple_io_example_3 Ex_start v d = Ex_go Ex_loop v (set_flag WAIT_QUEUE_WAIT d)"
| "toy_simple_io_example_3 Ex_loop v d = Ex_go Ex_reset v d"
| "toy_simple_io_example_3 Ex_reset v d = Ex_go Ex_wait v (set_flag WAIT_QUEUE_WAIT d)"
| "toy_simple_io_example_3 Ex_wait v d = wait_event v d"
| "toy_simple_io_example_3 p v d = leave_test Ex_loop p v d"

fun toy_simple_io_example_4 :: "ex_pc \<Rightarrow> int \<Rightarrow> led_dev \<Rightarrow> ex_move" where
  "toy_simple_io_example_4 Ex_start v d = Ex_go Ex_loop v (set_flag WAIT_QUEUE_WAIT d)"
| "toy_simple_io_example_4 Ex_loop v d = Ex_go Ex_wait v d"
| "toy_simple_io_example_4 Ex_wait v d = Ex_go Ex_exit v d"
| "toy_simple_io_example_4 p v d = leave_test Ex_loop p v d"

text \<open>\<open>key\<close> is the level of the input line when the example reads it.\<close>

fun toy_simple_io_example_5 :: "int \<Rightarrow> ex_pc \<Rightarrow> int \<Rightarrow> led_dev \<Rightarrow> ex_move" where
  "toy_simple_io_example_5 key Ex_start v d = Ex_go Ex_loop v (set_flag WAIT_QUEUE_WAIT d)"
| "toy_simple_io_example_5 key Ex_loop v d =
     Ex_go Ex_wait v (if key = 1 then LED_RIGHT_OFF (LED_LEFT_ON d) else LED_LEFT_OFF (LED_RIGHT_ON d))"
| "toy_simple_io_example_5 key Ex_wait v d = Ex_go Ex_exit v d"
| "toy_simple_io_example_5 key p v d = leave_test Ex_loop p v d"

fun toy_simple_io_example_6 :: "ex_pc \<Rightarrow> int \<Rightarrow> led_dev \<Rightarrow> ex_move" where
  "toy_simple_io_example_6 Ex_start v d = Ex_go Ex_loop v (set_flag WAIT_QUEUE_WAIT d)"
| "toy_simple_io_example_6 Ex_loop v d = Ex_go Ex_exit v d"
| "toy_simple_io_example_6 Ex_wait v d = Ex_go Ex_loop v d"
| "toy_simple_io_example_6 p v d = leave_test Ex_wait p v d"

definition io_example :: "nat \<Rightarrow> int \<Rightarrow> ex_pc \<Rightarrow> int \<Rightarrow> led_dev \<Rightarrow> ex_move" where
  "io_example n key =
     (if n = 1 then toy_simple_io_example_1 else if n = 2 then toy_simple_io_example_2
      else if n = 3 then toy_simple_io_example_3 else if n = 4 then toy_simple_io_example_4
      else if n = 5 then toy_simple_io_example_5 key else toy_simple_io_example_6)"

section \<open>The thread\<close>

datatype led_pc = K_top | K_in nat ex_pc int | K_done

text \<open>Nothing calls \<open>kthread_stop\<close>, so \<open>kthread_should_stop\<close> is false at \<open>K_top\<close>. \<open>None\<close>: asleep or ended.\<close>

fun simple_io_kthread :: "int \<Rightarrow> led_pc \<Rightarrow> led_dev \<Rightarrow> (led_pc \<times> led_dev) option" where
  "simple_io_kthread key K_top d = Some (K_in 1 Ex_start OFF, d)"
| "simple_io_kthread key (K_in n p v) d =
     (case io_example n key p v d of
        Ex_blocked \<Rightarrow> None
      | Ex_go q w d' \<Rightarrow> Some (K_in n q w, d')
      | Ex_returns r \<Rightarrow>
          Some (if r = WAIT_QUEUE_EXIT then K_done else if n = 6 then K_top else K_in (Suc n) Ex_start OFF, d))"
| "simple_io_kthread key K_done d = None"

record led_sys =
  led_state :: led_dev
  led_pc :: led_pc
  led_gone :: bool

definition led_sys_start :: led_sys where
  "led_sys_start = \<lparr>led_state = led_dev_start, led_pc = K_top, led_gone = False\<rparr>"

definition led_unload :: "led_sys \<Rightarrow> led_sys" where
  "led_unload s = s\<lparr>led_state := fst (toy_module_exit (led_state s)), led_gone := True\<rparr>"

inductive led_step :: "led_sys \<Rightarrow> led_sys \<Rightarrow> bool" where
  writes: "\<not> led_gone s \<Longrightarrow> toy_driver_write ubuf copied cnt (led_state s) = (r, d) \<Longrightarrow>
     led_step s (s\<lparr>led_state := d\<rparr>)"
| runs: "simple_io_kthread key (led_pc s) (led_state s) = Some (p, d) \<Longrightarrow>
     led_step s (s\<lparr>led_state := d, led_pc := p\<rparr>)"
| unloads: "\<not> led_gone s \<Longrightarrow> led_step s (led_unload s)"

section \<open>The flag\<close>

lemmas flag_values = WAIT_QUEUE_WAIT_def WAIT_QUEUE_KEY_def WAIT_QUEUE_NEXT_def WAIT_QUEUE_EXIT_def

lemma flag_frame [simp]:
  "wait_queue_flag (LED_LEFT_ON d) = wait_queue_flag d" "wait_queue_flag (LED_LEFT_OFF d) = wait_queue_flag d"
  "wait_queue_flag (LED_RIGHT_ON d) = wait_queue_flag d" "wait_queue_flag (LED_RIGHT_OFF d) = wait_queue_flag d"
  "wait_queue_flag (set_flag f d) = f"
  by (simp_all add: led_macros set_flag_def)

lemma exit_flag [simp]: "wait_queue_flag (fst (toy_module_exit d)) = WAIT_QUEUE_EXIT"
  by (simp add: toy_module_exit_def Let_def gpio_set_value_def wake_up_def)

lemma command_flag:
  "wait_queue_flag (toy_command d) \<in> {wait_queue_flag d, WAIT_QUEUE_WAIT, WAIT_QUEUE_KEY, WAIT_QUEUE_NEXT}"
  unfolding toy_command_def Let_def by (simp add: wake_up_def)

lemma write_flag:
  assumes "toy_driver_write ubuf copied cnt d = (r, d')"
  shows "wait_queue_flag d' \<in> {wait_queue_flag d, WAIT_QUEUE_WAIT, WAIT_QUEUE_KEY, WAIT_QUEUE_NEXT}"
proof -
  obtain b where "d' = d\<lparr>kernel_write_buffer := b\<rparr> \<or> d' = toy_command (d\<lparr>kernel_write_buffer := b\<rparr>)"
    using assms unfolding toy_driver_write_def Let_def by (metis prod.inject)
  with command_flag [of "d\<lparr>kernel_write_buffer := b\<rparr>"] show ?thesis by auto
qed

text \<open>Only the exit function asks for the end: a thread that has ended belongs to an unloaded module.\<close>

definition led_thread_inv :: "led_sys \<Rightarrow> bool" where
  "led_thread_inv s \<longleftrightarrow> led_gone s \<or> wait_queue_flag (led_state s) \<noteq> WAIT_QUEUE_EXIT \<and> led_pc s \<noteq> K_done"

lemma io_example_flag:
  "io_example n key p v d = Ex_go q w d' \<Longrightarrow> wait_queue_flag d' \<in> {wait_queue_flag d, WAIT_QUEUE_WAIT}"
  by (cases p) (auto simp: io_example_def split: if_splits)

lemma io_example_return: "io_example n key p v d = Ex_returns r \<Longrightarrow> r = wait_queue_flag d"
  by (cases p) (auto simp: io_example_def split: if_splits)

lemma led_thread_inv_step: "led_step s t \<Longrightarrow> led_thread_inv s \<Longrightarrow> led_thread_inv t"
proof (induction rule: led_step.induct)
  case (writes s ubuf copied cnt r d)
  with write_flag [OF writes(2)] show ?case by (auto simp: led_thread_inv_def flag_values)
next
  case (runs key s p d)
  then show ?case
    by (cases "led_pc s")
      (auto simp: led_thread_inv_def flag_values dest!: io_example_flag io_example_return
        split: ex_move.splits if_splits)
qed (simp add: led_thread_inv_def led_unload_def)

lemma led_thread_ends_unloaded:
  assumes "led_step\<^sup>*\<^sup>* led_sys_start s" "led_pc s = K_done"
  shows "led_gone s"
proof -
  have "led_thread_inv s"
    using assms(1) by (induction rule: rtranclp_induct)
      (auto simp: led_thread_inv_step, simp add: led_thread_inv_def led_sys_start_def led_dev_start_def flag_values)
  with assms(2) show ?thesis by (simp add: led_thread_inv_def)
qed

section \<open>The request to end\<close>

text \<open>The positions from which the thread reads the flag before it overwrites it.\<close>

fun reads_first :: "led_pc \<Rightarrow> bool" where
  "reads_first K_top = False"
| "reads_first (K_in n p v) = (p \<in> {Ex_wait, Ex_exit, Ex_return} \<or> n \<notin> {1, 2, 3} \<and> p \<in> {Ex_loop, Ex_next})"
| "reads_first K_done = True"

definition request_lost :: "led_sys \<Rightarrow> bool" where
  "request_lost s \<longleftrightarrow> led_gone s \<and>
     (wait_queue_flag (led_state s) = WAIT_QUEUE_EXIT \<and> \<not> reads_first (led_pc s) \<or>
      wait_queue_flag (led_state s) = WAIT_QUEUE_WAIT \<and> (\<exists>n p v. led_pc s = K_in n p v \<and> p \<noteq> Ex_return))"

lemma lost_before_reset:
  assumes "simple_io_kthread key p d = Some (q, d')" "wait_queue_flag d = WAIT_QUEUE_EXIT" "\<not> reads_first p"
  shows "wait_queue_flag d' = WAIT_QUEUE_EXIT \<and> \<not> reads_first q \<or>
      wait_queue_flag d' = WAIT_QUEUE_WAIT \<and> (\<exists>n e v. q = K_in n e v \<and> e \<noteq> Ex_return)"
proof (cases p)
  case (K_in n e v)
  with assms show ?thesis
    by (cases e) (auto simp: io_example_def flag_values split: if_splits)
qed (use assms in auto)

lemma lost_after_reset:
  assumes "simple_io_kthread key (K_in n e v) d = Some (q, d')" "wait_queue_flag d = WAIT_QUEUE_WAIT" "e \<noteq> Ex_return"
  shows "wait_queue_flag d' = WAIT_QUEUE_WAIT \<and> (\<exists>n e v. q = K_in n e v \<and> e \<noteq> Ex_return)"
  using assms by (cases e) (auto simp: io_example_def flag_values split: if_splits)

lemma request_lost_step: "led_step s t \<Longrightarrow> request_lost s \<Longrightarrow> request_lost t"
proof (induction rule: led_step.induct)
  case (runs key s p d)
  from runs(2) consider
      "wait_queue_flag (led_state s) = WAIT_QUEUE_EXIT" "\<not> reads_first (led_pc s)"
    | n e v where "wait_queue_flag (led_state s) = WAIT_QUEUE_WAIT" "led_pc s = K_in n e v" "e \<noteq> Ex_return"
    unfolding request_lost_def by blast
  then show ?case
  proof cases
    case 1
    from lost_before_reset [OF runs(1) 1] runs(2) show ?thesis by (simp add: request_lost_def)
  next
    case 2
    from lost_after_reset [OF runs(1) [unfolded 2(2)] 2(1,3)] runs(2) show ?thesis by (simp add: request_lost_def)
  qed
qed (simp_all add: request_lost_def)

lemma request_lost_forever: "led_step\<^sup>*\<^sup>* s t \<Longrightarrow> request_lost s \<Longrightarrow> request_lost t"
  by (induction rule: rtranclp_induct) (auto dest: request_lost_step)

lemma request_lost_runs: "request_lost s \<Longrightarrow> led_pc s \<noteq> K_done"
  by (auto simp: request_lost_def)

text \<open>The way of the thread to its end, from the return backwards.\<close>

definition can_end :: "led_sys \<Rightarrow> bool" where
  "can_end s \<longleftrightarrow> (\<exists>t. led_step\<^sup>*\<^sup>* s t \<and> led_pc t = K_done)"

lemma can_end_run:
  "simple_io_kthread key (led_pc s) (led_state s) = Some (p, d) \<Longrightarrow>
     can_end (s\<lparr>led_state := d, led_pc := p\<rparr>) \<Longrightarrow> can_end s"
  using led_step.runs [of key s p d] unfolding can_end_def by (blast intro: converse_rtranclp_into_rtranclp)

lemma can_end_done: "led_pc s = K_done \<Longrightarrow> can_end s"
  by (auto simp: can_end_def)

lemma can_end_return: "led_pc s = K_in n Ex_return v \<Longrightarrow> wait_queue_flag (led_state s) = WAIT_QUEUE_EXIT \<Longrightarrow> can_end s"
  by (rule can_end_run [of 0 s K_done "led_state s"]) (auto simp: io_example_def intro: can_end_done)

lemma can_end_exit: "led_pc s = K_in n Ex_exit v \<Longrightarrow> wait_queue_flag (led_state s) = WAIT_QUEUE_EXIT \<Longrightarrow> can_end s"
  by (rule can_end_run [of 0 s "K_in n Ex_return v" "led_state s"]) (auto simp: io_example_def intro: can_end_return)

lemma can_end_loop:
  assumes "led_pc s = K_in n Ex_loop v" "n \<notin> {1, 2, 3}" "wait_queue_flag (led_state s) = WAIT_QUEUE_EXIT"
  shows "can_end s"
proof -
  have w: "can_end t" if "led_pc t = K_in n Ex_wait v" "n = 4 \<or> n = 5" "wait_queue_flag (led_state t) = WAIT_QUEUE_EXIT" for t
    by (rule can_end_run [of 0 t "K_in n Ex_exit v" "led_state t"])
      (use that in \<open>auto simp: io_example_def intro: can_end_exit\<close>)
  consider "n = 4" | "n = 5" | "n \<noteq> 4" "n \<noteq> 5" by blast
  then show ?thesis
  proof cases
    case 1
    then show ?thesis
      by (intro can_end_run [of 0 s "K_in n Ex_wait v" "led_state s"] w) (use assms in \<open>auto simp: io_example_def\<close>)
  next
    case 2
    then show ?thesis
      by (intro can_end_run [of 0 s "K_in n Ex_wait v" "LED_LEFT_OFF (LED_RIGHT_ON (led_state s))"] w)
        (use assms in \<open>auto simp: io_example_def\<close>)
  next
    case 3
    then show ?thesis
      by (intro can_end_run [of 0 s "K_in n Ex_exit v" "led_state s"] can_end_exit [of _ n v])
        (use assms in \<open>auto simp: io_example_def\<close>)
  qed
qed

lemma can_end_wait:
  assumes "led_pc s = K_in n Ex_wait v" "wait_queue_flag (led_state s) = WAIT_QUEUE_EXIT"
  shows "can_end s"
proof (cases "n \<in> {1, 2, 3, 4, 5}")
  case True
  then show ?thesis
    by (intro can_end_run [of 0 s "K_in n Ex_exit v" "led_state s"] can_end_exit [of _ n v])
      (use assms in \<open>auto simp: io_example_def flag_values\<close>)
next
  case False
  then show ?thesis
    by (intro can_end_run [of 0 s "K_in n Ex_loop v" "led_state s"] can_end_loop [of _ n v])
      (use assms in \<open>auto simp: io_example_def\<close>)
qed

lemma can_end_next:
  assumes "led_pc s = K_in n Ex_next v" "n \<notin> {1, 2, 3}" "wait_queue_flag (led_state s) = WAIT_QUEUE_EXIT"
  shows "can_end s"
proof (cases "n = 4 \<or> n = 5")
  case True
  then show ?thesis
    by (intro can_end_run [of 0 s "K_in n Ex_loop v" "led_state s"] can_end_loop [of _ n v])
      (use assms in \<open>auto simp: io_example_def flag_values\<close>)
next
  case False
  then show ?thesis
    by (intro can_end_run [of 0 s "K_in n Ex_wait v" "led_state s"] can_end_wait [of _ n v])
      (use assms in \<open>auto simp: io_example_def flag_values\<close>)
qed

lemma reads_first_ends:
  assumes "reads_first (led_pc s)" "wait_queue_flag (led_state s) = WAIT_QUEUE_EXIT"
  shows "can_end s"
proof (cases "led_pc s")
  case (K_in n p v)
  with assms can_end_return [of s n v] can_end_exit [of s n v] can_end_wait [of s n v]
    can_end_loop [of s n v] can_end_next [of s n v]
  show ?thesis by auto
qed (use assms in \<open>simp_all add: can_end_done\<close>)

section \<open>Properties\<close>

text \<open>
  C24. When the exit function's request reaches the thread of the examples: after unloading the thread can
  end exactly if it was at a position from which it reads the flag before it resets it (in the wait or
  sleep, at the first comparison or the return of any example, and anywhere in the loops of the
  polling examples 4 to 6). At every other position, before its first example among them, the request
  is overwritten and the thread never ends. Before unloading it never ends at all.
\<close>

theorem led_stop_request:
  "((\<exists>t. led_step\<^sup>*\<^sup>* (led_unload s) t \<and> led_pc t = K_done) \<longleftrightarrow> reads_first (led_pc s)) \<and>
   \<not> reads_first (led_pc led_sys_start) \<and>
   (led_step\<^sup>*\<^sup>* led_sys_start s \<and> led_pc s = K_done \<longrightarrow> led_gone s)"
proof -
  have f: "wait_queue_flag (led_state (led_unload s)) = WAIT_QUEUE_EXIT" "led_pc (led_unload s) = led_pc s"
    "led_gone (led_unload s)"
    by (simp_all add: led_unload_def)
  have "can_end (led_unload s)" if "reads_first (led_pc s)"
    by (rule reads_first_ends) (simp_all add: f that)
  moreover have "led_pc t \<noteq> K_done" if "led_step\<^sup>*\<^sup>* (led_unload s) t" "\<not> reads_first (led_pc s)" for t
    using request_lost_forever [OF that(1)] that(2) f by (simp add: request_lost_def) auto
  ultimately show ?thesis
    using led_thread_ends_unloaded [of s] by (auto simp: can_end_def led_sys_start_def)
qed

theorem led_stop_request_witness:
  "\<exists>t. led_step\<^sup>*\<^sup>* (led_unload (led_sys_start\<lparr>led_pc := K_in 4 Ex_loop OFF\<rparr>)) t \<and> led_pc t = K_done"
  using led_stop_request [of "led_sys_start\<lparr>led_pc := K_in 4 Ex_loop OFF\<rparr>"] by simp

end
