(* ===== verification/Button_Interrupt.thy ===== *)
theory Button_Interrupt
  imports Kernel_Resources
begin

text \<open>
  \<open>drivers/button_interrupt.c\<close>: the button driver. A read registers the calling process, a button
  interrupt sends it a signal and wakes the driver's thread. The thread is modelled one access of
  \<open>wait_queue_flag\<close> at a time, because the interrupt handler, the file operations and the
  exit function run concurrently with it.
\<close>

section \<open>State\<close>

definition SIGNR :: int where
  "SIGNR = 10"

definition KDT_BUF_SIZE :: nat where
  "KDT_BUF_SIZE = 1024"

definition KDT_GPIO_OUTPUT :: nat where
  "KDT_GPIO_OUTPUT = 512 + 17"

definition KDT_GPIO_INPUT :: nat where
  "KDT_GPIO_INPUT = 512 + 16"

definition KDT_EFAULT :: int where
  "KDT_EFAULT = 14"

record button_dev =
  kdt_write_buffer :: cbuffer
  kdt_wait_flag :: int
  user_space_task :: "int option"
  signals :: "(int \<times> int) list"
  kdt_output :: int

definition button_start :: button_dev where
  "button_start = \<lparr>kdt_write_buffer = replicate KDT_BUF_SIZE NUL, kdt_wait_flag = 0, user_space_task = None,
     signals = [], kdt_output = 0\<rparr>"

section \<open>Handlers\<close>

text \<open>
  \<open>sent\<close> is the result of \<open>send_sig_info\<close>; a signal is logged with its process when it is not an error.
  The driver keeps \<open>current\<close> without a reference: once the process is gone (not \<open>alive\<close>) the pointer is to
  freed memory, and using it is the value \<open>None\<close>.
\<close>

definition kdt_gpio_irq_signal_handler :: "(int \<Rightarrow> bool) \<Rightarrow> int \<Rightarrow> button_dev \<Rightarrow> button_dev option" where
  "kdt_gpio_irq_signal_handler alive sent d =
     (case user_space_task d of
        None \<Rightarrow> Some (d\<lparr>kdt_wait_flag := 1\<rparr>)
      | Some pid \<Rightarrow>
          if \<not> alive pid then None
          else let d1 = (if sent < 0 then d else d\<lparr>signals := signals d @ [(pid, SIGNR)]\<rparr>)
               in Some (d1\<lparr>kdt_wait_flag := 1\<rparr>))"

text \<open>The result of a read: the return value and what reached the user buffer.\<close>

definition kdt_driver_read :: "int \<Rightarrow> bool \<Rightarrow> nat \<Rightarrow> button_dev \<Rightarrow> int \<times> string \<times> button_dev" where
  "kdt_driver_read current_pid copy_ok cnt d =
     (if cnt = 0 then (0, [], d)
      else if \<not> copy_ok then (- KDT_EFAULT, [], d)
      else (1, ''t'', d\<lparr>user_space_task := Some current_pid, kdt_wait_flag := 1\<rparr>))"

text \<open>
  \<open>copy_from_user\<close> is asked for \<open>cnt\<close> bytes without a bound: more than the buffer holds is a
  write outside it, the value \<open>None\<close>. After a fault, \<open>copied\<close> bytes into the request, the kernel clears the rest of
  the request; the fault is only logged and the command still run on the buffer.
\<close>

definition kdt_driver_write :: "string \<Rightarrow> nat \<Rightarrow> nat \<Rightarrow> button_dev \<Rightarrow> (int \<times> button_dev) option" where
  "kdt_driver_write ubuf copied cnt d =
     (let data = take (min copied cnt) ubuf @ replicate (cnt - copied) NUL in
      if cnt > KDT_BUF_SIZE then None
      else let buf = data @ drop (length data) (kdt_write_buffer d);
               d1 = d\<lparr>kdt_write_buffer := buf\<rparr>;
               c = buf ! 0
           in Some (int cnt, if c = CHR 0x00 then d1\<lparr>kdt_output := 0\<rparr>
                             else if c = CHR 0x01 then d1\<lparr>kdt_output := 1\<rparr>
                             else d1))"

definition kdt_driver_open :: int where
  "kdt_driver_open = 0"

definition kdt_driver_close :: int where
  "kdt_driver_close = 0"

text \<open>Presses one after the other, each with the result of its \<open>send_sig_info\<close>.\<close>

fun button_presses :: "(int \<Rightarrow> bool) \<Rightarrow> int list \<Rightarrow> button_dev \<Rightarrow> button_dev option" where
  "button_presses alive [] d = Some d"
| "button_presses alive (sent # rest) d =
     (case kdt_gpio_irq_signal_handler alive sent d of None \<Rightarrow> None | Some d' \<Rightarrow> button_presses alive rest d')"

section \<open>Loading and unloading\<close>

definition kdt_cleanup :: "kev list" where
  "kdt_cleanup = map Dropped [Gpio KDT_GPIO_INPUT, Gpio KDT_GPIO_OUTPUT, Kdevice, Kclass, Chrdev]"

text \<open>A loading process that the kernel kills returns no result; it counts as a failed load.\<close>

definition kdt_module_init :: "kernel \<Rightarrow> int \<times> kev list" where
  "kdt_module_init k =
     (if chrdev_result k < 0 then (-1, [])
      else let e1 = [Got Chrdev] in
        if class_result k = Null then (-1, e1 @ drop 4 kdt_cleanup)
        else let e2 = e1 @ (if class_result k = Valid_ptr then [Got Kclass] else []) in
          if device_result k = Null then (-1, e2 @ drop 3 kdt_cleanup)
          else let e3 = e2 @ (if device_result k = Valid_ptr then [Got Kdevice] else []) in
            if cdev_result k = -1 then (-1, e3 @ drop 2 kdt_cleanup)
            else let e4 = e3 @ (if cdev_result k = 0 then [Got Kcdev] else []) in
              if gpio_request_result k KDT_GPIO_OUTPUT \<noteq> 0 then (-1, e4 @ drop 2 kdt_cleanup)
              else let e5 = e4 @ [Got (Gpio KDT_GPIO_OUTPUT)] in
                if gpio_direction_result k KDT_GPIO_OUTPUT \<noteq> 0 then (-1, e5 @ drop 1 kdt_cleanup)
                else if gpio_request_result k KDT_GPIO_INPUT \<noteq> 0 then (-1, e5 @ kdt_cleanup)
                else let e6 = e5 @ [Got (Gpio KDT_GPIO_INPUT)] in
                  if gpio_direction_result k KDT_GPIO_INPUT \<noteq> 0 then (-1, e6 @ kdt_cleanup)
                  else let e7 = e6 @ start_thread (thread_result k) in
                    if Oops \<in> set e7 then (-1, e7)
                    else if irq_result k \<noteq> 0 then (-1, e7 @ [Dropped (Gpio KDT_GPIO_OUTPUT)])
                    else (0, e7 @ [Got Irq]))"

definition kdt_module_exit :: "button_dev \<Rightarrow> button_dev \<times> kev list" where
  "kdt_module_exit d =
     (d\<lparr>kdt_wait_flag := 2, kdt_output := 0\<rparr>,
      map Dropped [Irq, Gpio KDT_GPIO_INPUT, Gpio KDT_GPIO_OUTPUT, Kcdev, Kdevice, Kclass, Chrdev])"

section \<open>The thread\<close>

text \<open>
  \<open>kdt_wait_kthread\<close>: at \<open>T_wait\<close> it sleeps until the flag is not 0, at \<open>T_check\<close> it compares the
  flag with 2, at \<open>T_clear\<close> it sets the flag to 0.
\<close>

datatype thread_pc = T_wait | T_check | T_clear | T_done

fun kdt_wait_kthread :: "thread_pc \<Rightarrow> button_dev \<Rightarrow> (thread_pc \<times> button_dev) option" where
  "kdt_wait_kthread T_wait d = (if kdt_wait_flag d \<noteq> 0 then Some (T_check, d) else None)"
| "kdt_wait_kthread T_check d = Some (if kdt_wait_flag d = 2 then T_done else T_clear, d)"
| "kdt_wait_kthread T_clear d = Some (T_wait, d\<lparr>kdt_wait_flag := 0\<rparr>)"
| "kdt_wait_kthread T_done d = None"

record button_sys =
  dev :: button_dev
  pc :: thread_pc
  unloaded :: bool
  readers :: "int list"
  exited :: "int set"

definition button_sys_start :: button_sys where
  "button_sys_start = \<lparr>dev = button_start, pc = T_wait, unloaded = False, readers = [], exited = {}\<rparr>"

text \<open>
  \<open>readers\<close> is history: the processes that read the device, latest first. \<open>exited\<close> are the processes
  that are gone; nothing tells the driver. An interrupt that would use a freed task has no step.
\<close>

inductive button_step :: "button_sys \<Rightarrow> button_sys \<Rightarrow> bool" where
  irq: "\<not> unloaded s \<Longrightarrow> kdt_gpio_irq_signal_handler (\<lambda>pid. pid \<notin> exited s) sent (dev s) = Some d \<Longrightarrow>
     button_step s (s\<lparr>dev := d\<rparr>)"
| reading: "\<not> unloaded s \<Longrightarrow> pid \<notin> exited s \<Longrightarrow> kdt_driver_read pid ok n (dev s) = (r, out, d) \<Longrightarrow>
     button_step s (s\<lparr>dev := d, readers := (if r = 1 then pid # readers s else readers s)\<rparr>)"
| writing: "\<not> unloaded s \<Longrightarrow> kdt_driver_write ubuf copied n (dev s) = Some (r, d) \<Longrightarrow>
     button_step s (s\<lparr>dev := d\<rparr>)"
| thread: "kdt_wait_kthread (pc s) (dev s) = Some (p, d) \<Longrightarrow> button_step s (s\<lparr>dev := d, pc := p\<rparr>)"
| leaving: "button_step s (s\<lparr>exited := insert pid (exited s)\<rparr>)"
| unload: "\<not> unloaded s \<Longrightarrow> button_step s (s\<lparr>dev := fst (kdt_module_exit (dev s)), unloaded := True\<rparr>)"

inductive button_reachable :: "button_sys \<Rightarrow> bool" where
  start: "button_reachable button_sys_start"
| step: "button_reachable s \<Longrightarrow> button_step s t \<Longrightarrow> button_reachable t"

definition button_inv :: "button_sys \<Rightarrow> bool" where
  "button_inv s \<longleftrightarrow> length (kdt_write_buffer (dev s)) = KDT_BUF_SIZE \<and>
     user_space_task (dev s) = (case readers s of [] \<Rightarrow> None | p # _ \<Rightarrow> Some p) \<and>
     (\<forall>(p, n) \<in> set (signals (dev s)). p \<in> set (readers s) \<and> n = SIGNR) \<and>
     kdt_wait_flag (dev s) \<in> {0, 1, 2} \<and> (kdt_wait_flag (dev s) = 2 \<longrightarrow> unloaded s) \<and>
     (pc s = T_done \<longrightarrow> unloaded s)"

lemma write_dev_frame:
  "kdt_driver_write ubuf copied n d = Some (r, d') \<Longrightarrow> length (kdt_write_buffer d) = KDT_BUF_SIZE \<Longrightarrow>
     length (kdt_write_buffer d') = KDT_BUF_SIZE \<and> user_space_task d' = user_space_task d \<and>
     signals d' = signals d \<and> kdt_wait_flag d' = kdt_wait_flag d"
  by (auto simp: kdt_driver_write_def Let_def split: if_splits)

lemma button_inv_step: "button_step s t \<Longrightarrow> button_inv s \<Longrightarrow> button_inv t"
proof (induction rule: button_step.induct)
  case (irq s sent d)
  then show ?case
    by (auto simp: button_inv_def kdt_gpio_irq_signal_handler_def Let_def SIGNR_def
        split: list.splits option.splits if_splits)
next
  case (reading s pid ok n r out d)
  then show ?case
    by (auto simp: button_inv_def kdt_driver_read_def KDT_EFAULT_def split: if_splits list.splits)
next
  case (writing s ubuf copied n r d)
  with write_dev_frame [OF writing(2)] show ?case by (auto simp: button_inv_def)
next
  case (thread s p d)
  then show ?case by (cases "pc s") (auto simp: button_inv_def split: if_splits)
next
  case (leaving s pid)
  then show ?case by (simp add: button_inv_def)
next
  case (unload s)
  then show ?case by (auto simp: button_inv_def kdt_module_exit_def)
qed

lemma button_reachable_inv: "button_reachable s \<Longrightarrow> button_inv s"
proof (induction rule: button_reachable.induct)
  case start
  then show ?case by (simp add: button_inv_def button_sys_start_def button_start_def)
next
  case (step s t)
  then show ?case using button_inv_step by blast
qed

definition kdt_full :: "kres list" where
  "kdt_full = [Chrdev, Kclass, Kdevice, Kcdev, Gpio KDT_GPIO_OUTPUT, Gpio KDT_GPIO_INPUT, Irq]"

lemma kdt_init_success:
  assumes "fst (kdt_module_init k) = 0"
  shows "snd (kdt_module_init k) =
    [Got Chrdev] @ (if class_result k = Valid_ptr then [Got Kclass] else []) @
    (if device_result k = Valid_ptr then [Got Kdevice] else []) @ (if cdev_result k = 0 then [Got Kcdev] else []) @
    [Got (Gpio KDT_GPIO_OUTPUT), Got (Gpio KDT_GPIO_INPUT)] @
    (if thread_result k = Valid_ptr then [Got Kthread] else []) @ [Got Irq]"
  using assms
  by (cases "class_result k"; cases "device_result k"; cases "thread_result k")
    (simp_all add: kdt_module_init_def Let_def split: if_splits)

lemma kdt_exit_events:
  "snd (kdt_module_exit d) = map Dropped [Irq, Gpio KDT_GPIO_INPUT, Gpio KDT_GPIO_OUTPUT, Kcdev, Kdevice, Kclass, Chrdev]"
  by (simp add: kdt_module_exit_def)

interpretation button: driver_module usable kdt_module_init "\<lambda>k. snd (kdt_module_exit d)"
  "\<lambda>k. mset kdt_full" "thread_stays True" for d
proof (unfold_locales, goal_cases)
  case (1 k)
  then show ?case by (simp add: kdt_init_success usable_def thread_stays_def kdt_full_def)
next
  case 2
  then show ?case by (simp add: kdt_exit_events kdt_full_def KDT_GPIO_INPUT_def KDT_GPIO_OUTPUT_def)
next
  case (3 k n)
  then show ?case
    by (auto simp: kdt_init_success kdt_exit_events usable_def KDT_GPIO_INPUT_def KDT_GPIO_OUTPUT_def)
qed (simp add: thread_stays_def)

section \<open>The thread after unloading\<close>

text \<open>Once the module is unloaded only the thread and the processes move.\<close>

lemma stop_lost_step:
  "button_step s t \<Longrightarrow> unloaded s \<and> (pc s = T_clear \<or> pc s = T_wait \<and> kdt_wait_flag (dev s) = 0) \<Longrightarrow>
     unloaded t \<and> (pc t = T_clear \<or> pc t = T_wait \<and> kdt_wait_flag (dev t) = 0)"
  by (induction rule: button_step.induct) auto

lemma stop_lost_forever:
  assumes "button_step\<^sup>*\<^sup>* s t" "unloaded s" "pc s = T_clear \<or> pc s = T_wait \<and> kdt_wait_flag (dev s) = 0"
  shows "unloaded t \<and> (pc t = T_clear \<or> pc t = T_wait \<and> kdt_wait_flag (dev t) = 0)"
  using assms by (induction rule: rtranclp_induct) (auto dest: stop_lost_step)

lemma stop_seen:
  assumes "kdt_wait_flag (dev s) = 2" "pc s \<noteq> T_clear"
  shows "\<exists>t. button_step\<^sup>*\<^sup>* s t \<and> pc t = T_done"
proof -
  have c: "\<exists>t. button_step\<^sup>*\<^sup>* r t \<and> pc t = T_done" if "pc r = T_check" "kdt_wait_flag (dev r) = 2" for r
    using button_step.thread [of r T_done "dev r"] that by (intro exI [of _ "r\<lparr>pc := T_done\<rparr>"]) auto
  show ?thesis
  proof (cases "pc s")
    case T_wait
    then have "button_step s (s\<lparr>pc := T_check\<rparr>)"
      using button_step.thread [of s T_check "dev s"] assms(1) by simp
    with c [of "s\<lparr>pc := T_check\<rparr>"] assms(1) show ?thesis
      by (auto intro: converse_rtranclp_into_rtranclp)
  qed (use c assms in auto)
qed

section \<open>Properties\<close>

text \<open>
  C38. A button press signals the right process: in every interleaving of interrupts, reads, writes,
  exiting processes, the driver's thread and unloading, an interrupt whose signal is delivered goes to the
  process that read the device last, as long as that process lives; no process that never
  read it is ever signalled; and once the last reader is gone the handler uses its freed task.
\<close>

theorem button_signals_last_reader:
  assumes "button_reachable s" "readers s = p # rest" "0 \<le> sent"
  shows "map_option signals (kdt_gpio_irq_signal_handler (\<lambda>pid. pid \<notin> exited s) sent (dev s)) =
      (if p \<in> exited s then None else Some (signals (dev s) @ [(p, SIGNR)])) \<and>
    fst ` set (signals (dev s)) \<subseteq> set (readers s)"
  using button_reachable_inv [OF assms(1)] assms(2,3)
  by (auto simp: button_inv_def kdt_gpio_irq_signal_handler_def Let_def)

theorem button_signals_last_reader_witness:
  "\<exists>s. button_reachable s \<and> \<not> unloaded s \<and> kdt_gpio_irq_signal_handler (\<lambda>pid. pid \<notin> exited s) 0 (dev s) = None"
proof -
  let ?s = "button_sys_start\<lparr>dev := button_start\<lparr>user_space_task := Some 42, kdt_wait_flag := 1\<rparr>, readers := [42]\<rparr>"
  let ?t = "?s\<lparr>exited := {42}\<rparr>"
  have "button_step button_sys_start ?s"
    using button_step.reading [of button_sys_start 42 True 1 1 "''t''"
        "button_start\<lparr>user_space_task := Some 42, kdt_wait_flag := 1\<rparr>"]
    by (simp add: button_sys_start_def kdt_driver_read_def)
  then have s: "button_reachable ?s" by (rule button_reachable.step [OF button_reachable.start])
  have "button_step ?s ?t" using button_step.leaving [of ?s 42] by (simp add: button_sys_start_def)
  with s have t: "button_reachable ?t" by (rule button_reachable.step)
  with button_signals_last_reader [of ?t 42 "[]" 0] show ?thesis
    by (intro exI [of _ ?t]) (simp add: button_sys_start_def)
qed

text \<open>The device nodes a load has really obtained, whatever it took for a success.\<close>

definition nodes_valid :: "kernel \<Rightarrow> bool" where
  "nodes_valid k \<longleftrightarrow> class_result k = Valid_ptr \<and> device_result k = Valid_ptr"

definition cdev_held :: "kernel \<Rightarrow> kres multiset" where
  "cdev_held k = (if cdev_result k = 0 then {#Kcdev#} else {#})"

definition nodes_held :: "kernel \<Rightarrow> kres multiset" where
  "nodes_held k = (if class_result k = Valid_ptr then {#Kclass#} else {#}) +
     (if device_result k = Valid_ptr then {#Kdevice#} else {#})"

text \<open>
  C39. Loading and unloading the button module, path by path. Successful loads give back what they
  took exactly if every call they passed over had succeeded; the thread of each stays. What a failed
  load leaves, for every result of every call: nothing up to \<open>cdev_add\<close>, and after it the character device, provided
  that no error pointer was taken for a class or a device, for then the error path gives back what it never got
  (no balance); a failed request of the input line frees a line that was never requested (no balance);
  a thread that could not be created is woken (no balance); and a failed interrupt request keeps the
  device number, the input line, whatever nodes there are and the running thread.
\<close>

theorem button_module_balance:
  assumes "\<forall>k \<in> set ks. fst (kdt_module_init k) = 0" "fst (kdt_module_init f) \<noteq> 0"
  shows "balance (concat (map (\<lambda>k. snd (kdt_module_init k) @ snd (kdt_module_exit d)) ks)) {#} =
      (if \<forall>k \<in> set ks. usable k then Some (sum_list (map (thread_stays True) ks)) else None) \<and>
    balance (snd (kdt_module_init f)) {#} =
      (if chrdev_result f < 0 \<or> class_result f = Null then Some {#}
       else if device_result f = Null then (if class_result f = Valid_ptr then Some {#} else None)
       else if cdev_result f = -1 then (if nodes_valid f then Some {#} else None)
       else if gpio_request_result f KDT_GPIO_OUTPUT \<noteq> 0 \<or> gpio_direction_result f KDT_GPIO_OUTPUT \<noteq> 0
       then (if nodes_valid f then Some (cdev_held f) else None)
       else if gpio_request_result f KDT_GPIO_INPUT \<noteq> 0 then None
       else if gpio_direction_result f KDT_GPIO_INPUT \<noteq> 0 then (if nodes_valid f then Some (cdev_held f) else None)
       else if thread_result f = Err_ptr then None
       else Some ({#Chrdev, Gpio KDT_GPIO_INPUT#} + nodes_held f + cdev_held f + thread_stays True f))"
proof -
  have "balance (snd (kdt_module_init f)) {#} =
      (if chrdev_result f < 0 \<or> class_result f = Null then Some {#}
       else if device_result f = Null then (if class_result f = Valid_ptr then Some {#} else None)
       else if cdev_result f = -1 then (if nodes_valid f then Some {#} else None)
       else if gpio_request_result f KDT_GPIO_OUTPUT \<noteq> 0 \<or> gpio_direction_result f KDT_GPIO_OUTPUT \<noteq> 0
       then (if nodes_valid f then Some (cdev_held f) else None)
       else if gpio_request_result f KDT_GPIO_INPUT \<noteq> 0 then None
       else if gpio_direction_result f KDT_GPIO_INPUT \<noteq> 0 then (if nodes_valid f then Some (cdev_held f) else None)
       else if thread_result f = Err_ptr then None
       else Some ({#Chrdev, Gpio KDT_GPIO_INPUT#} + nodes_held f + cdev_held f + thread_stays True f))"
    using assms(2)
    by (cases "class_result f"; cases "device_result f"; cases "thread_result f")
      (auto simp: kdt_module_init_def Let_def kdt_cleanup_def KDT_GPIO_INPUT_def KDT_GPIO_OUTPUT_def
        nodes_valid_def nodes_held_def cdev_held_def thread_stays_def split: if_splits)
  with button.cycles [OF assms(1)] show ?thesis by simp
qed

definition button_kernel :: kernel where
  "button_kernel = \<lparr>chrdev_result = 0, class_result = Valid_ptr, device_result = Valid_ptr, cdev_result = 0,
     gpio_request_result = (\<lambda>_. 0), gpio_direction_result = (\<lambda>_. 0), irq_result = 0, thread_result = Valid_ptr\<rparr>"

theorem button_module_balance_witness:
  "balance (concat (map (\<lambda>k. snd (kdt_module_init k) @ snd (kdt_module_exit button_start)) [button_kernel, button_kernel])) {#} =
     Some {#Kthread, Kthread#} \<and>
   balance (snd (kdt_module_init (button_kernel\<lparr>class_result := Null\<rparr>))) {#} = Some {#} \<and>
   balance (snd (kdt_module_init (button_kernel\<lparr>class_result := Err_ptr, cdev_result := -1\<rparr>))) {#} = None"
  using button_module_balance [of "[button_kernel, button_kernel]" "button_kernel\<lparr>class_result := Null\<rparr>" button_start]
    button_module_balance [of "[]" "button_kernel\<lparr>class_result := Err_ptr, cdev_result := -1\<rparr>" button_start]
  by (simp add: button_kernel_def usable_def thread_stays_def kdt_module_init_def nodes_valid_def)

text \<open>
  C40. When the request to stop reaches the thread: if the exit function runs while the thread waits or
  is about to test the flag, the thread can still end; if it runs between the thread's test and its
  reset of the flag, the request is overwritten and the thread never ends, whatever follows.
  Both happen: the second in an interleaving of an interrupt with the thread.
\<close>

theorem button_stop_request:
  "((\<exists>t. button_step\<^sup>*\<^sup>* (s\<lparr>dev := fst (kdt_module_exit (dev s)), unloaded := True\<rparr>) t \<and> pc t = T_done) \<longleftrightarrow>
      pc s \<noteq> T_clear) \<and>
   (\<exists>s. button_reachable s \<and> \<not> unloaded s \<and> pc s = T_clear)"
proof -
  let ?r = "button_sys_start\<lparr>dev := button_start\<lparr>kdt_wait_flag := 1\<rparr>\<rparr>"
  let ?c = "?r\<lparr>pc := T_check\<rparr>" and ?l = "?r\<lparr>pc := T_clear\<rparr>"
  have "button_step button_sys_start ?r"
    using button_step.irq [of button_sys_start 0 "button_start\<lparr>kdt_wait_flag := 1\<rparr>"]
    by (simp add: kdt_gpio_irq_signal_handler_def button_sys_start_def button_start_def)
  then have r: "button_reachable ?r" by (rule button_reachable.step [OF button_reachable.start])
  have "button_step ?r ?c"
    using button_step.thread [of ?r T_check "dev ?r"] by (simp add: button_sys_start_def)
  with r have c: "button_reachable ?c" by (rule button_reachable.step)
  have "button_step ?c ?l"
    using button_step.thread [of ?c T_clear "dev ?c"] by simp
  with c have "button_reachable ?l" by (rule button_reachable.step)
  moreover have "\<not> unloaded ?l" "pc ?l = T_clear" by (simp_all add: button_sys_start_def)
  ultimately have ex: "\<exists>s. button_reachable s \<and> \<not> unloaded s \<and> pc s = T_clear" by blast
  let ?u = "s\<lparr>dev := fst (kdt_module_exit (dev s)), unloaded := True\<rparr>"
  have "pc t \<noteq> T_done" if "button_step\<^sup>*\<^sup>* ?u t" "pc s = T_clear" for t
    using stop_lost_forever [OF that(1)] that(2) by auto
  moreover have "\<exists>t. button_step\<^sup>*\<^sup>* ?u t \<and> pc t = T_done" if "pc s \<noteq> T_clear"
    by (rule stop_seen) (use that in \<open>simp_all add: kdt_module_exit_def\<close>)
  ultimately show ?thesis using ex by blast
qed

end
