(* ===== verification/Sensor_Spi.thy ===== *)
theory Sensor_Spi
  imports Kernel_Resources
begin

text \<open>
  \<open>drivers/sensor_spi.c\<close>: the temperature driver. The compensation formula is computed on 32-bit
  words as the kernel computes it (wrapping, arithmetic right shifts) and compared with the same
  formula over the integers. The SPI controller is a parameter: \<open>spi_sync\<close> as a function of the bytes sent,
  the receive transfers and the receive buffer.
\<close>

section \<open>Constants and data\<close>

definition SENSOR_EIO :: int where
  "SENSOR_EIO = 5"

definition SENSOR_ENOMEM :: int where
  "SENSOR_ENOMEM = 12"

definition SENSOR_EFAULT :: int where
  "SENSOR_EFAULT = 14"

definition target_byte :: nat where
  "target_byte = 512"

record calibration =
  dig_T1 :: s32
  dig_T2 :: s32
  dig_T3 :: s32

type_synonym rx_transfer = "nat \<times> nat \<times> nat"

text \<open>\<open>spi_sync\<close> returns its result and the receive buffer after it.\<close>

record spi_io =
  tx_alloc :: bool
  rx_alloc :: bool
  spi_sync :: "u8 list \<Rightarrow> rx_transfer list \<Rightarrow> u8 list \<Rightarrow> int \<times> u8 list"

section \<open>Reading the temperature\<close>

text \<open>
  The receive transfers of one message: index in \<open>txfers\<close>, offset in the buffer, length. Without
  DMA the buffer is received in pieces of at most 95 bytes, one less than the length from which the
  controller would use DMA by itself.
\<close>

function pio_transfers :: "nat \<Rightarrow> nat \<Rightarrow> nat \<Rightarrow> rx_transfer list" where
  "pio_transfers remain offset i =
     (if remain > 0
      then let chunk = (if remain > 95 then 95 else remain)
           in (i, offset, chunk) # pio_transfers (remain - chunk) (offset + chunk) (Suc i)
      else [])"
  by pat_completeness auto
termination
  by (relation "measure (\<lambda>(remain, offset, i). remain)") (auto simp: Let_def)

declare pio_transfers.simps [simp del]

definition rx_transfers :: "int \<Rightarrow> rx_transfer list" where
  "rx_transfers dma_mode =
     (if dma_mode \<noteq> 0 then [(1, 0, target_byte)] else pio_transfers target_byte 0 1)"

definition raw_temperature :: "u8 \<times> u8 \<times> u8 \<Rightarrow> s32" where
  "raw_temperature = (\<lambda>(d0, d1, d2).
     signed_drop_bit 4 (push_bit 16 (ucast d0) OR push_bit 8 (ucast d1) OR ucast d2))"

definition compensate :: "calibration \<Rightarrow> s32 \<Rightarrow> s32" where
  "compensate cal raw_temp =
     (let var1 = signed_drop_bit 11 ((signed_drop_bit 3 raw_temp - push_bit 1 (dig_T1 cal)) * dig_T2 cal);
          diff = signed_drop_bit 4 raw_temp - dig_T1 cal;
          var2 = signed_drop_bit 14 (signed_drop_bit 12 (diff * diff) * dig_T3 cal)
      in signed_drop_bit 8 ((var1 + var2) * 5 + 128))"

text \<open>One message: the register address out of \<open>tx_buf\<close>, then the receive transfers into the zeroed \<open>rx_buf\<close>.\<close>

definition send_message :: "spi_io \<Rightarrow> int \<Rightarrow> int \<times> u8 list" where
  "send_message io mode = spi_sync io [0xFA OR 0x80] (rx_transfers mode) (replicate target_byte 0)"

definition read_temperature :: "spi_io \<Rightarrow> int \<Rightarrow> calibration \<Rightarrow> int" where
  "read_temperature io mode cal =
     (if \<not> tx_alloc io \<or> \<not> rx_alloc io then - SENSOR_ENOMEM
      else let (ret, rx_buf) = send_message io mode;
               raw_data = (if ret = 0 then (rx_buf ! 0, rx_buf ! 1, rx_buf ! 2) else (0, 0, 0)) in
        if ret < 0 then - SENSOR_EIO
        else sint (compensate cal (raw_temperature raw_data)))"

section \<open>File operations\<close>

definition temp_text :: "int \<Rightarrow> string" where
  "temp_text t = dec_int (t sdiv 100) @ ''.'' @ dec02 (t smod 100) @ [newline]"

text \<open>
  \<open>stack\<close> is what the 20 bytes of \<open>out_string\<close> held before. \<open>copy_to_user\<close> gives, for the buffer and the count it
  is asked for, how many bytes were left and what reached the reader. The count is the reader's and has
  no bound: what happens beyond the 20 bytes, a refusal or a look at the stack, is up to the kernel.
\<close>

definition k_driver_read ::
    "spi_io \<Rightarrow> int \<Rightarrow> calibration \<Rightarrow> cbuffer \<Rightarrow> (cbuffer \<Rightarrow> nat \<Rightarrow> nat \<times> string) \<Rightarrow> nat \<Rightarrow> int \<times> string" where
  "k_driver_read io mode cal stack copy_to_user cnt =
     (let out_string = snprintf stack 20 (temp_text (read_temperature io mode cal));
          (left, got) = copy_to_user out_string cnt in
      if left \<noteq> 0 then (- SENSOR_EFAULT, got) else (int cnt, got))"

definition k_driver_write :: "nat \<Rightarrow> int" where
  "k_driver_write cnt = int cnt"

definition k_driver_open :: int where
  "k_driver_open = 0"

definition k_driver_close :: int where
  "k_driver_close = 0"

section \<open>Attributes, work and timer\<close>

record temp_sysfs =
  notify_value :: int
  trigger_value :: int
  use_dma_value :: int
  dma_mode :: int
  notified :: "string list"
  work_pending :: bool
  toy_kobj :: bool

text \<open>\<open>toy_kobj\<close>: the attribute object exists. It is \<open>NULL\<close> when its memory could not be allocated.\<close>

definition temp_sysfs_start :: temp_sysfs where
  "temp_sysfs_start = \<lparr>notify_value = 0, trigger_value = 0, use_dma_value = 0, dma_mode = 0,
     notified = [], work_pending = False, toy_kobj = True\<rparr>"

datatype temp_attr = Notify | Trigger | Use_dma

fun attr_value :: "temp_attr \<Rightarrow> temp_sysfs \<Rightarrow> int" where
  "attr_value Notify s = notify_value s"
| "attr_value Trigger s = trigger_value s"
| "attr_value Use_dma s = use_dma_value s"

definition show_attr :: "temp_attr \<Rightarrow> temp_sysfs \<Rightarrow> string" where
  "show_attr a s = temp_text (attr_value a s)"

text \<open>\<open>sscanf\<close> with \<open>%d\<close>: no digits, no conversion.\<close>

definition sscanf_d :: "string \<Rightarrow> int option" where
  "sscanf_d s =
     (let (neg, r) = split_sign (dropWhile is_space s); ds = takeWhile is_digit r in
      if ds = [] then None
      else Some (c_int (if neg then - int (digits_val 0 ds) else int (digits_val 0 ds))))"

definition store_attr :: "temp_attr \<Rightarrow> string \<Rightarrow> temp_sysfs \<Rightarrow> int \<times> temp_sysfs" where
  "store_attr a buf s =
     (let v = (case sscanf_d buf of Some n \<Rightarrow> n | None \<Rightarrow> attr_value a s) in
      (int (length buf),
       (case a of
          Notify \<Rightarrow> s\<lparr>notify_value := v, notified := notified s @ [''notify'']\<rparr>
        | Trigger \<Rightarrow> s\<lparr>trigger_value := v, notified := notified s @ [''trigger'']\<rparr>
        | Use_dma \<Rightarrow> s\<lparr>use_dma_value := v, dma_mode := v\<rparr>)))"

text \<open>\<open>sysfs_notify\<close> reads the object it is given: \<open>NULL\<close> is a crash, the value \<open>None\<close>.\<close>

definition workqueue_fn :: "spi_io \<Rightarrow> calibration \<Rightarrow> temp_sysfs \<Rightarrow> temp_sysfs option" where
  "workqueue_fn io cal s =
     (let s1 = s\<lparr>notify_value := read_temperature io (dma_mode s) cal\<rparr> in
      if \<not> toy_kobj s1 then None
      else Some (s1\<lparr>notified := notified s @ [''notify''], work_pending := False\<rparr>))"

text \<open>\<open>queue_work\<close> on work that is already queued changes nothing; the timer restarts every second.\<close>

definition sensor_timer_callback :: "temp_sysfs \<Rightarrow> nat \<times> temp_sysfs" where
  "sensor_timer_callback s = (1000, s\<lparr>work_pending := True\<rparr>)"

section \<open>Loading and unloading\<close>

record sensor_kernel = kernel +
  np_found :: bool
  pdev_found :: bool
  ctlr_found :: bool
  spi_new :: bool
  setup_result :: int
  calib_read :: "nat \<Rightarrow> int \<times> u8 \<times> u8"
  kobj_alloc :: bool
  kobj_add :: int
  workqueue_ok :: bool

definition le16 :: "u8 \<Rightarrow> u8 \<Rightarrow> u16" where
  "le16 lo hi = ucast lo OR push_bit 8 (ucast hi)"

definition read_calibration :: "(nat \<Rightarrow> int \<times> u8 \<times> u8) \<Rightarrow> calibration option" where
  "read_calibration rd =
     (let (r1, a1, b1) = rd 0x88 in
      if r1 < 0 then None
      else let (r2, a2, b2) = rd 0x8A in
        if r2 < 0 then None
        else let (r3, a3, b3) = rd 0x8C in
          if r3 < 0 then None
          else Some \<lparr>dig_T1 = ucast (le16 a1 b1), dig_T2 = scast (le16 a2 b2), dig_T3 = scast (le16 a3 b3)\<rparr>)"

definition bmp280_spi_write_reg :: "u8 \<Rightarrow> u8 \<Rightarrow> u8 list" where
  "bmp280_spi_write_reg reg val = [reg AND 0x7F, val]"

definition sensor_config :: "kev list" where
  "sensor_config =
     [Wrote (bmp280_spi_write_reg 0xF5 (push_bit 5 5)),
      Wrote (bmp280_spi_write_reg 0xF4 (push_bit 5 5 OR push_bit 2 5 OR push_bit 0 3))]"

text \<open>The controller lookup: what is taken is put back; the result says whether a controller was found.\<close>

definition find_controller :: "sensor_kernel \<Rightarrow> bool \<times> kev list" where
  "find_controller k =
     (if \<not> np_found k then (False, [])
      else let e1 = [Got Of_node] @ (if pdev_found k then [Got Platform_dev] else []) @ [Dropped Of_node] in
        if \<not> pdev_found k then (False, e1)
        else let e2 = e1 @ (if ctlr_found k then [Got Controller_dev] else []) @ [Dropped Platform_dev] in
          if \<not> ctlr_found k then (False, e2)
          else (True, e2 @ (if spi_new k then [Got Spi_dev] else []) @ [Dropped Controller_dev]))"

text \<open>
  The labels at the end of \<open>k_module_init\<close> from \<open>kobject_error\<close> (0) to \<open>cerror\<close> (4): a jump runs
  the rest. \<open>kobject_put\<close> of \<open>NULL\<close> does nothing.
\<close>

definition k_cleanup :: "kev list" where
  "k_cleanup = map Dropped [Kobject, Spi_dev, Kdevice, Kclass, Chrdev]"

definition k_module_init :: "sensor_kernel \<Rightarrow> int \<times> kev list" where
  "k_module_init k =
     (if chrdev_result k < 0 then (-1, [])
      else let e1 = [Got Chrdev] in
        if class_result k = Null then (-1, e1 @ drop 4 k_cleanup)
        else let e2 = e1 @ (if class_result k = Valid_ptr then [Got Kclass] else []) in
          if device_result k = Null then (-1, e2 @ drop 3 k_cleanup)
          else let e3 = e2 @ (if device_result k = Valid_ptr then [Got Kdevice] else []) in
            if cdev_result k = -1 then (-1, e3 @ drop 2 k_cleanup)
            else let e4 = e3 @ (if cdev_result k = 0 then [Got Kcdev] else []);
                     (found, es) = find_controller k; e5 = e4 @ es in
              if \<not> found \<or> \<not> spi_new k then (-1, e5 @ drop 2 k_cleanup)
              else if setup_result k \<noteq> 0 then (-1, e5 @ drop 1 k_cleanup)
              else if read_calibration (calib_read k) = None then (-1, e5 @ drop 1 k_cleanup)
              else let e6 = e5 @ sensor_config @ (if kobj_alloc k then [Got Kobject_mem, Got Kobject] else []) in
                if kobj_alloc k \<and> kobj_add k \<noteq> 0 then (-1, e6 @ [Dropped Kobject] @ drop 1 k_cleanup)
                else if \<not> workqueue_ok k
                then (-1, e6 @ (if kobj_alloc k then k_cleanup else drop 1 k_cleanup))
                else (0, e6 @ [Got Workqueue, Got Hrtimer]))"

definition k_module_exit :: "bool \<Rightarrow> bool \<Rightarrow> kev list" where
  "k_module_exit kobj bmp280_dev =
     [Dropped Workqueue, Dropped Hrtimer] @
     (if kobj then [Dropped Kobject, Dropped Kobject_mem] else []) @
     (if bmp280_dev then [Dropped Spi_dev] else []) @
     [Dropped Kcdev, Dropped Kdevice, Dropped Kclass, Dropped Chrdev]"

section \<open>Transfers\<close>

lemma pio_transfers_unfold:
  "pio_transfers 0 offset i = []"
  "0 < n \<Longrightarrow> pio_transfers n offset i = (i, offset, min n 95) # pio_transfers (n - min n 95) (offset + min n 95) (Suc i)"
  by (subst pio_transfers.simps, auto simp: Let_def min_def)+

lemma pio_transfers_cover:
  "concat (map (\<lambda>(i, off, len). [off..<off + len]) (pio_transfers n offset i)) = [offset..<offset + n]"
proof (induction n arbitrary: offset i rule: less_induct)
  case (less n)
  show ?case
  proof (cases "n = 0")
    case False
    let ?c = "min n 95"
    have "n - ?c < n" using False by auto
    from less.IH [OF this, of "offset + ?c" "Suc i"] False show ?thesis
      using upt_add_eq_append [of offset "offset + ?c" "n - ?c"] by (simp add: pio_transfers_unfold)
  qed (simp add: pio_transfers_unfold)
qed

lemma pio_transfers_lengths: "(j, off, len) \<in> set (pio_transfers n offset i) \<Longrightarrow> 0 < len \<and> len \<le> 95"
proof (induction n arbitrary: offset i rule: less_induct)
  case (less n)
  show ?case
  proof (cases "n = 0")
    case False
    have "n - min n 95 < n" using False by auto
    with less.IH [OF this] less.prems False show ?thesis by (auto simp: pio_transfers_unfold)
  qed (use less.prems in \<open>simp add: pio_transfers_unfold\<close>)
qed

lemma pio_transfers_indices:
  "map fst (pio_transfers n offset i) = [i..<i + (n + 94) div 95]"
proof (induction n arbitrary: offset i rule: less_induct)
  case (less n)
  show ?case
  proof (cases "n = 0")
    case False
    let ?c = "min n 95"
    have "n - ?c < n" using False by auto
    note IH = less.IH [OF this, of "offset + ?c" "Suc i"]
    have "(n + 94) div 95 = Suc ((n - ?c + 94) div 95)"
      using False by (cases "n \<le> 95") (auto simp: min_def div_if)
    with IH False show ?thesis by (simp add: pio_transfers_unfold upt_conv_Cons)
  qed (simp add: pio_transfers_unfold)
qed


section \<open>Compensation\<close>

text \<open>The formula of the data sheet over the integers, with rounding towards minus infinity.\<close>

definition compensate_int :: "int \<Rightarrow> int \<Rightarrow> int \<Rightarrow> int \<Rightarrow> int" where
  "compensate_int t1 t2 t3 raw =
     (let var1 = (raw div 8 - 2 * t1) * t2 div 2048;
          diff = raw div 16 - t1;
          var2 = diff * diff div 4096 * t3 div 16384
      in ((var1 + var2) * 5 + 128) div 256)"

abbreviation fits :: "int \<Rightarrow> bool" where
  "fits x \<equiv> - (2 ^ 31) \<le> x \<and> x < 2 ^ 31"

text \<open>The three products of the formula fit a 32-bit integer.\<close>

definition products_fit :: "int \<Rightarrow> int \<Rightarrow> int \<Rightarrow> int \<Rightarrow> bool" where
  "products_fit t1 t2 t3 raw \<longleftrightarrow>
     fits ((raw div 8 - 2 * t1) * t2) \<and>
     fits ((raw div 16 - t1) * (raw div 16 - t1)) \<and>
     fits ((raw div 16 - t1) * (raw div 16 - t1) div 4096 * t3)"

lemma sint32_fits:
  fixes a b :: s32
  shows "fits (sint a + sint b) \<Longrightarrow> sint (a + b) = sint a + sint b"
    and "fits (sint a - sint b) \<Longrightarrow> sint (a - b) = sint a - sint b"
    and "fits (sint a * sint b) \<Longrightarrow> sint (a * b) = sint a * sint b"
  by (simp_all add: sint_word_add sint_word_diff sint_word_mult signed_take_bit_int_eq_self)

lemma sint32_shift: "sint (signed_drop_bit n (a :: s32)) = sint a div 2 ^ n"
  by (simp add: sint_signed_drop_bit_eq drop_bit_eq_div)

lemma sint32_range: "fits (sint (a :: s32))"
  using sint_ge [of a] sint_lt [of a] by simp

lemma push_bit_1: "push_bit 1 (a :: s32) = a + a"
  by (simp add: push_bit_eq_mult)

lemma abs_div_le: "\<bar>a\<bar> \<le> m * k \<Longrightarrow> 0 < k \<Longrightarrow> \<bar>a div k\<bar> \<le> m" for a k m :: int
proof -
  assume a: "\<bar>a\<bar> \<le> m * k" and k: "0 < k"
  then have "a div k \<le> m" using zdiv_mono1 [of a "m * k" k] by simp
  moreover have "(- m) * k div k \<le> a div k" using a k by (intro zdiv_mono1) auto
  then have "- m \<le> a div k" using k by (metis nonzero_mult_div_cancel_right order_less_irrefl)
  ultimately show ?thesis by simp
qed

lemma fits_le: "\<bar>x\<bar> \<le> m \<Longrightarrow> m < 2 ^ 31 \<Longrightarrow> fits x"
  by auto

lemma fits_abs: "fits x \<Longrightarrow> \<bar>x\<bar> \<le> 2 ^ 31"
  by auto

lemma compensate_int_eq:
  assumes b: "products_fit (sint (dig_T1 cal)) (sint (dig_T2 cal)) (sint (dig_T3 cal)) (sint raw)"
    and i: "0 \<le> sint (dig_T1 cal)" "sint (dig_T1 cal) < 65536" "0 \<le> sint raw" "sint raw < 2 ^ 20"
  shows "sint (compensate cal raw) =
    compensate_int (sint (dig_T1 cal)) (sint (dig_T2 cal)) (sint (dig_T3 cal)) (sint raw)"
proof -
  note b = b [unfolded products_fit_def]
  let ?t1 = "sint (dig_T1 cal)" and ?t2 = "sint (dig_T2 cal)" and ?t3 = "sint (dig_T3 cal)" and ?r = "sint raw"
  have r: "0 \<le> ?r div 8" "?r div 8 < 131072" "0 \<le> ?r div 16" "?r div 16 < 65536" using i by auto
  define tw where "tw = push_bit 1 (dig_T1 cal)"
  have "sint (dig_T1 cal + dig_T1 cal) = ?t1 + ?t1" using i by (intro sint32_fits) auto
  then have tw: "sint tw = 2 * ?t1" unfolding tw_def push_bit_1 by simp
  define x1 where "x1 = signed_drop_bit 3 raw - tw"
  have x1: "sint x1 = ?r div 8 - 2 * ?t1"
    using fits_le [of "?r div 8 - 2 * ?t1" 131072] i r sint32_fits(2) [of "signed_drop_bit 3 raw" tw]
    unfolding x1_def tw sint32_shift by simp
  define p1 where "p1 = x1 * dig_T2 cal"
  have p1: "sint p1 = (?r div 8 - 2 * ?t1) * ?t2"
    using b sint32_fits(3) [of x1 "dig_T2 cal"] unfolding p1_def x1 by simp
  define x2 where "x2 = signed_drop_bit 4 raw - dig_T1 cal"
  have x2: "sint x2 = ?r div 16 - ?t1"
    using fits_le [of "?r div 16 - ?t1" 65536] i r sint32_fits(2) [of "signed_drop_bit 4 raw" "dig_T1 cal"]
    unfolding x2_def sint32_shift by simp
  define q where "q = x2 * x2"
  have q: "sint q = (?r div 16 - ?t1) * (?r div 16 - ?t1)"
    using b sint32_fits(3) [of x2 x2] unfolding q_def x2 by simp
  define p2 where "p2 = signed_drop_bit 12 q * dig_T3 cal"
  have p2: "sint p2 = (?r div 16 - ?t1) * (?r div 16 - ?t1) div 4096 * ?t3"
    using b sint32_fits(3) [of "signed_drop_bit 12 q" "dig_T3 cal"]
    unfolding p2_def sint32_shift q by simp
  define v1 where "v1 = signed_drop_bit 11 p1"
  define v2 where "v2 = signed_drop_bit 14 p2"
  have v1: "sint v1 = (?r div 8 - 2 * ?t1) * ?t2 div 2048" by (simp add: v1_def sint32_shift p1)
  have v2: "sint v2 = (?r div 16 - ?t1) * (?r div 16 - ?t1) div 4096 * ?t3 div 16384"
    by (simp add: v2_def sint32_shift p2)
  have "\<bar>sint v1\<bar> \<le> 1048576" unfolding v1 by (rule abs_div_le) (use fits_abs [OF conjunct1 [OF b]] in simp_all)
  moreover have "\<bar>sint v2\<bar> \<le> 131072" unfolding v2 by (rule abs_div_le) (use fits_abs [OF conjunct2 [OF conjunct2 [OF b]]] in simp_all)
  ultimately have l: "\<bar>sint v1 + sint v2\<bar> \<le> 2097152" by linarith
  define s where "s = v1 + v2"
  have s: "sint s = sint v1 + sint v2" unfolding s_def using l by (intro sint32_fits) auto
  define m where "m = s * 5"
  have m: "sint m = (sint v1 + sint v2) * 5"
    using fits_le [of "(sint v1 + sint v2) * 5" 10485760] l sint32_fits(3) [of s 5]
    unfolding m_def s by (simp add: abs_mult)
  have "sint (m + 128) = (sint v1 + sint v2) * 5 + 128"
    using fits_le [of "(sint v1 + sint v2) * 5 + 128" 10485888] l sint32_fits(1) [of m 128]
    unfolding m by simp
  then have "sint (signed_drop_bit 8 (m + 128)) = ((sint v1 + sint v2) * 5 + 128) div 256"
    by (simp add: sint32_shift)
  then show ?thesis
    unfolding compensate_def compensate_int_def Let_def m_def s_def v1_def v2_def p1_def p2_def q_def
      x1_def x2_def tw_def [symmetric]
    using p1 p2 unfolding p1_def p2_def q_def x1_def x2_def by (simp only: sint32_shift) simp
qed


definition raw_int :: "u8 \<times> u8 \<times> u8 \<Rightarrow> int" where
  "raw_int = (\<lambda>(d0, d1, d2). (uint d0 * 65536 + uint d1 * 256 + uint d2) div 16)"

lemma or_disjoint: "a AND b = 0 \<Longrightarrow> a OR b = a + b" for a b :: s32
  by (simp add: disjunctive_add_eq_or)

lemma uint_push8: "n \<le> 24 \<Longrightarrow> uint (push_bit n (ucast (b :: u8)) :: s32) = uint b * 2 ^ n"
proof -
  assume n: "n \<le> 24"
  have "uint b * 2 ^ n < 2 ^ 8 * 2 ^ n" using uint_lt2p [of b] by simp
  also have "\<dots> \<le> 2 ^ 32" using n power_increasing [of "8 + n" 32 "2 :: int"] by (simp add: power_add)
  finally have "take_bit 32 (uint b * 2 ^ n) = uint b * 2 ^ n" by (simp add: take_bit_int_eq_self)
  moreover have "take_bit 32 (uint b) = uint b"
    using uint_lt2p [of b] by (simp add: take_bit_int_eq_self)
  ultimately show ?thesis
    unfolding unsigned_push_bit_eq unsigned_ucast_eq by (simp add: push_bit_eq_mult)
qed

lemma bit_u8: "bit (b :: u8) n \<Longrightarrow> n < 8"
  using bit_imp_le_length [of b n] by simp

lemma raw_disjoint:
  fixes d0 d1 d2 :: u8
  shows "push_bit 8 (ucast d1) AND (ucast d2 :: s32) = 0"
    and "push_bit 16 (ucast d0) AND (push_bit 8 (ucast d1) OR ucast d2 :: s32) = 0"
proof -
  show "push_bit 8 (ucast d1) AND (ucast d2 :: s32) = 0"
  proof (rule bit_word_eqI)
    fix n
    show "bit (push_bit 8 (ucast d1) AND (ucast d2 :: s32)) n = bit (0 :: s32) n"
      using bit_u8 [of d2 n] by (auto simp: bit_simps)
  qed
  show "push_bit 16 (ucast d0) AND (push_bit 8 (ucast d1) OR ucast d2 :: s32) = 0"
  proof (rule bit_word_eqI)
    fix n
    show "bit (push_bit 16 (ucast d0) AND (push_bit 8 (ucast d1) OR ucast d2 :: s32)) n = bit (0 :: s32) n"
      using bit_u8 [of d2 n] bit_u8 [of d1 "n - 8"] by (auto simp: bit_simps)
  qed
qed

lemma sint_raw_temperature: "sint (raw_temperature d) = raw_int d"
proof -
  obtain d0 d1 d2 where d: "d = (d0, d1, d2)" by (cases d)
  define w where "w = (push_bit 16 (ucast d0) OR push_bit 8 (ucast d1) OR ucast d2 :: s32)"
  have r: "0 \<le> uint d0" "uint d0 < 256" "0 \<le> uint d1" "uint d1 < 256" "0 \<le> uint d2" "uint d2 < 256"
    using uint_lt2p [of d0] uint_lt2p [of d1] uint_lt2p [of d2] by simp_all
  have w: "w = push_bit 16 (ucast d0) + (push_bit 8 (ucast d1) + push_bit 0 (ucast d2))"
    unfolding w_def using raw_disjoint(1) [of d1 d2] raw_disjoint(2) [of d0 d1 d2] by (simp add: or_disjoint)
  have u8: "uint (push_bit 8 (ucast d1) + push_bit 0 (ucast d2) :: s32) = uint d1 * 256 + uint d2"
    using r by (subst uint_add_lem [THEN iffD1]) (simp_all add: uint_push8 [of 8] uint_push8 [of 0, simplified])
  have u: "uint w = uint d0 * 65536 + (uint d1 * 256 + uint d2)"
    unfolding w using r u8
    by (subst uint_add_lem [THEN iffD1]) (simp_all add: uint_push8 [of 16])
  have "uint w < 2 ^ 31" using u r by simp
  then have "fits (uint w)" using order_trans [of "- (2 ^ 31)" 0 "uint w"] by simp
  then have "signed_take_bit 31 (uint w) = uint w" by (intro signed_take_bit_int_eq_self) simp_all
  then have "sint w = uint w" by (simp add: sint_uint)
  with u show ?thesis by (simp add: raw_temperature_def raw_int_def d w_def [symmetric] sint32_shift algebra_simps)
qed


lemma raw_int_range: "0 \<le> raw_int d \<and> raw_int d < 2 ^ 20"
proof -
  obtain d0 d1 d2 where d: "d = (d0, d1, d2)" by (cases d)
  have "0 \<le> uint d0" "uint d0 < 256" "0 \<le> uint d1" "uint d1 < 256" "0 \<le> uint d2" "uint d2 < 256"
    using uint_lt2p [of d0] uint_lt2p [of d1] uint_lt2p [of d2] by simp_all
  then have "0 \<le> uint d0 * 65536 + uint d1 * 256 + uint d2" "uint d0 * 65536 + uint d1 * 256 + uint d2 < 16777216"
    by linarith+
  moreover have "0 \<le> v \<Longrightarrow> v < 16777216 \<Longrightarrow> 0 \<le> v div 16 \<and> v div 16 < 2 ^ 20" for v :: int by (simp add: pos_imp_zdiv_nonneg_iff)
  ultimately show ?thesis unfolding raw_int_def d prod.case by blast
qed

lemma uint16_less: "uint (w :: u16) < 65536"
  using uint_lt2p [of w] by simp

lemma sint_ucast16: "sint (ucast (w :: u16) :: s32) = uint w"
proof -
  have "fits (uint w)" using uint_lt2p [of w] order_trans [of "- (2 ^ 31)" 0 "uint w"] by simp
  then have "signed_take_bit 31 (uint w) = uint w" by (intro signed_take_bit_int_eq_self) simp_all
  moreover have "take_bit 32 (uint w) = uint w" using uint_lt2p [of w] by (simp add: take_bit_int_eq_self)
  ultimately show ?thesis by (simp add: sint_uint unsigned_ucast_eq)
qed

lemma calibration_range: "read_calibration rd = Some cal \<Longrightarrow> 0 \<le> sint (dig_T1 cal) \<and> sint (dig_T1 cal) < 65536"
  by (auto simp: read_calibration_def Let_def sint_ucast16 uint16_less split: if_splits prod.splits)

section \<open>The text of a temperature\<close>

lemma sdiv_smod_100:
  "0 \<le> t \<Longrightarrow> t sdiv 100 = t div 100" "0 \<le> t \<Longrightarrow> t smod 100 = t mod 100" for t :: int
  by (simp_all add: signed_divide_int_def signed_modulo_int_def sgn_if minus_div_mult_eq_mod)

lemma length_dec_int: "\<bar>i\<bar> < 10 ^ k \<Longrightarrow> 0 < k \<Longrightarrow> length (dec_int i) \<le> Suc k"
proof -
  assume i: "\<bar>i\<bar> < 10 ^ k" and k: "0 < k"
  have "nat \<bar>i\<bar> < 10 ^ k" using i by (simp add: nat_less_iff)
  then have "length (dec_nat (nat \<bar>i\<bar>)) \<le> k" using k by (rule length_dec_nat)
  then show ?thesis by (auto simp: dec_int_def abs_if split: if_splits)
qed

lemma temp_text_length: "fits t \<Longrightarrow> length (temp_text t) \<le> 15"
proof -
  assume t: "fits t"
  have "\<bar>t\<bar> div 100 \<le> 2 ^ 31 div 100" using t by (intro zdiv_mono1) auto
  moreover have "\<bar>t sdiv 100\<bar> \<le> \<bar>t\<bar> div 100" by (auto simp: signed_divide_int_def sgn_if)
  ultimately have "\<bar>t sdiv 100\<bar> < 10 ^ 8" by simp
  then have "length (dec_int (t sdiv 100)) \<le> Suc 8" by (rule length_dec_int) simp
  moreover have "\<bar>t smod 100\<bar> < 10 ^ 2"
    using smod_int_range [of 100 t] by auto
  then have "length (dec_int (t smod 100)) \<le> Suc 2" by (rule length_dec_int) simp
  then have "length (dec02 (t smod 100)) \<le> 3" by (simp add: dec02_def Let_def)
  ultimately show ?thesis by (simp add: temp_text_def)
qed

lemma nul_free_temp_text [simp]: "nul_free (temp_text t)"
  by (simp add: temp_text_def)

text \<open>Reading a text with two decimals: the number before the dot and the number after it.\<close>

definition hundredths :: "string \<Rightarrow> int" where
  "hundredths s =
     (let whole = takeWhile is_digit s; frac = takeWhile is_digit (drop (Suc (length whole)) s)
      in int (digits_val 0 whole) * 100 + int (digits_val 0 frac))"

lemma dec02_digits: "0 \<le> i \<Longrightarrow> \<forall>c \<in> set (dec02 i). is_digit c"
  using dec_nat_digits [of "nat i"] by (auto simp: dec02_def dec_int_def Let_def is_digit_def)

lemma dec02_val: "0 \<le> i \<Longrightarrow> digits_val 0 (dec02 i) = nat i"
  by (simp add: dec02_def dec_int_def Let_def digits_val_dec_nat)

lemma takeWhile_digits:
  "\<forall>c \<in> set ds. is_digit c \<Longrightarrow> \<not> is_digit c \<Longrightarrow> takeWhile is_digit (ds @ c # r) = ds"
  by (induction ds) auto

lemma hundredths_temp_text: "0 \<le> t \<Longrightarrow> hundredths (temp_text t) = t"
proof -
  assume t: "0 \<le> t"
  have w: "takeWhile is_digit (temp_text t) = dec_nat (nat (t div 100))"
    using t takeWhile_digits [OF dec_nat_digits, of "CHR ''.''"] pos_imp_zdiv_nonneg_iff [of 100 t]
    by (simp add: temp_text_def sdiv_smod_100 dec_int_def is_digit_def)
  have "drop (Suc (length (dec_nat (nat (t div 100))))) (temp_text t) = dec02 (t mod 100) @ [newline]"
    using t pos_imp_zdiv_nonneg_iff [of 100 t] by (simp add: temp_text_def sdiv_smod_100 dec_int_def)
  moreover have "takeWhile is_digit (dec02 (t mod 100) @ [newline]) = dec02 (t mod 100)"
    by (rule takeWhile_digits [OF dec02_digits]) (simp_all add: is_digit_def)
  ultimately show ?thesis
    using t pos_imp_zdiv_nonneg_iff [of 100 t]
    by (simp add: hundredths_def w Let_def digits_val_dec_nat dec02_val)
qed

text \<open>Between -100 and 0 the whole part loses the sign and the remainder carries it.\<close>

lemma temp_text_negative: "- 100 < t \<Longrightarrow> t < 0 \<Longrightarrow> temp_text t = ''0.-'' @ dec_nat (nat (- t)) @ [newline]"
proof -
  assume t: "- 100 < t" "t < 0"
  have "t sdiv 100 = 0" "t smod 100 = t"
    using t by (simp_all add: signed_divide_int_def signed_modulo_int_def)
  moreover have "dec_int 0 = ''0''" by code_simp
  moreover have "\<not> Suc (length (dec_nat n)) < 2" for n by (cases "dec_nat n") simp_all
  ultimately show ?thesis using t by (simp add: temp_text_def dec02_def dec_int_def Let_def)
qed

section \<open>The module\<close>

definition sensor_full :: "bool \<Rightarrow> kres list" where
  "sensor_full kobj =
     [Chrdev, Kclass, Kdevice, Kcdev, Spi_dev] @ (if kobj then [Kobject_mem, Kobject] else []) @ [Workqueue, Hrtimer]"

lemmas sensor_init_defs =
  k_module_init_def find_controller_def usable_def k_cleanup_def sensor_config_def

lemma controller_found:
  "find_controller k = (True, es) \<Longrightarrow> spi_new k \<Longrightarrow> es = [Got Of_node, Got Platform_dev, Dropped Of_node,
     Got Controller_dev, Dropped Platform_dev, Got Spi_dev, Dropped Controller_dev]"
  by (simp add: find_controller_def Let_def split: if_splits)

lemma sensor_init_conditions:
  assumes "fst (k_module_init k) = 0"
  shows "\<not> chrdev_result k < 0 \<and> class_result k \<noteq> Null \<and> device_result k \<noteq> Null \<and> cdev_result k \<noteq> -1 \<and>
    fst (find_controller k) \<and> spi_new k \<and> setup_result k = 0 \<and> read_calibration (calib_read k) \<noteq> None \<and>
    \<not> (kobj_alloc k \<and> kobj_add k \<noteq> 0) \<and> workqueue_ok k"
  using assms unfolding k_module_init_def Let_def
  by (simp add: if_distrib [of fst] prod.case_distrib [of fst] split: if_split_asm prod.splits cong: if_weak_cong)

lemma sensor_init_events:
  assumes "fst (k_module_init k) = 0"
  shows "snd (k_module_init k) = [Got Chrdev] @ (if class_result k = Valid_ptr then [Got Kclass] else []) @
    (if device_result k = Valid_ptr then [Got Kdevice] else []) @ (if cdev_result k = 0 then [Got Kcdev] else []) @
    [Got Of_node, Got Platform_dev, Dropped Of_node, Got Controller_dev, Dropped Platform_dev, Got Spi_dev,
     Dropped Controller_dev] @ sensor_config @ (if kobj_alloc k then [Got Kobject_mem, Got Kobject] else []) @
    [Got Workqueue, Got Hrtimer]"
proof -
  note c = sensor_init_conditions [OF assms]
  then obtain es where es: "find_controller k = (True, es)" by (cases "find_controller k") simp
  note e = controller_found [OF es]
  show ?thesis unfolding k_module_init_def Let_def es prod.case using c e by auto
qed

lemma sensor_init_success:
  assumes "fst (k_module_init k) = 0"
  shows "balance (snd (k_module_init k)) h = Some (h + mset (filter
     (\<lambda>r. (r = Kclass \<longrightarrow> class_result k = Valid_ptr) \<and> (r = Kdevice \<longrightarrow> device_result k = Valid_ptr) \<and>
       (r = Kcdev \<longrightarrow> cdev_result k = 0)) (sensor_full (kobj_alloc k))))"
  unfolding sensor_init_events [OF assms] by (simp add: sensor_config_def sensor_full_def)

lemma sensor_init_failure:
  assumes "usable k" "fst (k_module_init k) \<noteq> 0"
  shows "\<exists>left. balance (snd (k_module_init k)) {#} = Some left \<and> left \<subseteq># {#Kcdev, Kobject_mem#}"
  using assms
  by (cases "read_calibration (calib_read k)"; simp add: sensor_init_defs Let_def split: if_splits)

lemma sensor_exit_full: "balance (k_module_exit kobj True) (mset (sensor_full kobj)) = Some {#}"
  by (simp add: k_module_exit_def sensor_full_def)

interpretation sensor: driver_module usable k_module_init "\<lambda>k. k_module_exit (kobj_alloc k) True"
  "\<lambda>k. mset (sensor_full (kobj_alloc k))" "\<lambda>k. {#}"
proof (unfold_locales, goal_cases)
  case (1 k)
  then show ?case by (simp add: sensor_init_success usable_def sensor_full_def)
next
  case (2 k)
  then show ?case by (rule sensor_exit_full)
next
  case (3 k n)
  then show ?case
    by (auto simp: balance_append sensor_init_success usable_def sensor_full_def k_module_exit_def)
qed simp

section \<open>Receiving\<close>

text \<open>
  What a controller promises: the transfers of a message run in order, and each stores the next
  bytes of what the device sends at its place in the buffer.
\<close>

fun spi_receive :: "u8 list \<Rightarrow> rx_transfer list \<Rightarrow> u8 list \<Rightarrow> u8 list" where
  "spi_receive stream [] buf = buf"
| "spi_receive stream ((i, off, len) # ts) buf =
     spi_receive (drop len stream) ts (take off buf @ take len stream @ drop (off + len) buf)"

definition serial_controller :: "(u8 list \<Rightarrow> int) \<Rightarrow> (u8 list \<Rightarrow> u8 list) \<Rightarrow> spi_io \<Rightarrow> bool" where
  "serial_controller result stream io \<longleftrightarrow>
     spi_sync io = (\<lambda>tx ts buf. (result tx, spi_receive (stream tx) ts buf))"

lemma spi_receive_pio:
  "length buf = off + n \<Longrightarrow> n \<le> length stream \<Longrightarrow>
     spi_receive stream (pio_transfers n off i) buf = take off buf @ take n stream"
proof (induction n arbitrary: off i buf stream rule: less_induct)
  case (less n)
  show ?case
  proof (cases "n = 0")
    case False
    let ?c = "min n 95"
    let ?buf = "take off buf @ take ?c stream @ drop (off + ?c) buf"
    have "n - ?c < n" using False by auto
    from less.IH [OF this, of ?buf "off + ?c" "drop ?c stream" "Suc i"] less.prems
    have "spi_receive (drop ?c stream) (pio_transfers (n - ?c) (off + ?c) (Suc i)) ?buf =
        take off buf @ take ?c stream @ take (n - ?c) (drop ?c stream)" by simp
    moreover have "take ?c stream @ take (n - ?c) (drop ?c stream) = take n stream"
      using take_add [of ?c "n - ?c" stream] by simp
    ultimately show ?thesis using False by (simp add: pio_transfers_unfold)
  qed (use less.prems in \<open>simp add: pio_transfers_unfold\<close>)
qed

lemma spi_receive_message:
  "target_byte \<le> length stream \<Longrightarrow>
     spi_receive stream (rx_transfers mode) (replicate target_byte 0) = take target_byte stream"
  using spi_receive_pio [of "replicate target_byte 0" 0 target_byte stream 1] by (simp add: rx_transfers_def)

section \<open>Properties\<close>

lemma rx_transfers_entries:
  "list_all (\<lambda>(i, off, len). 1 \<le> i \<and> i < 14) (rx_transfers mode) \<and> distinct (map fst (rx_transfers mode)) \<and>
   (mode = 0 \<longrightarrow> list_all (\<lambda>(i, off, len). len < 96) (rx_transfers mode))"
proof (cases "mode = 0")
  case True
  then have r: "rx_transfers mode = pio_transfers target_byte 0 1" by (simp add: rx_transfers_def)
  have idx: "map fst (pio_transfers target_byte 0 1) = [1..<7]"
    by (simp add: pio_transfers_indices target_byte_def)
  have "1 \<le> i \<and> i < 14 \<and> len < 96" if "(i, off, len) \<in> set (pio_transfers target_byte 0 1)" for i off len
  proof -
    have "i \<in> set (map fst (pio_transfers target_byte 0 1))" using that by force
    then have "i \<in> set [1..<7]" by (simp only: idx)
    with pio_transfers_lengths [OF that] show ?thesis by auto
  qed
  moreover have "distinct (map fst (pio_transfers target_byte 0 1))" by (simp only: idx distinct_upt)
  ultimately show ?thesis unfolding r by (auto simp: list_all_iff)
qed (simp add: rx_transfers_def)

text \<open>
  C22. DMA and programmed I/O read the same: on a controller that runs the transfers of a message in
  order, the message of either mode fills the 512 bytes of the buffer with the first 512 bytes the
  device sends, so the temperature does not depend on the mode. Each message uses entries 1 to 13
  of \<open>txfers\<close>, each once, and without DMA no transfer is as long as the 96 bytes from which the
  controller would use DMA by itself.
\<close>

theorem transfer_modes_agree:
  assumes "serial_controller result stream io" "target_byte \<le> length (stream [0xFA])"
  shows "send_message io mode = (result [0xFA], take target_byte (stream [0xFA])) \<and>
    read_temperature io mode cal = read_temperature io 0 cal \<and>
    list_all (\<lambda>(i, off, len). 1 \<le> i \<and> i < 14) (rx_transfers mode) \<and> distinct (map fst (rx_transfers mode)) \<and>
    (mode = 0 \<longrightarrow> list_all (\<lambda>(i, off, len). len < 96) (rx_transfers mode))"
proof -
  have m: "send_message io m = (result [0xFA], take target_byte (stream [0xFA]))" for m
    using assms spi_receive_message [OF assms(2)] by (simp add: send_message_def serial_controller_def)
  then have "read_temperature io mode cal = read_temperature io 0 cal" by (simp add: read_temperature_def)
  with m rx_transfers_entries [of mode] show ?thesis by blast
qed

definition datasheet_io :: spi_io where
  "datasheet_io = \<lparr>tx_alloc = True, rx_alloc = True,
     spi_sync = (\<lambda>tx ts buf. (0, spi_receive ([0x7E, 0xED, 0x00] @ replicate 509 0xFF) ts buf))\<rparr>"

definition datasheet_cal :: calibration where
  "datasheet_cal = \<lparr>dig_T1 = 27504, dig_T2 = 26435, dig_T3 = - 1000\<rparr>"

lemma datasheet_serial:
  "serial_controller (\<lambda>_. 0) (\<lambda>_. [0x7E, 0xED, 0x00] @ replicate 509 0xFF) datasheet_io"
  by (simp add: serial_controller_def datasheet_io_def)

lemma datasheet_message: "send_message datasheet_io mode = (0, [0x7E, 0xED, 0x00] @ replicate 509 0xFF)"
  using spi_receive_message [of "[0x7E, 0xED, 0x00] @ replicate 509 0xFF" mode]
  by (simp add: send_message_def datasheet_io_def target_byte_def)

theorem transfer_modes_agree_witness:
  "read_temperature datasheet_io 1 datasheet_cal = read_temperature datasheet_io 0 datasheet_cal"
  using transfer_modes_agree [OF datasheet_serial, of 1 datasheet_cal] by (simp add: target_byte_def)

text \<open>
  C4. The temperature the driver computes with wrapping 32-bit arithmetic is the data sheet's
  formula over the integers: for every calibration the driver can have read from the sensor and every
  sample, once the buffers are allocated and the transfer succeeds, provided the three products of
  the formula themselves fit 32 bits. No other step can overflow.
\<close>

theorem read_temperature_exact:
  assumes "tx_alloc io" "rx_alloc io" "send_message io mode = (0, d0 # d1 # d2 # rest)"
    and "read_calibration rd = Some cal"
    and "products_fit (sint (dig_T1 cal)) (sint (dig_T2 cal)) (sint (dig_T3 cal)) (raw_int (d0, d1, d2))"
  shows "read_temperature io mode cal =
    compensate_int (sint (dig_T1 cal)) (sint (dig_T2 cal)) (sint (dig_T3 cal)) (raw_int (d0, d1, d2))"
proof -
  note r = raw_int_range [of "(d0, d1, d2)"] and c = calibration_range [OF assms(4)]
  have "sint (compensate cal (raw_temperature (d0, d1, d2))) =
    compensate_int (sint (dig_T1 cal)) (sint (dig_T2 cal)) (sint (dig_T3 cal)) (raw_int (d0, d1, d2))"
    using compensate_int_eq [of cal "raw_temperature (d0, d1, d2)", unfolded sint_raw_temperature] assms(5) r c
    by blast
  with assms(1-3) show ?thesis by (simp add: read_temperature_def)
qed

definition datasheet_registers :: "nat \<Rightarrow> int \<times> u8 \<times> u8" where
  "datasheet_registers r = (if r = 0x88 then (0, 0x70, 0x6B) else if r = 0x8A then (0, 0x43, 0x67) else (0, 0x18, 0xFC))"

theorem read_temperature_exact_witness:
  "read_calibration datasheet_registers = Some datasheet_cal \<and> raw_int (0x7E, 0xED, 0x00) = 519888 \<and>
   read_temperature datasheet_io 1 datasheet_cal = 2508"
proof -
  have c: "read_calibration datasheet_registers = Some datasheet_cal"
    by (simp add: read_calibration_def datasheet_registers_def datasheet_cal_def le16_def Let_def)
  have v: "sint (dig_T1 datasheet_cal) = 27504" "sint (dig_T2 datasheet_cal) = 26435"
    "sint (dig_T3 datasheet_cal) = - 1000" "raw_int (0x7E, 0xED, 0x00) = 519888"
    by (simp_all add: datasheet_cal_def raw_int_def)
  have a: "tx_alloc datasheet_io" "rx_alloc datasheet_io" by (simp_all add: datasheet_io_def)
  from datasheet_message [of 1]
  have m: "send_message datasheet_io 1 = (0, 0x7E # 0xED # 0x00 # replicate 509 0xFF)" by simp
  have "products_fit 27504 26435 (- 1000) 519888" by (simp add: products_fit_def)
  with read_temperature_exact [OF a m c, unfolded v] show ?thesis using c v by (simp add: compensate_int_def)
qed

text \<open>
  C31. The text a reader of the device or of an attribute gets for any 32-bit temperature fits the
  20-byte buffer with its terminator, so nothing is cut; for a temperature that is not negative the
  number of hundredths read back from it is the temperature; and between -0.99 and -0.01 the text
  begins with \<open>0.-\<close>.
\<close>

theorem temp_text_roundtrip:
  "fits t \<Longrightarrow> length stack = 20 \<Longrightarrow>
     cstr (snprintf stack 20 (temp_text t)) = temp_text t \<and> (0 \<le> t \<longrightarrow> hundredths (temp_text t) = t) \<and>
     (- 100 < t \<and> t < 0 \<longrightarrow> temp_text t = ''0.-'' @ dec_nat (nat (- t)) @ [newline])"
  using temp_text_length [of t] by (simp add: cstr_snprintf hundredths_temp_text temp_text_negative)

theorem temp_text_roundtrip_witness:
  "temp_text 2508 = ''25.08'' @ [newline] \<and> hundredths (temp_text 2508) = 2508"
proof -
  have "temp_text 2508 = ''25.08'' @ [newline]" by code_simp
  with temp_text_roundtrip [of 2508 "replicate 20 NUL"] show ?thesis by simp
qed

text \<open>
  A failed reading is the returned value: no memory gives -12, a failed transfer -5. A copy within the
  buffer gives the reader of the device the text of the reading.
\<close>

lemma failed_reading:
  "\<not> tx_alloc io \<or> \<not> rx_alloc io \<or> fst (send_message io mode) < 0 \<Longrightarrow>
     read_temperature io mode cal = (if \<not> tx_alloc io \<or> \<not> rx_alloc io then - 12 else - 5)"
  by (auto simp: read_temperature_def SENSOR_ENOMEM_def SENSOR_EIO_def Let_def split: prod.splits)

lemma device_read_text:
  assumes "fits (read_temperature io mode cal)" "length stack = 20" "\<And>b. copy_to_user b 20 = (0, take 20 b)"
  shows "fst (k_driver_read io mode cal stack copy_to_user 20) = 20 \<and>
    cstr (snd (k_driver_read io mode cal stack copy_to_user 20)) = temp_text (read_temperature io mode cal)"
  using temp_text_length [OF assms(1)] assms(2,3) by (simp add: k_driver_read_def Let_def cstr_snprintf length_snprintf)

text \<open>
  C27. Any number of successful loads and unloads of the sensor module gives back what it took exactly
  if every \<open>class_create\<close>, \<open>device_create\<close> and \<open>cdev_add\<close> it passed over had succeeded, with or without
  the attribute object, and then leaves nothing held. A load that fails after these leaves at most the character
  device and the memory of that object, and gives nothing back twice. On unload the workqueue
  goes before the timer that queues work on it.
\<close>

theorem sensor_module_balance:
  assumes "\<forall>k \<in> set ks. fst (k_module_init k) = 0" "usable f" "fst (k_module_init f) \<noteq> 0"
  shows "balance (concat (map (\<lambda>k. snd (k_module_init k) @ k_module_exit (kobj_alloc k) True) ks)) {#} =
      (if \<forall>k \<in> set ks. usable k then Some {#} else None) \<and>
    (\<exists>left. balance (snd (k_module_init f)) {#} = Some left \<and> left \<subseteq># {#Kcdev, Kobject_mem#}) \<and>
    balance (take 1 (k_module_exit kobj True)) (mset (sensor_full kobj)) = Some (mset (sensor_full kobj) - {#Workqueue#}) \<and>
    Hrtimer \<in># mset (sensor_full kobj) - {#Workqueue#}"
proof -
  have z: "sum_list (map (\<lambda>k. {#} :: kres multiset) ks) = {#}" by (induction ks) simp_all
  show ?thesis
    using sensor.cycles [OF assms(1), unfolded z] sensor_init_failure [OF assms(2,3)]
    by (simp add: k_module_exit_def sensor_full_def)
qed

definition sensor_ok_kernel :: sensor_kernel where
  "sensor_ok_kernel = \<lparr>chrdev_result = 0, class_result = Valid_ptr, device_result = Valid_ptr, cdev_result = 0,
     gpio_request_result = (\<lambda>_. 0), gpio_direction_result = (\<lambda>_. 0), irq_result = 0, thread_result = Null,
     np_found = True, pdev_found = True, ctlr_found = True, spi_new = True, setup_result = 0,
     calib_read = datasheet_registers, kobj_alloc = True, kobj_add = 0, workqueue_ok = True\<rparr>"

theorem sensor_module_balance_witness:
  "balance (concat (map (\<lambda>k. snd (k_module_init k) @ k_module_exit (kobj_alloc k) True)
      [sensor_ok_kernel, sensor_ok_kernel\<lparr>kobj_alloc := False\<rparr>])) {#} = Some {#} \<and>
   fst (k_module_init (sensor_ok_kernel\<lparr>workqueue_ok := False\<rparr>)) = - 1"
proof -
  let ?f = "sensor_ok_kernel\<lparr>workqueue_ok := False\<rparr>"
  have c: "fst (k_module_init sensor_ok_kernel) = 0" "fst (k_module_init (sensor_ok_kernel\<lparr>kobj_alloc := False\<rparr>)) = 0"
    "fst (k_module_init ?f) = - 1" "usable sensor_ok_kernel" "usable (sensor_ok_kernel\<lparr>kobj_alloc := False\<rparr>)" "usable ?f"
    by (simp_all add: sensor_ok_kernel_def sensor_init_defs read_calibration_def datasheet_registers_def Let_def)
  then show ?thesis
    using sensor_module_balance [of "[sensor_ok_kernel, sensor_ok_kernel\<lparr>kobj_alloc := False\<rparr>]" ?f True] by simp
qed

end
