(* ===== verification/Driver_Testers.thy ===== *)
theory Driver_Testers
  imports Sensor_Spi Button_Interrupt
begin

text \<open>
  \<open>drivers/test_apps\<close>: the two programs that exercise the drivers, composed with the models of the
  drivers they talk to.
\<close>

section \<open>The button tester\<close>

datatype tester_end = Tester_exit int | Tester_waits char

text \<open>The byte written is the number of the first argument as a \<open>char\<close>.\<close>

definition tester_byte :: "string list \<Rightarrow> char" where
  "tester_byte args = char_of (nat ((case args of [] \<Rightarrow> 1 | a # _ \<Rightarrow> atoi a) mod 256))"

definition signalhandler :: string where
  "signalhandler = ''Button pressed!'' @ [newline]"

text \<open>
  \<open>devfd\<close> is the result of \<open>open\<close>. The write and the read are those of the driver; a failed read leaves
  the byte as it was. \<open>delivered\<close> signals arrive while the program sleeps. The result is the text
  printed, how the program stands and the driver. \<open>None\<close>: the driver writes outside its buffer.
\<close>

definition button_tester_main ::
    "string list \<Rightarrow> int \<Rightarrow> int \<Rightarrow> bool \<Rightarrow> nat \<Rightarrow> button_dev \<Rightarrow> (string \<times> tester_end \<times> button_dev) option" where
  "button_tester_main args pid devfd copy_ok delivered d =
     (let buff = tester_byte args; out = ''PID: '' @ dec_int pid @ [newline] in
      if devfd < 0 then Some (out @ ''module open error'' @ [newline], Tester_exit 1, d)
      else (case kdt_driver_write [buff] 1 1 d of
              None \<Rightarrow> None
            | Some (w, d1) \<Rightarrow>
                if w < 0 then Some (out @ ''write error'' @ [newline], Tester_exit 0, d1)
                else (case kdt_driver_read pid copy_ok 1 d1 of
                        (r, t, d2) \<Rightarrow>
                          let buff1 = (if r < 0 then buff else t ! 0) in
                          Some (out @ (if r < 0 then ''read error'' @ [newline] else []) @
                                ''read data: '' @ [buff1, newline] @ ''Wait for signal...'' @ [newline] @
                                concat (replicate delivered signalhandler), Tester_waits buff1, d2))))"

section \<open>The sensor tester\<close>

text \<open>
  One round per return of \<open>poll\<close>: its result, and the bytes there are to read (\<open>None\<close> when the read
  fails). The text is not terminated after the read; \<open>None\<close> is a print past the 100 bytes.
\<close>

fun sensor_tester_loop :: "(int \<times> string option) list \<Rightarrow> cbuffer \<Rightarrow> string option" where
  "sensor_tester_loop [] buff = Some []"
| "sensor_tester_loop ((rv, d) # rounds) buff =
     (let note = (if rv < 0 then ''poll error'' @ [newline]
                  else if rv = 0 then ''Timeout occurred!'' @ [newline] else []) in
      (case d of
         None \<Rightarrow> map_option (\<lambda>r. note @ r) (sensor_tester_loop rounds buff)
       | Some t \<Rightarrow>
           let buff1 = take 100 t @ drop (length (take 100 t)) buff in
           if NUL \<notin> set buff1 then None
           else map_option (\<lambda>r. note @ ''Sensor read: '' @ cstr buff1 @ ''Temp: '' @ dec_int (atoi (cstr buff1))
                  @ [newline, newline] @ r) (sensor_tester_loop rounds buff1)))"

text \<open>\<open>notify_fd\<close> is the result of \<open>open\<close>. A number is the exit code; without one the program still runs.\<close>

definition sensor_tester_main :: "int \<Rightarrow> int \<Rightarrow> (int \<times> string option) list \<Rightarrow> cbuffer \<Rightarrow> (int option \<times> string) option" where
  "sensor_tester_main pid notify_fd rounds buff =
     (let out = ''PID: '' @ dec_int pid @ [newline] in
      if notify_fd < 0 then Some (Some 1, out)
      else map_option (\<lambda>r. (None, out @ r)) (sensor_tester_loop rounds buff))"

lemma atoi_temp_text:
  assumes "0 \<le> t" "fits t"
  shows "atoi (temp_text t @ rest) = t div 100"
proof -
  let ?n = "nat (t div 100)"
  have p: "0 \<le> t div 100" using assms(1) by (simp add: pos_imp_zdiv_nonneg_iff)
  obtain c cs where c: "dec_nat ?n = c # cs" "is_digit c" using dec_nat_hd by blast
  let ?s = "dec_nat ?n @ CHR ''.'' # dec02 (t mod 100) @ [newline] @ rest"
  have s: "temp_text t @ rest = ?s"
    using assms(1) p by (simp add: temp_text_def sdiv_smod_100 dec_int_def)
  have d: "dropWhile is_space ?s = ?s" using c is_digit_not_space by simp
  have g: "split_sign ?s = (False, ?s)" using c is_digit_not_sign by (simp add: split_sign_def)
  have w: "takeWhile is_digit ?s = dec_nat ?n"
    by (rule takeWhile_digits [OF dec_nat_digits]) (simp add: is_digit_def)
  have "t div 100 * 100 \<le> t" by (simp add: minus_mod_eq_div_mult [symmetric])
  then have "t div 100 \<le> t" using p by linarith
  then have b: "t div 100 < 2 ^ 31" using assms(2) by simp
  show ?thesis unfolding s atoi_def d g Let_def prod.case w digits_val_dec_nat using p b
    by (simp add: c_int_id)
qed

section \<open>Properties\<close>

text \<open>
  The whole degrees the sensor tester prints are those of the driver's attribute for every
  temperature that is not negative, whatever an earlier, longer reading left behind in its buffer,
  provided a terminator is left in it; the text it prints before them begins with the attribute's text.
\<close>

lemma sensor_tester_degrees:
  assumes "0 \<le> notify_value s" "fits (notify_value s)" "NUL \<in> set (drop (length (show_attr Notify s)) buff)" "0 < rv"
  shows "\<exists>stale. sensor_tester_loop [(rv, Some (show_attr Notify s))] buff =
    Some (''Sensor read: '' @ show_attr Notify s @ stale @ ''Temp: '' @ dec_int (notify_value s div 100) @ [newline, newline])"
proof -
  let ?t = "show_attr Notify s"
  have t: "?t = temp_text (notify_value s)" by (simp add: show_attr_def)
  have l: "length ?t \<le> 15" unfolding t by (rule temp_text_length [OF assms(2)])
  then have k: "take 100 ?t = ?t" by simp
  have c: "cstr (?t @ drop (length ?t) buff) = ?t @ cstr (drop (length ?t) buff)"
    unfolding t by (simp add: cstr_append_free)
  have a: "atoi (?t @ cstr (drop (length ?t) buff)) = notify_value s div 100"
    unfolding t by (rule atoi_temp_text [OF assms(1,2)])
  show ?thesis using assms(3,4) by (simp add: k c a)
qed

lemma sensor_tester_degrees_example:
  "\<exists>stale. sensor_tester_loop [(1, Some (show_attr Notify (temp_sysfs_start\<lparr>notify_value := 2508\<rparr>)))] (replicate 100 NUL) =
     Some (''Sensor read: '' @ ''25.08'' @ [newline] @ stale @ ''Temp: 25'' @ [newline, newline])"
proof -
  let ?s = "temp_sysfs_start\<lparr>notify_value := 2508\<rparr>"
  have t: "show_attr Notify ?s = ''25.08'' @ [newline]" by code_simp
  have d: "dec_int 25 = ''25''" by code_simp
  have z: "NUL \<in> set (drop (length (show_attr Notify ?s)) (replicate 100 NUL))" by (simp add: t)
  from sensor_tester_degrees [of ?s "replicate 100 NUL" 1, OF _ _ z] t d show ?thesis by simp
qed

text \<open>A shorter reading after a longer one is printed with the end of the longer one.\<close>

lemma stale_reading:
  "sensor_tester_loop [(1, Some (''125.08'' @ [newline])), (1, Some (''9.50'' @ [newline]))] (replicate 100 NUL) =
     Some (''Sensor read: 125.08'' @ [newline] @ ''Temp: 125'' @ [newline, newline] @
       ''Sensor read: 9.50'' @ [newline] @ ''8'' @ [newline] @ ''Temp: 9'' @ [newline, newline])"
  by code_simp

text \<open>
  The button tester sets the driver's output to the level its argument gives and is then the process
  every later press signals, printing a line for each signal; when the device cannot be opened it changes
  nothing.
\<close>

lemma button_tester_registers:
  assumes "length (kdt_write_buffer d) = KDT_BUF_SIZE" "tester_byte args = CHR 0x01 \<or> tester_byte args = CHR 0x00"
  shows "(devfd < 0 \<longrightarrow> (\<exists>out. button_tester_main args pid devfd ok n d = Some (out, Tester_exit 1, d))) \<and>
    (0 \<le> devfd \<longrightarrow> (\<exists>out d'. button_tester_main args pid devfd True n d =
         Some (out @ concat (replicate n signalhandler), Tester_waits CHR ''t'', d') \<and>
       user_space_task d' = Some pid \<and> kdt_output d' = (if tester_byte args = CHR 0x01 then 1 else 0) \<and>
       map_option signals (kdt_gpio_irq_signal_handler (\<lambda>p. p = pid) 0 d') = Some (signals d @ [(pid, SIGNR)])))"
  using assms
  by (auto simp: button_tester_main_def Let_def kdt_driver_write_def kdt_driver_read_def KDT_BUF_SIZE_def
      kdt_gpio_irq_signal_handler_def)

lemma button_tester_registers_example:
  "\<exists>out d'. button_tester_main [] 77 3 True 2 button_start =
     Some (out @ signalhandler @ signalhandler, Tester_waits CHR ''t'', d') \<and> kdt_output d' = 1"
proof -
  have b: "tester_byte [] = CHR 0x01" by code_simp
  show ?thesis
    using button_tester_registers [of button_start "[]" 3 77 True 2] b by (auto simp: button_start_def numeral_2_eq_2)
qed

end
