(* ===== verification/Lab_Log.thy ===== *)
theory Lab_Log
  imports Lab_Prelude
begin

text \<open>
  \<open>src/common/debug.c\<close>: the log of the program \<open>linux_lab\<close>. A message is a line written to one or
  two streams; the clock and the name of the program are parameters.
\<close>

datatype log_level = LOG_ERROR | LOG_INFO | LOG_DEBUG

fun level_no :: "log_level \<Rightarrow> int" where
  "level_no LOG_ERROR = 0"
| "level_no LOG_INFO = 1"
| "level_no LOG_DEBUG = 2"

fun lv_str :: "log_level \<Rightarrow> string" where
  "lv_str LOG_ERROR = ''ERROR''"
| "lv_str LOG_INFO = ''INFO ''"
| "lv_str LOG_DEBUG = ''DEBUG''"

datatype log_stream = Stderr | Stdout | Log_file string

record logger =
  g_debug_level :: int
  g_log_file :: "string option"
  log_out :: "(log_stream \<times> string) list"

definition logger_start :: logger where
  "logger_start = \<lparr>g_debug_level = level_no LOG_ERROR, g_log_file = None, log_out = []\<rparr>"

record log_time =
  log_stamp :: string
  log_usec :: int
  log_program :: string

definition escape :: char where
  "escape = CHR 0x1B"

definition log_targets :: "log_level \<Rightarrow> string option \<Rightarrow> log_stream list" where
  "log_targets level logfile =
     (if level = LOG_ERROR then [Stderr] else []) @
     (case logfile of Some f \<Rightarrow> [Log_file f] | None \<Rightarrow> if level \<noteq> LOG_ERROR then [Stdout] else [])"

definition log_line :: "log_time \<Rightarrow> log_level \<Rightarrow> string \<Rightarrow> string \<Rightarrow> int \<Rightarrow> string \<Rightarrow> log_stream \<Rightarrow> string" where
  "log_line t level file func line msg f =
     log_stamp t @ '':'' @ dec02 (log_usec t sdiv 1000) @ '' '' @ ''['' @ log_program t @ ''][''
     @ (if level = LOG_ERROR \<and> (case f of Log_file _ \<Rightarrow> False | _ \<Rightarrow> True)
        then [escape] @ ''[31m'' @ lv_str level @ [escape] @ ''[0m'' else lv_str level)
     @ ''][''  @ file @ '':'' @ func @ '':'' @ dec_int line @ ''] '' @ msg @ [newline]"

text \<open>\<open>None\<close>: the clock failed and \<open>err\<close> ended the process.\<close>

definition log_log :: "log_time option \<Rightarrow> log_level \<Rightarrow> string \<Rightarrow> string \<Rightarrow> int \<Rightarrow> string \<Rightarrow> logger \<Rightarrow> logger option" where
  "log_log clock level file func line msg l =
     (if level_no level > g_debug_level l then Some l
      else (case clock of
              None \<Rightarrow> None
            | Some t \<Rightarrow> Some (l\<lparr>log_out := log_out l @
                map (\<lambda>f. (f, log_line t level file func line msg f)) (log_targets level (g_log_file l))\<rparr>)))"

text \<open>\<open>fopen_log\<close>: \<open>None\<close> when the file opens for appending, otherwise the text of the error.\<close>

definition set_log_file :: "(string \<Rightarrow> string option) \<Rightarrow> string \<Rightarrow> logger \<Rightarrow> logger" where
  "set_log_file fopen_log filename l =
     (case fopen_log filename of
        None \<Rightarrow> l\<lparr>g_log_file := Some filename\<rparr>
      | Some strerror \<Rightarrow> l\<lparr>g_log_file := None,
          log_out := log_out l @ [(Stderr, ''failed to open log file '' @ filename @ '': '' @ strerror @ [newline])]\<rparr>)"

section \<open>Where a message goes\<close>

lemma log_targets_cases:
  "log_targets LOG_ERROR None = [Stderr]"
  "log_targets LOG_ERROR (Some f) = [Stderr, Log_file f]"
  "level \<noteq> LOG_ERROR \<Longrightarrow> log_targets level None = [Stdout]"
  "level \<noteq> LOG_ERROR \<Longrightarrow> log_targets level (Some f) = [Log_file f]"
  by (simp_all add: log_targets_def)

text \<open>
  A message within the level is written once to the log file when there is one; otherwise an
  error goes to standard error and the rest to standard output. Every error at any level that is not negative
  also reaches standard error, in colour, while the copy in the file is plain. A message above the
  level writes nothing and does not even read the clock.
\<close>

lemma log_routing:
  "(level_no level > g_debug_level l \<longrightarrow> log_log None level file func line msg l = Some l) \<and>
   (0 \<le> g_debug_level l \<longrightarrow> (\<exists>l'. log_log (Some t) LOG_ERROR file func line msg l = Some l' \<and>
      (Stderr, log_line t LOG_ERROR file func line msg Stderr) \<in> set (log_out l'))) \<and>
   (level_no level \<le> g_debug_level l \<longrightarrow> (\<exists>l'. log_log (Some t) level file func line msg l = Some l' \<and>
      filter (\<lambda>(f, x). f \<noteq> Stderr) (drop (length (log_out l)) (log_out l')) =
        (case g_log_file l of
           Some g \<Rightarrow> [(Log_file g, log_line t level file func line msg (Log_file g))]
         | None \<Rightarrow> if level = LOG_ERROR then [] else [(Stdout, log_line t level file func line msg Stdout)])))"
  by (cases level) (auto simp: log_log_def log_targets_def split: option.splits)

definition noon :: log_time where
  "noon = \<lparr>log_stamp = ''12:00:00'', log_usec = 5000, log_program = ''lab''\<rparr>"

lemma log_routing_example:
  "\<exists>l'. log_log (Some noon) LOG_INFO ''a.c'' ''f'' 7 ''hi'' (logger_start\<lparr>g_debug_level := 1\<rparr>) = Some l' \<and>
     log_out l' = [(Stdout, ''12:00:00:05 [lab][INFO ][a.c:f:7] hi'' @ [newline])]"
proof -
  have l: "log_line noon LOG_INFO ''a.c'' ''f'' 7 ''hi'' Stdout = ''12:00:00:05 [lab][INFO ][a.c:f:7] hi'' @ [newline]"
    by code_simp
  from log_routing [of "logger_start\<lparr>g_debug_level := 1\<rparr>" LOG_INFO "''a.c''" "''f''" 7 "''hi''" noon]
  show ?thesis
    by (auto simp: logger_start_def log_log_def log_targets_def l)
qed

end
