(* ===== verification/Lab_Mqueue.thy ===== *)
theory Lab_Mqueue
  imports Lab_Prelude
begin

text \<open>
  The message queues between the processes of \<open>linux_lab\<close>: the message of \<open>src/ipc/message.h\<close>,
  POSIX queues as bounded first-in first-out lists, their creation in \<open>src/main.c\<close>, and the
  interface the shell and the monitor thread rely on.
\<close>

record mq_msg =
  msg_type :: u32
  param1 :: u32
  param2 :: u32
  param3 :: u64

text \<open>The size of the structure, with the padding before the pointer.\<close>

definition sizeof_mq_msg :: nat where
  "sizeof_mq_msg = 24"

definition NUM_MESSAGES :: nat where
  "NUM_MESSAGES = 10"

record mqueue =
  mq_maxmsg :: nat
  mq_msgsize :: nat
  mq_msgs :: "mq_msg list"

text \<open>A call fails with -1, blocks, or returns.\<close>

datatype 'a mq_result = Mq_error | Mq_block | Mq_ok 'a

definition mq_send :: "mqueue \<Rightarrow> mq_msg \<Rightarrow> nat \<Rightarrow> mqueue mq_result" where
  "mq_send q m sz =
     (if sz > mq_msgsize q then Mq_error
      else if length (mq_msgs q) \<ge> mq_maxmsg q then Mq_block
      else Mq_ok (q\<lparr>mq_msgs := mq_msgs q @ [m]\<rparr>))"

definition mq_receive :: "mqueue \<Rightarrow> nat \<Rightarrow> (mq_msg \<times> mqueue) mq_result" where
  "mq_receive q sz =
     (if sz < mq_msgsize q then Mq_error
      else (case mq_msgs q of [] \<Rightarrow> Mq_block | m # ms \<Rightarrow> Mq_ok (m, q\<lparr>mq_msgs := ms\<rparr>)))"

section \<open>Creation\<close>

type_synonym queues = "string \<Rightarrow> mqueue option"

text \<open>
  \<open>fd1\<close> and \<open>fd2\<close> are the results of the two \<open>mq_open\<close> calls. \<open>None\<close>: the assertion after the
  second one fails.
\<close>

definition create_message_queue ::
    "int \<Rightarrow> int \<Rightarrow> string \<Rightarrow> nat \<Rightarrow> nat \<Rightarrow> queues \<Rightarrow> (int \<times> int option \<times> queues) option" where
  "create_message_queue fd1 fd2 name num_messages message_size qs =
     (let qs1 = qs(name := None) in
      if fd1 = -1 then (if fd2 = -1 then None else Some (-1, None, qs1))
      else Some (0, Some fd1,
        qs1(name \<mapsto> \<lparr>mq_maxmsg = num_messages, mq_msgsize = message_size, mq_msgs = []\<rparr>)))"

section \<open>The interface\<close>

text \<open>
  What both ends rely on, for queues that satisfy \<open>ok\<close>: a message is appended unless the queue is
  full, and taken from the front unless it is empty.
\<close>

locale bounded_fifo =
  fixes ok :: "'q \<Rightarrow> bool"
    and put :: "'q \<Rightarrow> 'm \<Rightarrow> 'q option"
    and get :: "'q \<Rightarrow> ('m \<times> 'q) option"
    and items :: "'q \<Rightarrow> 'm list"
    and cap :: "'q \<Rightarrow> nat"
  assumes put_some: "ok q \<Longrightarrow> put q m = Some q' \<Longrightarrow> ok q' \<and> items q' = items q @ [m] \<and> cap q' = cap q"
    and put_none: "ok q \<Longrightarrow> put q m = None \<longleftrightarrow> cap q \<le> length (items q)"
    and get_some: "ok q \<Longrightarrow> get q = Some (m, q') \<Longrightarrow> ok q' \<and> items q = m # items q' \<and> cap q' = cap q"
    and get_none: "ok q \<Longrightarrow> get q = None \<longleftrightarrow> items q = []"

text \<open>
  A run of both ends: an operation that would block is tried again later, so here it changes nothing.
  The two lists are the messages sent and the messages received so far.
\<close>

datatype 'm fifo_op = Put 'm | Get

fun fifo_run :: "('q \<Rightarrow> 'm \<Rightarrow> 'q option) \<Rightarrow> ('q \<Rightarrow> ('m \<times> 'q) option) \<Rightarrow> 'm fifo_op list \<Rightarrow>
    'q \<times> 'm list \<times> 'm list \<Rightarrow> 'q \<times> 'm list \<times> 'm list" where
  "fifo_run put get [] st = st"
| "fifo_run put get (Put m # ops) (q, snt, rcv) =
     (case put q m of
        None \<Rightarrow> fifo_run put get ops (q, snt, rcv)
      | Some q' \<Rightarrow> fifo_run put get ops (q', snt @ [m], rcv))"
| "fifo_run put get (Get # ops) (q, snt, rcv) =
     (case get q of
        None \<Rightarrow> fifo_run put get ops (q, snt, rcv)
      | Some (m, q') \<Rightarrow> fifo_run put get ops (q', snt, rcv @ [m]))"

context bounded_fifo
begin

lemma run_keeps:
  assumes "ok q" "snt = rcv @ items q" "length (items q) \<le> cap q"
    and "fifo_run put get ops (q, snt, rcv) = (q', snt', rcv')"
  shows "ok q' \<and> snt' = rcv' @ items q' \<and> length (items q') \<le> cap q' \<and> cap q' = cap q"
  using assms
proof (induction ops arbitrary: q snt rcv)
  case (Cons op ops)
  show ?case
  proof (cases op)
    case (Put m)
    show ?thesis
    proof (cases "put q m")
      case (Some p)
      with put_some [OF Cons.prems(1) Some] put_none [OF Cons.prems(1), of m] Cons.prems
      show ?thesis using Cons.IH [of p "snt @ [m]" rcv] Put by auto
    next
      case None
      then show ?thesis using Cons.IH [of q snt rcv] Cons.prems Put by simp
    qed
  next
    case Get
    show ?thesis
    proof (cases "get q")
      case (Some mp)
      obtain m p where mp: "mp = (m, p)" by (cases mp)
      with get_some [OF Cons.prems(1), of m p] Cons.prems Some
      show ?thesis using Cons.IH [of p snt "rcv @ [m]"] Get by auto
    next
      case None
      then show ?thesis using Cons.IH [of q snt rcv] Cons.prems Get by simp
    qed
  qed
qed auto

lemma drain:
  assumes "ok q"
  shows "fifo_run put get (replicate (length (items q)) Get) (q, snt, rcv) =
    (fst (fifo_run put get (replicate (length (items q)) Get) (q, snt, rcv)), snt, rcv @ items q)"
  using assms
proof (induction "items q" arbitrary: q rcv)
  case (Cons m ms)
  then obtain p where p: "get q = Some (m, p)" "ms = items p" "ok p"
    using get_none [of q] get_some [of q] by (cases "get q") fastforce+
  from Cons(1) [of p "rcv @ [m]"] Cons(2) p show ?case
    by (simp add: Cons(2) [symmetric])
qed auto

end

definition msg_queue :: "mqueue \<Rightarrow> bool" where
  "msg_queue q \<longleftrightarrow> mq_msgsize q = sizeof_mq_msg"

definition mq_put :: "mqueue \<Rightarrow> mq_msg \<Rightarrow> mqueue option" where
  "mq_put q m = (case mq_send q m sizeof_mq_msg of Mq_ok q' \<Rightarrow> Some q' | _ \<Rightarrow> None)"

definition mq_get :: "mqueue \<Rightarrow> (mq_msg \<times> mqueue) option" where
  "mq_get q = (case mq_receive q sizeof_mq_msg of Mq_ok r \<Rightarrow> Some r | _ \<Rightarrow> None)"

interpretation mq: bounded_fifo msg_queue mq_put mq_get mq_msgs mq_maxmsg
  by unfold_locales
    (auto simp: msg_queue_def mq_put_def mq_get_def mq_send_def mq_receive_def split: if_splits list.splits)

section \<open>Properties\<close>

text \<open>
  Whatever existed under the name, a queue that was created is empty, takes ten messages of the
  structure's size, and keeps the other queues; when creation fails the caller gets -1 and the old
  queue of that name is gone, or the process is aborted.
\<close>

lemma create_queue_fresh:
  "(fd1 \<noteq> -1 \<longrightarrow> (\<exists>qs' q. create_message_queue fd1 fd2 name NUM_MESSAGES sizeof_mq_msg qs = Some (0, Some fd1, qs') \<and>
      qs' name = Some q \<and> msg_queue q \<and> mq_msgs q = [] \<and> mq_maxmsg q = 10 \<and> (\<forall>n. n \<noteq> name \<longrightarrow> qs' n = qs n))) \<and>
   (fd1 = -1 \<and> fd2 \<noteq> -1 \<longrightarrow> create_message_queue fd1 fd2 name NUM_MESSAGES sizeof_mq_msg qs = Some (-1, None, qs(name := None))) \<and>
   (create_message_queue fd1 fd2 name NUM_MESSAGES sizeof_mq_msg qs = None \<longleftrightarrow> fd1 = -1 \<and> fd2 = -1)"
  by (simp add: create_message_queue_def NUM_MESSAGES_def msg_queue_def Let_def)

lemma create_queue_fresh_example:
  "\<exists>qs' q. create_message_queue 3 0 ''/m'' NUM_MESSAGES sizeof_mq_msg (\<lambda>_. None) = Some (0, Some 3, qs') \<and>
     qs' ''/m'' = Some q \<and> mq_msgs q = []"
  using create_queue_fresh [of 3 0 "''/m''" "\<lambda>_. None"] by auto

text \<open>
  Messages of the structure's size leave a queue in the order they were sent, none lost, none
  twice, in every run of senders and receivers; the queue never holds more than its limit, and as
  many receives as there are messages deliver all of them.
\<close>

lemma queue_fifo:
  assumes "msg_queue q" "length (mq_msgs q) \<le> mq_maxmsg q"
    and "fifo_run mq_put mq_get ops (q, mq_msgs q, []) = (q', snt, rcv)"
  shows "snt = rcv @ mq_msgs q' \<and> length (mq_msgs q') \<le> mq_maxmsg q \<and>
    snd (snd (fifo_run mq_put mq_get (ops @ replicate (length (mq_msgs q')) Get) (q, mq_msgs q, []))) = snt"
proof -
  have k: "msg_queue q' \<and> snt = rcv @ mq_msgs q' \<and> length (mq_msgs q') \<le> mq_maxmsg q' \<and> mq_maxmsg q' = mq_maxmsg q"
    using mq.run_keeps [OF assms(1) _ assms(2,3)] by simp
  have app: "fifo_run mq_put mq_get (xs @ ys) st = fifo_run mq_put mq_get ys (fifo_run mq_put mq_get xs st)"
    for xs ys st
    by (induction mq_put mq_get xs st rule: fifo_run.induct) (auto split: option.splits)
  show ?thesis
    using k mq.drain [of q' snt rcv] by (simp add: app assms(3) prod_eq_iff)
qed

definition dump_msg :: mq_msg where
  "dump_msg = \<lparr>msg_type = 2, param1 = 0, param2 = 0, param3 = 0\<rparr>"

lemma queue_fifo_example:
  "let q = \<lparr>mq_maxmsg = 1, mq_msgsize = 24, mq_msgs = []\<rparr>;
       st = fifo_run mq_put mq_get [Put dump_msg, Put (dump_msg\<lparr>msg_type := 1\<rparr>), Get] (q, [], [])
   in snd st = ([dump_msg], [dump_msg]) \<and> mq_msgs (fst st) = []"
proof -
  let ?q = "\<lparr>mq_maxmsg = 1, mq_msgsize = 24, mq_msgs = []\<rparr>"
  have "fifo_run mq_put mq_get [Put dump_msg, Put (dump_msg\<lparr>msg_type := 1\<rparr>), Get] (?q, mq_msgs ?q, []) =
      (?q, [dump_msg], [dump_msg])"
    by (simp add: mq_put_def mq_get_def mq_send_def mq_receive_def sizeof_mq_msg_def)
  from queue_fifo [OF _ _ this] this show ?thesis by (simp add: msg_queue_def sizeof_mq_msg_def)
qed

end
