(* ===== verification/Lab_Shm.thy ===== *)
theory Lab_Shm
  imports Lab_Prelude
begin

text \<open>
  \<open>src/ipc/shm.c\<close>: System V shared memory by key. The system calls are a parameter; a pointer is an
  integer with -1 for failure and 0 for \<open>NULL\<close>. \<open>None\<close> is an access outside \<open>shm_id\<close>.
\<close>

definition SHM_KEY_BASE :: int where
  "SHM_KEY_BASE = 10"

definition SHM_KEY_MAX :: int where
  "SHM_KEY_MAX = 11"

record shm_os =
  shmget :: "int \<Rightarrow> int \<Rightarrow> int"
  shmat :: "int \<Rightarrow> int"
  shmdt :: "int \<Rightarrow> int"
  shmctl_rmid :: "int \<Rightarrow> int"

definition shm_id_start :: "int list" where
  "shm_id_start = replicate (nat (SHM_KEY_MAX - SHM_KEY_BASE)) 0"

definition toy_shm_attach :: "shm_os \<Rightarrow> int \<Rightarrow> int" where
  "toy_shm_attach os shmid =
     (if shmid < 0 then -1 else let ptr = shmat os shmid in if ptr = -1 then -1 else ptr)"

definition toy_shm_create :: "shm_os \<Rightarrow> int \<Rightarrow> int \<Rightarrow> int list \<Rightarrow> (int \<times> int list) option" where
  "toy_shm_create os key sz shm_id =
     (if key < SHM_KEY_BASE \<or> key \<ge> SHM_KEY_MAX \<or> sz \<le> 0 then Some (-1, shm_id)
      else let key_offset = nat (key - SHM_KEY_BASE) in
        if key_offset \<ge> length shm_id then None
        else let i = shmget os key sz; ids = shm_id[key_offset := i] in
          if i = -1 then Some (-1, ids)
          else let ptr = toy_shm_attach os i in
            if ptr = -1 then Some (-1, ids) else Some (ptr, ids))"

definition toy_shm_detach :: "shm_os \<Rightarrow> int \<Rightarrow> int" where
  "toy_shm_detach os ptr = (if ptr = 0 then -1 else shmdt os ptr)"

definition toy_shm_remove :: "shm_os \<Rightarrow> int \<Rightarrow> int" where
  "toy_shm_remove os shmid = (if shmid \<le> 0 then -1 else shmctl_rmid os shmid)"

definition toy_shm_get_keyid :: "int \<Rightarrow> int list \<Rightarrow> int option" where
  "toy_shm_get_keyid key shm_id =
     (if key < SHM_KEY_BASE \<or> key \<ge> SHM_KEY_MAX then Some (-1)
      else let key_offset = nat (key - SHM_KEY_BASE) in
        if key_offset \<ge> length shm_id then None else Some (shm_id ! key_offset))"

lemmas shm_defs = toy_shm_create_def toy_shm_attach_def toy_shm_get_keyid_def toy_shm_remove_def
  SHM_KEY_BASE_def SHM_KEY_MAX_def

text \<open>The table keeps its one entry.\<close>

definition shm_ids_ok :: "int list \<Rightarrow> bool" where
  "shm_ids_ok ids \<longleftrightarrow> int (length ids) = SHM_KEY_MAX - SHM_KEY_BASE"

lemma shm_id_start_ok: "shm_ids_ok shm_id_start"
  by (simp add: shm_ids_ok_def shm_id_start_def SHM_KEY_BASE_def SHM_KEY_MAX_def)

lemma key_in_table: "shm_ids_ok ids \<Longrightarrow> \<not> (key < SHM_KEY_BASE \<or> key \<ge> SHM_KEY_MAX) \<Longrightarrow> nat (key - SHM_KEY_BASE) < length ids"
  by (auto simp: shm_ids_ok_def SHM_KEY_BASE_def SHM_KEY_MAX_def)

text \<open>
  No call reads or writes outside \<open>shm_id\<close>, whatever the key, and the table keeps its size. A
  segment that was created is found again under its key and is the one that was attached. Every
  refused argument and every failed system call gives -1; but the segment with identifier 0, which
  \<open>shmget\<close> may return, can be created and never removed.
\<close>

lemma shm_key_table:
  assumes "shm_ids_ok ids"
  shows "\<exists>ptr ids'. toy_shm_create os key sz ids = Some (ptr, ids') \<and> shm_ids_ok ids' \<and>
      toy_shm_get_keyid key ids' \<noteq> None \<and>
      (ptr \<noteq> -1 \<longrightarrow> toy_shm_get_keyid key ids' = Some (shmget os key sz) \<and> ptr = shmat os (shmget os key sz)) \<and>
      (key \<noteq> SHM_KEY_BASE \<or> sz \<le> 0 \<longrightarrow> ptr = -1 \<and> ids' = ids) \<and>
      toy_shm_remove os 0 = -1"
proof -
  obtain x where x: "ids = [x]"
    using assms by (cases ids) (auto simp: shm_ids_ok_def SHM_KEY_BASE_def SHM_KEY_MAX_def)
  show ?thesis using assms by (auto simp: x shm_defs Let_def shm_ids_ok_def)
qed

definition sample_shm :: shm_os where
  "sample_shm = \<lparr>shmget = (\<lambda>_ _. 0), shmat = (\<lambda>_. 4096), shmdt = (\<lambda>_. 0), shmctl_rmid = (\<lambda>_. 0)\<rparr>"

lemma shm_key_table_example:
  "\<exists>ids'. toy_shm_create sample_shm 10 64 shm_id_start = Some (4096, ids') \<and>
     toy_shm_get_keyid 10 ids' = Some 0 \<and> toy_shm_remove sample_shm 0 = -1"
proof -
  have c: "toy_shm_create sample_shm 10 64 shm_id_start = Some (4096, [0])"
    by (simp add: shm_defs sample_shm_def shm_id_start_def)
  have g: "shmget sample_shm 10 64 = 0" by (simp add: sample_shm_def)
  show ?thesis
    using shm_key_table [OF shm_id_start_ok, of sample_shm 10 64]
    unfolding c g by auto
qed

end
