(* ===== verification/Lab_Launcher.thy ===== *)
theory Lab_Launcher
  imports Lab_Log Wlinkd_Main
begin

text \<open>
  \<open>src/core/launcher.c\<close>: how \<open>linux_lab\<close> starts the daemon \<open>wlinkd\<close>, and what the daemon's own
  option parser makes of the arguments it is given.
\<close>

definition WLINKD_PATH :: string where
  "WLINKD_PATH = ''./wlinkd/wlinkd''"

text \<open>
  The system calls: the target of \<open>/proc/self/exe\<close> (\<open>None\<close> when \<open>readlink\<close> fails), whether the
  daemon can be executed, the result of \<open>fork\<close>, and whether \<open>execl\<close> replaces the child.
\<close>

record launch_os =
  exe_link :: "string option"
  wlinkd_executable :: bool
  launch_fork :: int
  execl_ok :: bool

text \<open>The new value of \<open>initialized\<close> and the argument of \<open>chdir\<close>, if it is called.\<close>

definition prepare_project_root :: "launch_os \<Rightarrow> bool \<Rightarrow> bool \<times> string option" where
  "prepare_project_root os initialized =
     (if initialized then (True, None)
      else (case exe_link os of
              None \<Rightarrow> (True, None)
            | Some l \<Rightarrow>
                let exe_path = take 255 l in
                if exe_path = [] then (True, None)
                else (case strrchr (cstr exe_path) CHR ''/'' of
                        None \<Rightarrow> (True, None)
                      | Some i \<Rightarrow> (True, Some (take i exe_path)))))"

definition log_args :: "string option list" where
  "log_args = [None, Some ''-d'', Some ''-dd'']"

text \<open>\<open>execl\<close> stops at the first null argument.\<close>

definition wlinkd_argv :: "int \<Rightarrow> string list" where
  "wlinkd_argv level =
     (let log_argc = (if level = level_no LOG_INFO then 1 else if level = level_no LOG_DEBUG then 2 else 0)
      in [WLINKD_PATH, ''-s''] @ (case log_args ! log_argc of None \<Rightarrow> [] | Some a \<Rightarrow> [a]))"

text \<open>The command that ends the daemons of earlier runs.\<close>

definition kill_command :: string where
  "kill_command = ''pkill -f '' @ [CHR 0x27] @ ''./wlinkd/wlinkd'' @ [CHR 0x27] @ '' >/dev/null 2>&1 || true''"

text \<open>
  How the call ends: it returns in the parent; the child becomes the daemon; or the child, whose
  \<open>execl\<close> failed, exits with a status. The effects are the calls of \<open>chdir\<close> and \<open>system\<close> in order;
  the result of neither is used.
\<close>

datatype launched = Launch_returns int | Launch_executes "string list" | Launch_exits int

datatype launch_effect = Chdir string | System string

definition launch_wlinkd_daemon :: "launch_os \<Rightarrow> int \<Rightarrow> bool \<Rightarrow> launched \<times> bool \<times> launch_effect list" where
  "launch_wlinkd_daemon os level initialized =
     (let (init', dir) = prepare_project_root os initialized;
          effects = (case dir of None \<Rightarrow> [] | Some d \<Rightarrow> [Chdir d]) @ [System kill_command] in
      if \<not> wlinkd_executable os then (Launch_returns 0, init', effects)
      else let system_pid = launch_fork os in
        if system_pid = 0
        then (if execl_ok os then (Launch_executes (wlinkd_argv level), init', effects)
              else (Launch_exits 1, init', effects))
        else if system_pid > 0 then (Launch_returns system_pid, init', effects)
        else (Launch_returns (-1), init', effects))"

lemma project_root_parent:
  assumes "prepare_project_root os False = (True, Some dir)" "exe_link os = Some l"
  shows "dir = take (length dir) l \<and> l ! length dir = CHR ''/'' \<and> length dir < 255"
proof -
  from assms obtain i where i: "strrchr (cstr (take 255 l)) CHR ''/'' = Some i" "dir = take i (take 255 l)"
    by (auto simp: prepare_project_root_def Let_def split: if_splits option.splits)
  from strrchr_Some [OF i(1)] have b: "i < length (cstr (take 255 l))" "cstr (take 255 l) ! i = CHR ''/''" by auto
  then have "i < length (take 255 l)" using length_cstr_le [of "take 255 l"] by simp
  moreover have "cstr (take 255 l) ! i = take 255 l ! i"
    using b(1) take_length_cstr [of "take 255 l"] by (metis nth_take)
  ultimately show ?thesis using i(2) b(2) by auto
qed

text \<open>
  The daemon understands every command line the launcher gives it: it takes its push socket option,
  and its debug level ends one or two above its own initial level exactly when the level of
  \<open>linux_lab\<close> is 1 or 2. At every other level, also at 3 and above, it is told nothing.
\<close>

lemma wlinkd_argv_parsed:
  assumes "level0 + 2 \<le> log_debug"
  shows "wlinkd_options log_debug level0 (tl (wlinkd_argv level)) =
    Some \<lparr>cfg_ifname = ''wlan0'', cfg_ipc = True,
      cfg_debug = level0 + (if level = 1 \<or> level = 2 then level else 0), cfg_log_file = None\<rparr>"
proof -
  consider "level = 1" | "level = 2" | "level \<noteq> 1" "level \<noteq> 2" by blast
  then show ?thesis
  proof cases
    case 1
    then have "tl (wlinkd_argv level) = [''-s'', ''-d'']" by (simp add: wlinkd_argv_def log_args_def)
    with 1 assms show ?thesis by (simp add: wlinkd_options_def getopt_def)
  next
    case 2
    then have "tl (wlinkd_argv level) = [''-s'', ''-dd'']" by (simp add: wlinkd_argv_def log_args_def)
    with 2 assms show ?thesis by (simp add: wlinkd_options_def getopt_def)
  next
    case 3
    then have "tl (wlinkd_argv level) = [''-s'']" by (simp add: wlinkd_argv_def log_args_def)
    with 3 show ?thesis by (simp add: wlinkd_options_def getopt_def)
  qed
qed

definition sample_launch :: launch_os where
  "sample_launch = \<lparr>exe_link = Some ''/home/pi/lab/linux_lab'', wlinkd_executable = True, launch_fork = 0, execl_ok = True\<rparr>"

end
