(* ===== verification/Lab_Worker.thy ===== *)
theory Lab_Worker
  imports Lab_Log Lab_Mqueue
begin

text \<open>
  \<open>src/core/worker.c\<close>: the system server of \<open>linux_lab\<close>. Its threads: the timer with its semaphore,
  the watchdog and the monitor at their message queues, the disk service, the real-time thread, the
  LED watcher at the daemon's socket, the button watcher, and the main loop behind a condition
  variable. System calls are parameters: their results are given as inputs, one record per round.
\<close>

section \<open>Time\<close>

definition MILLISEC_PER_SECOND :: u32 where
  "MILLISEC_PER_SECOND = 1000"

definition NANOSEC_PER_USEC :: u32 where
  "NANOSEC_PER_USEC = 1000"

definition USEC_PER_MILLISEC :: u32 where
  "USEC_PER_MILLISEC = 1000"

record timespec =
  tv_sec :: u32
  tv_nsec :: u32

definition sleep_time :: "u32 \<Rightarrow> timespec" where
  "sleep_time timeout_ms =
     \<lparr>tv_sec = timeout_ms div MILLISEC_PER_SECOND,
      tv_nsec = (timeout_ms mod MILLISEC_PER_SECOND) * (NANOSEC_PER_USEC * USEC_PER_MILLISEC)\<rparr>"

definition posix_sleep_ms :: "(timespec \<Rightarrow> int) \<Rightarrow> u32 \<Rightarrow> int" where
  "posix_sleep_ms nanosleep timeout_ms = nanosleep (sleep_time timeout_ms)"

record itimerval =
  it_interval :: "int \<times> int"
  it_value :: "int \<times> int"

definition set_periodic_timer :: "int \<Rightarrow> int \<Rightarrow> itimerval" where
  "set_periodic_timer sec_delay usec_delay =
     \<lparr>it_interval = (sec_delay, usec_delay), it_value = (sec_delay, usec_delay)\<rparr>"

section \<open>The timer thread\<close>

text \<open>
  \<open>global_timer_sem\<close>, \<open>timer\<close>, and where the thread is: before the loop's test, in \<open>sem_wait\<close>, or
  asleep before it calls the handler. \<open>alarms\<close> counts the \<open>SIGALRM\<close> signals handled.
\<close>

datatype timer_pc = Timer_test | Timer_wait | Timer_sleep | Timer_done

record timer_state =
  global_timer_sem :: nat
  timer :: int
  global_timer_stopped :: bool
  timer_pc :: timer_pc
  alarms :: nat

definition timer_start :: timer_state where
  "timer_start = \<lparr>global_timer_sem = 0, timer = 0, global_timer_stopped = False, timer_pc = Timer_test, alarms = 0\<rparr>"

definition timer_expire_signal_handler :: "timer_state \<Rightarrow> timer_state" where
  "timer_expire_signal_handler s = s\<lparr>global_timer_sem := Suc (global_timer_sem s), alarms := Suc (alarms s)\<rparr>"

definition system_timeout_handler :: "timer_state \<Rightarrow> timer_state" where
  "system_timeout_handler s = s\<lparr>timer := c_int (timer s + 1)\<rparr>"

text \<open>One step of the thread; \<open>interrupted\<close>: \<open>sem_wait\<close> returns with \<open>EINTR\<close>. \<open>None\<close>: it blocks or has ended.\<close>

definition timer_thread :: "bool \<Rightarrow> timer_state \<Rightarrow> timer_state option" where
  "timer_thread interrupted s =
     (case timer_pc s of
        Timer_test \<Rightarrow> Some (s\<lparr>timer_pc := (if global_timer_stopped s then Timer_done else Timer_wait)\<rparr>)
      | Timer_wait \<Rightarrow>
          if interrupted then Some (s\<lparr>timer_pc := Timer_test\<rparr>)
          else if global_timer_sem s > 0
          then Some (s\<lparr>global_timer_sem := global_timer_sem s - 1, timer_pc := Timer_sleep\<rparr>)
          else None
      | Timer_sleep \<Rightarrow> Some ((system_timeout_handler s)\<lparr>timer_pc := Timer_test\<rparr>)
      | Timer_done \<Rightarrow> None)"

inductive timer_step :: "timer_state \<Rightarrow> timer_state \<Rightarrow> bool" where
  alarm: "timer_step s (timer_expire_signal_handler s)"
| thread: "timer_thread interrupted s = Some s' \<Longrightarrow> timer_step s s'"

section \<open>Queues\<close>

definition SENSOR_DATA :: u32 where
  "SENSOR_DATA = 1"

definition DUMP_STATE :: u32 where
  "DUMP_STATE = 2"

text \<open>
  One round of a thread at its queue: \<open>Mq_block\<close> while it waits, \<open>Mq_error\<close> where the assertion on
  the result of \<open>mq_receive\<close> fails.
\<close>

definition watchdog_thread :: "mqueue \<Rightarrow> (mq_msg \<times> mqueue) mq_result" where
  "watchdog_thread q = mq_receive q sizeof_mq_msg"

datatype monitor_action = Dumpstate | Unknown_message

definition monitor_thread :: "mqueue \<Rightarrow> (monitor_action \<times> mqueue) mq_result" where
  "monitor_thread q =
     (case mq_receive q sizeof_mq_msg of
        Mq_error \<Rightarrow> Mq_error
      | Mq_block \<Rightarrow> Mq_block
      | Mq_ok (msg, q') \<Rightarrow> Mq_ok (if msg_type msg = DUMP_STATE then Dumpstate else Unknown_message, q'))"

section \<open>The disk service\<close>

text \<open>
  A directory entry as \<open>lstat\<close> sees it: gone, a file with its size, or a directory with its own
  size and its entries (\<open>None\<close> when it cannot be opened).
\<close>

datatype fs_node = Gone | File int | Dir int "(string \<times> fs_node) list option"

text \<open>
  The size, and the directory streams that were opened: none is closed. \<open>None\<close>: a path does not fit
  \<open>filePath\<close>.
\<close>

definition FILE_PATH_SIZE :: nat where
  "FILE_PATH_SIZE = 1024"

function (sequential) get_directory_size :: "string \<Rightarrow> (string \<times> fs_node) list option \<Rightarrow> (int \<times> nat) option"
and size_loop :: "string \<Rightarrow> (string \<times> fs_node) list \<Rightarrow> int \<Rightarrow> nat \<Rightarrow> (int \<times> nat) option" where
  "get_directory_size dirname None = Some (0, 0)"
| "get_directory_size dirname (Some entries) = size_loop dirname entries 0 1"
| "size_loop dirname [] total_size streams = Some (total_size, streams)"
| "size_loop dirname ((d_name, st) # entries) total_size streams =
     (if d_name = ''.'' \<or> d_name = ''..'' then size_loop dirname entries total_size streams
      else if length dirname + 1 + length d_name \<ge> FILE_PATH_SIZE then None
      else (case st of
              Gone \<Rightarrow> size_loop dirname entries total_size streams
            | File sz \<Rightarrow> size_loop dirname entries (total_size + sz) streams
            | Dir sz sub \<Rightarrow>
                (case get_directory_size (dirname @ ''/'' @ d_name) sub of
                   None \<Rightarrow> None
                 | Some (s, k) \<Rightarrow> size_loop dirname entries (total_size + (s + sz)) (streams + k))))"
  by pat_completeness auto
termination
  by (relation "measure (case_sum (\<lambda>(d, es). size_option (size_list (size_prod (\<lambda>_. 0) size)) es)
        (\<lambda>(d, es, t, k). size_list (size_prod (\<lambda>_. 0) size) es))") auto


text \<open>
  The walk over the events of one \<open>read\<close> of the inotify descriptor: \<open>len_at p\<close> is the field \<open>len\<close> of
  the event at offset \<open>p\<close>. The result is the offsets visited.
\<close>

definition SIZEOF_INOTIFY_EVENT :: nat where
  "SIZEOF_INOTIFY_EVENT = 16"

function inotify_walk :: "(nat \<Rightarrow> nat) \<Rightarrow> nat \<Rightarrow> nat \<Rightarrow> nat list" where
  "inotify_walk len_at numRead p =
     (if p < numRead then p # inotify_walk len_at numRead (p + (SIZEOF_INOTIFY_EVENT + len_at p)) else [])"
  by pat_completeness auto
termination
  by (relation "measure (\<lambda>(len_at, numRead, p). numRead - p)") (auto simp: SIZEOF_INOTIFY_EVENT_def)

declare inotify_walk.simps [simp del]

record disk_round =
  num_read :: int
  event_len :: "nat \<Rightarrow> nat"
  fs_tree :: "(string \<times> fs_node) list option"

text \<open>
  The offsets visited and the size printed in each round, the directory streams left open, and
  whether the thread has ended.
\<close>

fun disk_loop :: "disk_round list \<Rightarrow> nat \<Rightarrow> ((nat list \<times> int) list \<times> nat \<times> bool) option" where
  "disk_loop [] streams = Some ([], streams, False)"
| "disk_loop (r # rs) streams =
     (if num_read r = 0 \<or> num_read r = -1 then Some ([], streams, True)
      else let visited = inotify_walk (event_len r) (nat (num_read r)) 0 in
        (case get_directory_size ''./fs'' (fs_tree r) of
           None \<Rightarrow> None
         | Some (t, k) \<Rightarrow> map_option (\<lambda>(out, rest). ((visited, c_int t) # out, rest)) (disk_loop rs (streams + k))))"

definition disk_service_thread :: "int \<Rightarrow> int \<Rightarrow> disk_round list \<Rightarrow> ((nat list \<times> int) list \<times> nat \<times> bool) option" where
  "disk_service_thread inotifyFd wd rounds =
     (if inotifyFd = -1 then Some ([], 0, True) else if wd = -1 then Some ([], 0, True) else disk_loop rounds 0)"

section \<open>The real-time thread\<close>

datatype engine = Engine_exit | Engine_sleeps bool

definition engine_thread :: "int \<Rightarrow> int \<Rightarrow> int \<Rightarrow> engine" where
  "engine_thread sched_result errno affinity_result =
     (if sched_result < 0 \<and> \<not> (errno = 1 \<or> errno = 13) then Engine_exit
      else if affinity_result = -1 then Engine_exit
      else Engine_sleeps (\<not> sched_result < 0))"

section \<open>The LED watcher\<close>

text \<open>
  One attempt to connect with the results of its calls, and one return of \<open>poll\<close> with what follows.
  \<open>None\<close> for received bytes: \<open>recv\<close> failed.
\<close>

record watch_poll =
  wp_ret :: int
  wp_eintr :: bool
  wp_hup :: bool
  wp_in :: bool
  wp_recv :: "string option"
  wp_led_fd :: int

record watch_try =
  wt_socket :: int
  wt_connect :: int
  wt_send :: int
  wt_reply :: "string option"
  wt_polls :: "watch_poll list"

datatype watch_ev = W_sleep nat | W_socket int | W_connect int string | W_send int string | W_close int | W_led string

datatype watch_end = Watch_retry | Watch_left | Watch_more

definition WATCH_BUF :: nat where
  "WATCH_BUF = 64"

text \<open>The text written to the LED device for what the buffer holds, and the buffer after it.\<close>

definition led_text :: "cbuffer \<Rightarrow> (string \<times> cbuffer) option" where
  "led_text buf =
     (let s = cstr buf in
      if strncmp_eq s ''sta_join'' 8 \<or> strncmp_eq s ''sta_leave'' 9 \<or> strncmp_eq s ''traffic'' 7
      then let buf' = (case strchr s newline of Some i \<Rightarrow> buf[i := NUL] | None \<Rightarrow> buf)
           in Some (cstr buf', buf')
      else None)"

fun watch_polls :: "watch_poll list \<Rightarrow> cbuffer \<Rightarrow> (watch_ev list \<times> watch_end \<times> cbuffer) option" where
  "watch_polls [] buf = Some ([], Watch_more, buf)"
| "watch_polls (p # ps) buf =
     (if wp_ret p < 0
      then if wp_eintr p then watch_polls ps buf else Some ([], Watch_left, buf)
      else if wp_ret p = 0 then watch_polls ps buf
      else if wp_hup p then Some ([], Watch_retry, buf)
      else if wp_in p
      then (case wp_recv p of
              None \<Rightarrow> Some ([], Watch_retry, buf)
            | Some d \<Rightarrow>
                if d = [] then Some ([], Watch_retry, buf)
                else if length d > WATCH_BUF - 1 then None
                else let buf1 = d @ [NUL] @ drop (Suc (length d)) buf in
                  (case led_text buf1 of
                     None \<Rightarrow> watch_polls ps buf1
                   | Some (t, buf2) \<Rightarrow>
                       map_option (\<lambda>(ev, e, b). ((if wp_led_fd p \<ge> 0 then [W_led t] else []) @ ev, e, b))
                         (watch_polls ps buf2)))
      else watch_polls ps buf)"

text \<open>One attempt, from the call of \<open>socket\<close> on.\<close>

definition watch_attempt :: "watch_try \<Rightarrow> cbuffer \<Rightarrow> (watch_ev list \<times> watch_end \<times> cbuffer) option" where
  "watch_attempt t buf =
     (let fd = wt_socket t in
      if fd < 0 then Some ([], Watch_retry, buf)
      else let e1 = [W_socket fd, W_connect fd ''/tmp/wlinkd.sock''] in
        if wt_connect t < 0 then Some (e1, Watch_retry, buf)
        else let e2 = e1 @ [W_send fd (''SUBSCRIBE'' @ [newline])] in
          if wt_send t < 0 then Some (e2, Watch_retry, buf)
          else (case wt_reply t of
                  None \<Rightarrow> Some (e2, Watch_retry, buf)
                | Some d \<Rightarrow>
                    if length d > WATCH_BUF - 1 then None
                    else let buf1 = d @ drop (length d) buf in
                      if d = [] \<or> take 2 buf1 \<noteq> ''OK'' then Some (e2, Watch_retry, buf1)
                      else map_option (\<lambda>(ev, r). (e2 @ ev, r)) (watch_polls (wt_polls t) buf1)))"

text \<open>From the label \<open>retry\<close> on: the events, the socket, and whether the thread has ended.\<close>

fun led_watcher_thread :: "watch_try list \<Rightarrow> int \<Rightarrow> cbuffer \<Rightarrow> (watch_ev list \<times> int \<times> bool) option" where
  "led_watcher_thread [] sock_fd buf = Some ([], sock_fd, False)"
| "led_watcher_thread (t # ts) sock_fd buf =
     (let e0 = (if sock_fd \<ge> 0 then [W_close sock_fd, W_sleep 2] else []) in
      (case watch_attempt t buf of
         None \<Rightarrow> None
       | Some (ev, Watch_retry, b) \<Rightarrow>
           map_option (\<lambda>(ev', r). (e0 @ ev @ ev', r)) (led_watcher_thread ts (wt_socket t) b)
       | Some (ev, Watch_left, b) \<Rightarrow> Some (e0 @ ev @ [W_close (wt_socket t)], wt_socket t, True)
       | Some (ev, Watch_more, b) \<Rightarrow> Some (e0 @ ev, wt_socket t, False)))"

section \<open>The button watcher\<close>

definition wps_signal_handler :: "bool \<Rightarrow> bool" where
  "wps_signal_handler g_wps_requested = True"

definition hostapd_path :: string where
  "hostapd_path = ''/usr/sbin/hostapd_cli''"

definition hostapd_argv :: "string list" where
  "hostapd_argv = [''hostapd_cli'', ''-i'', ''wlan0'', ''wps_pbc'']"

text \<open>How the child goes on: it becomes another program, or it exits because \<open>execl\<close> returned.\<close>

datatype wps_program = Wps_exec string "string list" | Wps_exit int

definition wps_child :: "bool \<Rightarrow> wps_program" where
  "wps_child execl_ok = (if execl_ok then Wps_exec hostapd_path hostapd_argv else Wps_exit 1)"

text \<open>In the parent, a fork with its child, or a fork that failed; \<open>Wps_in_child\<close>: this process is the child.\<close>

datatype wps_ev = Wps_forked int wps_program | Wps_fork_failed | Wps_in_child wps_program

text \<open>
  One round per test of \<open>g_wps_requested\<close>: the number of signals since the last test, and the results
  of \<open>fork\<close> and of the child's \<open>execl\<close> should they be called. The flag is cleared before the fork.
\<close>

fun button_watcher_thread :: "(nat \<times> int \<times> bool) list \<Rightarrow> bool \<Rightarrow> wps_ev list \<times> bool" where
  "button_watcher_thread [] g_wps_requested = ([], g_wps_requested)"
| "button_watcher_thread ((presses, pid, execl_ok) # rounds) g_wps_requested =
     (if (wps_signal_handler ^^ presses) g_wps_requested
      then if pid = 0 then ([Wps_in_child (wps_child execl_ok)], False)
           else let (ev, req) = button_watcher_thread rounds False
                in ((if pid > 0 then Wps_forked pid (wps_child execl_ok) else Wps_fork_failed) # ev, req)
      else button_watcher_thread rounds False)"

section \<open>The main loop and start-up\<close>

datatype loop_pc = Loop_test | Loop_blocked | Loop_out

record system_loop =
  system_loop_exit :: bool
  loop_pc :: loop_pc

definition system_loop_start :: system_loop where
  "system_loop_start = \<lparr>system_loop_exit = False, loop_pc = Loop_test\<rparr>"

text \<open>Each under \<open>system_loop_mutex\<close>; waiting gives the mutex up in the same step.\<close>

definition signal_exit :: "system_loop \<Rightarrow> system_loop" where
  "signal_exit s = s\<lparr>system_loop_exit := True, loop_pc := (if loop_pc s = Loop_blocked then Loop_test else loop_pc s)\<rparr>"

definition loop_thread :: "system_loop \<Rightarrow> system_loop" where
  "loop_thread s =
     (case loop_pc s of
        Loop_test \<Rightarrow> s\<lparr>loop_pc := (if system_loop_exit s then Loop_out else Loop_blocked)\<rparr>
      | _ \<Rightarrow> s)"

inductive loop_step :: "system_loop \<Rightarrow> system_loop \<Rightarrow> bool" where
  signal: "loop_step s (signal_exit s)"
| server: "loop_step s (loop_thread s)"
| spurious: "loop_pc s = Loop_blocked \<Longrightarrow> loop_step s (s\<lparr>loop_pc := Loop_test\<rparr>)"

definition BUTTON_SIGNR :: nat where
  "BUTTON_SIGNR = 10"

definition server_threads :: "string list" where
  "server_threads = [''watchdog thread'', ''monitor thread'', ''disk service thread'', ''timer thread'',
     ''engine thread'', ''led watcher'', ''button watcher'']"

record server_os =
  btn_fd :: int
  mq_fds :: "string \<Rightarrow> int"
  pthread_result :: "string \<Rightarrow> int"

datatype server_ev = Handle_signal nat | Read_button nat | Opened string | Started string

text \<open>
  Up to the wait on the condition variable; \<open>False\<close>: an assertion failed before it.
\<close>

fun start_threads :: "server_os \<Rightarrow> string list \<Rightarrow> server_ev list \<times> bool" where
  "start_threads os [] = ([], True)"
| "start_threads os (t # ts) =
     (if pthread_result os t \<noteq> 0 then ([], False)
      else let (ev, ok) = start_threads os ts in (Started t # ev, ok))"

fun open_queues :: "server_os \<Rightarrow> string list \<Rightarrow> server_ev list \<times> bool" where
  "open_queues os [] = ([], True)"
| "open_queues os (q # qs) =
     (if mq_fds os q = -1 then ([], False)
      else let (ev, ok) = open_queues os qs in (Opened q # ev, ok))"

definition system_server :: "server_os \<Rightarrow> server_ev list \<times> bool" where
  "system_server os =
     (let e0 = [Handle_signal BUTTON_SIGNR] @ (if btn_fd os \<ge> 0 then [Read_button 4] else []);
          (e1, ok1) = open_queues os [''/watchdog_queue'', ''/monitor_queue'', ''/disk_queue'']
      in if \<not> ok1 then (e0 @ e1, False)
         else let (e2, ok2) = start_threads os server_threads in (e0 @ e1 @ e2, ok2))"

text \<open>In the parent; the child (a fork that gives 0) runs \<open>system_server\<close> and stays there.\<close>

definition create_system_server :: "int \<Rightarrow> int option" where
  "create_system_server systemPid = (if systemPid = 0 then None else Some 0)"

section \<open>Lemmas\<close>

lemma sleep_time_exact:
  "unat (tv_sec (sleep_time ms)) * 10 ^ 9 + unat (tv_nsec (sleep_time ms)) = unat ms * 10 ^ 6"
  "unat (tv_nsec (sleep_time ms)) < 10 ^ 9"
proof -
  let ?r = "unat ms mod 1000"
  have r: "?r < 1000" by simp
  then have "?r * 1000000 < 2 ^ 32" by simp
  then have n: "unat (tv_nsec (sleep_time ms)) = ?r * 1000000"
    by (simp add: sleep_time_def MILLISEC_PER_SECOND_def NANOSEC_PER_USEC_def USEC_PER_MILLISEC_def
        unat_word_ariths unat_mod)
  have s: "unat (tv_sec (sleep_time ms)) = unat ms div 1000"
    by (simp add: sleep_time_def MILLISEC_PER_SECOND_def unat_div)
  show "unat (tv_nsec (sleep_time ms)) < 10 ^ 9" using r by (simp add: n)
  have "unat ms div 1000 * 1000 + ?r = unat ms" by (rule div_mult_mod_eq)
  then have "unat ms div 1000 * 1000000000 + ?r * 1000000 = unat ms * 1000000" by linarith
  then show "unat (tv_sec (sleep_time ms)) * 10 ^ 9 + unat (tv_nsec (sleep_time ms)) = unat ms * 10 ^ 6"
    unfolding n s by simp
qed

lemma inotify_walk_whole:
  assumes "\<And>i. i < length lens \<Longrightarrow> len_at (p + sum_list (map (\<lambda>l. 16 + l) (take i lens))) = lens ! i"
  shows "inotify_walk len_at (p + sum_list (map (\<lambda>l. 16 + l) lens)) p =
    map (\<lambda>i. p + sum_list (map (\<lambda>l. 16 + l) (take i lens))) [0..<length lens]"
  using assms
proof (induction lens arbitrary: p)
  case Nil
  then show ?case by (simp add: inotify_walk.simps)
next
  case (Cons l ls)
  have l: "len_at p = l" using Cons.prems [of 0] by simp
  have "len_at (p + (16 + l) + sum_list (map (\<lambda>l. 16 + l) (take i ls))) = ls ! i" if "i < length ls" for i
    using Cons.prems [of "Suc i"] that by (simp add: add.assoc)
  note IH = Cons.IH [OF this]
  have "map (\<lambda>i. p + (16 + l) + sum_list (map (\<lambda>l. 16 + l) (take i ls))) [0..<length ls] =
      map (\<lambda>i. p + sum_list (map (\<lambda>l. 16 + l) (take i (l # ls)))) (map Suc [0..<length ls])"
    by (simp add: add.assoc)
  with IH show ?case
    by (subst inotify_walk.simps)
       (simp add: SIZEOF_INOTIFY_EVENT_def l add.assoc upt_conv_Cons map_Suc_upt [symmetric] del: map_map upt_Suc)
qed


subsection \<open>Directory sizes\<close>

text \<open>
  What the disk service means to compute: the sizes of all files and directories below, and the
  longest path below, both without the entries \<open>.\<close> and \<open>..\<close>.
\<close>

definition dot_entry :: "string \<Rightarrow> bool" where
  "dot_entry n \<longleftrightarrow> n = ''.'' \<or> n = ''..''"

definition sum_entries :: "(string \<times> int) list \<Rightarrow> int" where
  "sum_entries es = sum_list (map snd (filter (\<lambda>(n, _). \<not> dot_entry n) es))"

definition longest_entry :: "(string \<times> nat) list \<Rightarrow> nat" where
  "longest_entry es = foldr max (map (\<lambda>(n, k). 1 + length n + k) (filter (\<lambda>(n, _). \<not> dot_entry n) es)) 0"

primrec node_total :: "fs_node \<Rightarrow> int" where
  "node_total Gone = 0"
| "node_total (File sz) = sz"
| "node_total (Dir sz es) =
     sz + (case map_option (map (map_prod id node_total)) es of None \<Rightarrow> 0 | Some l \<Rightarrow> sum_entries l)"

primrec node_path :: "fs_node \<Rightarrow> nat" where
  "node_path Gone = 0"
| "node_path (File sz) = 0"
| "node_path (Dir sz es) =
     (case map_option (map (map_prod id node_path)) es of None \<Rightarrow> 0 | Some l \<Rightarrow> longest_entry l)"

definition count_entries :: "(string \<times> nat) list \<Rightarrow> nat" where
  "count_entries es = sum_list (map snd (filter (\<lambda>(n, _). \<not> dot_entry n) es))"

text \<open>The directories of a tree that can be opened.\<close>

primrec node_dirs :: "fs_node \<Rightarrow> nat" where
  "node_dirs Gone = 0"
| "node_dirs (File sz) = 0"
| "node_dirs (Dir sz es) =
     (case map_option (map (map_prod id node_dirs)) es of None \<Rightarrow> 0 | Some l \<Rightarrow> Suc (count_entries l))"

definition entries_dirs :: "(string \<times> fs_node) list \<Rightarrow> nat" where
  "entries_dirs l = count_entries (map (\<lambda>(n, x). (n, node_dirs x)) l)"

definition dir_count :: "(string \<times> fs_node) list option \<Rightarrow> nat" where
  "dir_count es = (case es of None \<Rightarrow> 0 | Some l \<Rightarrow> Suc (entries_dirs l))"

definition entries_total :: "(string \<times> fs_node) list \<Rightarrow> int" where
  "entries_total l = sum_entries (map (\<lambda>(n, x). (n, node_total x)) l)"

definition entries_longest :: "(string \<times> fs_node) list \<Rightarrow> nat" where
  "entries_longest l = longest_entry (map (\<lambda>(n, x). (n, node_path x)) l)"

definition dir_total :: "(string \<times> fs_node) list option \<Rightarrow> int" where
  "dir_total es = (case es of None \<Rightarrow> 0 | Some l \<Rightarrow> entries_total l)"

definition dir_longest :: "(string \<times> fs_node) list option \<Rightarrow> nat" where
  "dir_longest es = (case es of None \<Rightarrow> 0 | Some l \<Rightarrow> entries_longest l)"

lemma map_snd_only: "map_prod id f = (\<lambda>(n, x). (n, f x))"
  by (auto simp: fun_eq_iff)

lemma node_dir: "node_total (Dir sz es) = sz + dir_total es" "node_path (Dir sz es) = dir_longest es" "node_dirs (Dir sz es) = dir_count es"
  by (simp_all add: dir_total_def dir_longest_def dir_count_def entries_total_def entries_longest_def entries_dirs_def
      map_snd_only split: option.splits)

lemma entries_dirs_Cons [simp]:
  "entries_dirs [] = 0"
  "entries_dirs ((n, x) # es) = (if dot_entry n then 0 else node_dirs x) + entries_dirs es"
  by (simp_all add: entries_dirs_def count_entries_def)

lemma entries_total_Cons [simp]:
  "entries_total [] = 0"
  "entries_total ((n, x) # es) = (if dot_entry n then 0 else node_total x) + entries_total es"
  by (simp_all add: entries_total_def sum_entries_def)

lemma entries_longest_Cons [simp]:
  "entries_longest [] = 0"
  "entries_longest ((n, x) # es) = max (if dot_entry n then 0 else Suc (length n + node_path x)) (entries_longest es)"
  by (simp_all add: entries_longest_def longest_entry_def)

lemma directory_size_total:
  "length d + dir_longest es < FILE_PATH_SIZE \<Longrightarrow> get_directory_size d es = Some (dir_total es, dir_count es)"
  "length d + entries_longest l < FILE_PATH_SIZE \<Longrightarrow> size_loop d l t k = Some (t + entries_total l, k + entries_dirs l)"
proof (induction d es and d l t k rule: get_directory_size_size_loop.induct)
  case (4 dirname d_name st entries total_size streams)
  show ?case
  proof (cases "dot_entry d_name")
    case True
    with 4 show ?thesis by (simp add: dot_entry_def)
  next
    case False
    then have n: "\<not> (d_name = ''.'' \<or> d_name = ''..'')" by (simp add: dot_entry_def)
    have fits: "\<not> FILE_PATH_SIZE \<le> length dirname + 1 + length d_name"
      "length dirname + entries_longest entries < FILE_PATH_SIZE"
      "length dirname + Suc (length d_name + node_path st) < FILE_PATH_SIZE"
      using 4(6) False by auto
    show ?thesis
    proof (cases st)
      case Gone
      from 4(2) [OF n fits(1) Gone fits(2)] show ?thesis using n fits(1) Gone False by simp
    next
      case (File sz)
      from 4(3) [OF n fits(1) File fits(2)] show ?thesis using n fits(1) File False by simp
    next
      case (Dir sz sub)
      have "length (dirname @ ''/'' @ d_name) + dir_longest sub < FILE_PATH_SIZE"
        using fits(3) unfolding Dir node_dir by simp
      then have g: "get_directory_size (dirname @ ''/'' @ d_name) sub = Some (dir_total sub, dir_count sub)"
        by (rule 4(4) [OF n fits(1) Dir])
      have "size_loop dirname entries (total_size + (dir_total sub + sz)) (streams + dir_count sub) =
          Some (total_size + (dir_total sub + sz) + entries_total entries, streams + dir_count sub + entries_dirs entries)"
        by (rule 4(5) [OF n fits(1) Dir g refl fits(2)])
      then show ?thesis using n fits(1) g False unfolding Dir by (simp add: node_dir del: node_total.simps node_dirs.simps)
    qed
  qed
qed (simp_all add: dir_total_def dir_longest_def dir_count_def)

text \<open>
  A read of whole events with names of the given lengths, and a tree whose paths fit. The events
  start where the ones before them end.
\<close>

definition event_starts :: "nat list \<Rightarrow> nat list" where
  "event_starts lens = map (\<lambda>i. sum_list (map (\<lambda>l. 16 + l) (take i lens))) [0..<length lens]"

definition disk_round_ok :: "nat list \<Rightarrow> disk_round \<Rightarrow> bool" where
  "disk_round_ok lens r \<longleftrightarrow>
     lens \<noteq> [] \<and> num_read r = int (sum_list (map (\<lambda>l. 16 + l) lens)) \<and>
     (\<forall>i < length lens. event_len r (event_starts lens ! i) = lens ! i) \<and>
     4 + dir_longest (fs_tree r) < FILE_PATH_SIZE"

lemma disk_loop_rounds:
  "\<forall>(lens, r) \<in> set rounds. disk_round_ok lens r \<Longrightarrow>
   disk_loop (map snd rounds) k =
     Some (map (\<lambda>(lens, r). (event_starts lens, c_int (dir_total (fs_tree r)))) rounds,
       k + (\<Sum>(lens, r) \<leftarrow> rounds. dir_count (fs_tree r)), False)"
proof (induction rounds arbitrary: k)
  case (Cons x rounds)
  obtain lens r where x: "x = (lens, r)" by (cases x)
  with Cons.prems have r: "disk_round_ok lens r" by simp
  have n: "num_read r \<noteq> 0" "num_read r \<noteq> -1"
    using r by (cases lens; simp add: disk_round_ok_def)+
  have g: "get_directory_size ''./fs'' (fs_tree r) = Some (dir_total (fs_tree r), dir_count (fs_tree r))"
    using r by (intro directory_size_total(1)) (simp add: disk_round_ok_def)
  have w: "inotify_walk (event_len r) (nat (num_read r)) 0 = event_starts lens"
    using inotify_walk_whole [of lens "event_len r" 0] r by (simp add: disk_round_ok_def event_starts_def)
  show ?case using Cons n g w by (simp add: x add.assoc)
qed simp

subsection \<open>The timer\<close>

lemma c_int_add: "c_int (c_int x + y) = c_int (x + y)"
proof -
  have "c_int (c_int x + y) = c_int (c_int (c_int x) + c_int y)"
    unfolding c_int_def by (rule signed_take_bit_add [symmetric])
  also have "\<dots> = c_int (c_int x + c_int y)" by (simp add: c_int_def)
  also have "\<dots> = c_int (x + y)" unfolding c_int_def by (rule signed_take_bit_add)
  finally show ?thesis .
qed

definition timer_inv :: "timer_state \<Rightarrow> bool" where
  "timer_inv s \<longleftrightarrow> \<not> global_timer_stopped s \<and> timer_pc s \<noteq> Timer_done \<and>
     global_timer_sem s + of_bool (timer_pc s = Timer_sleep) \<le> alarms s \<and>
     timer s = c_int (int (alarms s) - int (global_timer_sem s) - of_bool (timer_pc s = Timer_sleep))"

lemma timer_thread_inv: "timer_inv s \<Longrightarrow> timer_thread i s = Some s' \<Longrightarrow> timer_inv s' \<and> alarms s' = alarms s"
  using c_int_add [of "int (alarms s) - int (global_timer_sem s) - 1" 1]
  by (cases "timer_pc s")
     (auto simp: timer_inv_def timer_thread_def system_timeout_handler_def of_nat_diff split: if_splits)

lemma timer_reachable_inv: "timer_step\<^sup>*\<^sup>* timer_start s \<Longrightarrow> timer_inv s"
proof (induction rule: rtranclp_induct)
  case base
  show ?case by (simp add: timer_inv_def timer_start_def c_int_def)
next
  case (step s s')
  from step(2) show ?case
  proof (cases rule: timer_step.cases)
    case alarm
    with step(3) show ?thesis by (auto simp: timer_inv_def timer_expire_signal_handler_def)
  next
    case (thread i)
    with timer_thread_inv step(3) show ?thesis by blast
  qed
qed

fun timer_drain :: "nat \<Rightarrow> timer_state \<Rightarrow> timer_state" where
  "timer_drain 0 s = s"
| "timer_drain (Suc n) s = (case timer_thread False s of None \<Rightarrow> s | Some s' \<Rightarrow> timer_drain n s')"

text \<open>Steps left until the thread waits at a semaphore with value 0.\<close>

definition timer_work :: "timer_state \<Rightarrow> nat" where
  "timer_work s = 3 * global_timer_sem s +
     (case timer_pc s of Timer_sleep \<Rightarrow> 2 | Timer_test \<Rightarrow> 1 | _ \<Rightarrow> 0)"

lemma timer_work_step:
  "timer_inv s \<Longrightarrow> timer_work s \<noteq> 0 \<Longrightarrow> \<exists>s'. timer_thread False s = Some s' \<and> Suc (timer_work s') = timer_work s"
  by (cases "timer_pc s")
     (auto simp: timer_inv_def timer_thread_def timer_work_def system_timeout_handler_def)

lemma timer_work_none:
  "timer_inv s \<Longrightarrow> timer_work s = 0 \<Longrightarrow> timer_thread False s = None \<and> timer s = c_int (int (alarms s))"
  by (cases "timer_pc s") (auto simp: timer_inv_def timer_thread_def timer_work_def)

lemma timer_drain_all:
  "timer_inv s \<Longrightarrow> timer_work s \<le> n \<Longrightarrow> timer (timer_drain n s) = c_int (int (alarms s))"
proof (induction n arbitrary: s)
  case 0
  then show ?case using timer_work_none [of s] by simp
next
  case (Suc n)
  show ?case
  proof (cases "timer_work s = 0")
    case True
    with timer_work_none [OF Suc.prems(1)] show ?thesis by simp
  next
    case False
    then obtain s' where s': "timer_thread False s = Some s'" "Suc (timer_work s') = timer_work s"
      using timer_work_step Suc.prems(1) by blast
    with timer_thread_inv [OF Suc.prems(1) s'(1)] Suc.IH [of s'] Suc.prems(2) show ?thesis by simp
  qed
qed


subsection \<open>The LED watcher\<close>

text \<open>The sockets an event list opens and closes; \<open>None\<close> when a second one is opened or another closed.\<close>

fun watch_held :: "watch_ev list \<Rightarrow> int option \<Rightarrow> int option option" where
  "watch_held [] h = Some h"
| "watch_held (W_socket fd # es) h = (if h = None then watch_held es (Some fd) else None)"
| "watch_held (W_close fd # es) h = (if h = Some fd then watch_held es None else None)"
| "watch_held (_ # es) h = watch_held es h"

lemma watch_held_append:
  "watch_held (xs @ ys) h = (case watch_held xs h of None \<Rightarrow> None | Some h' \<Rightarrow> watch_held ys h')"
  by (induction xs h rule: watch_held.induct) auto

definition held :: "int \<Rightarrow> int option" where
  "held fd = (if fd \<ge> 0 then Some fd else None)"

lemma watch_polls_held: "watch_polls ps buf = Some (ev, e, b) \<Longrightarrow> watch_held ev h = Some h"
proof (induction ps buf arbitrary: ev e b rule: watch_polls.induct)
  case (2 p ps buf)
  then show ?case
    by (fastforce simp: Let_def split: if_splits option.splits prod.splits)
qed simp

lemma watch_attempt_held:
  "watch_attempt t buf = Some (ev, e, b) \<Longrightarrow>
     watch_held ev None = Some (held (wt_socket t)) \<and> (e \<noteq> Watch_retry \<longrightarrow> wt_socket t \<ge> 0)"
  by (auto simp: watch_attempt_def Let_def held_def watch_polls_held split: if_splits option.splits)

lemma watcher_held:
  "led_watcher_thread ts fd buf = Some (ev, fd', ended) \<Longrightarrow>
     watch_held ev (held fd) = Some (if ended then None else held fd')"
proof (induction ts fd buf arbitrary: ev rule: led_watcher_thread.induct)
  case (2 t ts sock_fd buf)
  define e0 where "e0 = (if sock_fd \<ge> 0 then [W_close sock_fd, W_sleep 2] else [])"
  have h0: "watch_held e0 (held sock_fd) = Some None" by (simp add: e0_def held_def)
  obtain ev1 e b where a: "watch_attempt t buf = Some (ev1, e, b)"
    using "2.prems" by (cases "watch_attempt t buf") auto
  note h1 = watch_attempt_held [OF a]
  show ?case
  proof (cases e)
    case Watch_retry
    with a "2.prems" obtain ev2 where r: "led_watcher_thread ts (wt_socket t) b = Some (ev2, fd', ended)"
      "ev = e0 @ ev1 @ ev2"
      by (auto simp: e0_def)
    have "watch_held ev2 (held (wt_socket t)) = Some (if ended then None else held fd')"
      using "2.IH" [OF e0_def a refl] Watch_retry r(1) by simp
    then show ?thesis using h1 by (simp add: r(2) h0 watch_held_append)
  next
    case Watch_left
    with a "2.prems" have "ev = e0 @ ev1 @ [W_close (wt_socket t)]" "ended" by (auto simp: e0_def)
    moreover have "held (wt_socket t) = Some (wt_socket t)" using h1 Watch_left by (simp add: held_def)
    ultimately show ?thesis using h1 by (simp add: h0 watch_held_append)
  next
    case Watch_more
    with a "2.prems" have "ev = e0 @ ev1" "fd' = wt_socket t" "\<not> ended" by (auto simp: e0_def)
    then show ?thesis using h1 by (simp add: h0 watch_held_append)
  qed
qed simp


text \<open>What the watcher relies on: \<open>recv\<close> returns at most the room it was given.\<close>

definition recv_fits :: "watch_try \<Rightarrow> bool" where
  "recv_fits t \<longleftrightarrow> (case wt_reply t of None \<Rightarrow> True | Some d \<Rightarrow> length d \<le> 63) \<and>
     list_all (\<lambda>p. case wp_recv p of None \<Rightarrow> True | Some d \<Rightarrow> length d \<le> 63) (wt_polls t)"

lemma watch_polls_total:
  "list_all (\<lambda>p. case wp_recv p of None \<Rightarrow> True | Some d \<Rightarrow> length d \<le> 63) ps \<Longrightarrow> watch_polls ps buf \<noteq> None"
proof (induction ps arbitrary: buf)
  case (Cons p ps)
  then have "watch_polls ps b \<noteq> None" for b by simp
  then show ?case
    using Cons.prems by (auto simp: Let_def WATCH_BUF_def split: option.splits) blast
qed simp

lemma watcher_total: "list_all recv_fits ts \<Longrightarrow> led_watcher_thread ts fd buf \<noteq> None"
proof (induction ts arbitrary: fd buf)
  case (Cons t ts)
  then have "led_watcher_thread ts f b \<noteq> None" for f b by simp
  moreover have "watch_attempt t buf \<noteq> None"
    using Cons.prems watch_polls_total [of "wt_polls t"]
    by (auto simp: watch_attempt_def Let_def recv_fits_def WATCH_BUF_def split: option.splits) blast
  ultimately show ?case
    by (auto simp: Let_def split: option.splits watch_end.splits) blast
qed simp

lemma strchr_first: "c \<notin> set w \<Longrightarrow> strchr (w @ c # r) c = Some (length w)"
  by (induction w) auto

definition led_word :: "string \<Rightarrow> bool" where
  "led_word w \<longleftrightarrow> nul_free w \<and> newline \<notin> set w \<and>
     (take 8 w = ''sta_join'' \<or> take 9 w = ''sta_leave'' \<or> take 7 w = ''traffic'')"

lemma led_word_line:
  assumes "led_word w" "nul_free rest"
  shows "\<exists>b. led_text (w @ newline # rest @ NUL # x) = Some (w, b)"
proof -
  have n: "nul_free w" "newline \<notin> set w" using assms by (auto simp: led_word_def)
  have s: "cstr (w @ newline # rest @ NUL # x) = w @ newline # rest"
    using cstr_append_nul [of "w @ newline # rest" x] n assms by simp
  have p: "take k w = u \<Longrightarrow> length u = k \<Longrightarrow> strncmp_eq (w @ newline # rest) u k" for u k
    by (auto simp: strncmp_eq_def min_def split: if_splits)
  have m: "strncmp_eq (w @ newline # rest) ''sta_join'' 8 \<or> strncmp_eq (w @ newline # rest) ''sta_leave'' 9 \<or>
      strncmp_eq (w @ newline # rest) ''traffic'' 7"
    using assms(1) p [of 8 "''sta_join''"] p [of 9 "''sta_leave''"] p [of 7 "''traffic''"]
    by (auto simp: led_word_def)
  have "cstr ((w @ newline # rest @ NUL # x)[length w := NUL]) = w"
    using n by (simp add: list_update_append cstr_append_nul)
  with m show ?thesis
    using strchr_first [OF n(2), of rest] by (simp add: led_text_def s Let_def)
qed

text \<open>One return of \<open>poll\<close> with data.\<close>

definition poll_data :: "int \<Rightarrow> string \<Rightarrow> watch_poll" where
  "poll_data led d = \<lparr>wp_ret = 1, wp_eintr = False, wp_hup = False, wp_in = True, wp_recv = Some d, wp_led_fd = led\<rparr>"

lemma watch_polls_lines:
  assumes "list_all (\<lambda>(w, rest). led_word w \<and> nul_free rest \<and> length w + length rest \<le> 62) ds" "0 \<le> led"
  shows "\<exists>b. watch_polls (map (\<lambda>(w, rest). poll_data led (w @ newline # rest)) ds) buf =
    Some (map (\<lambda>(w, rest). W_led w) ds, Watch_more, b)"
  using assms
proof (induction ds arbitrary: buf)
  case (Cons d ds)
  obtain w rest where d: "d = (w, rest)" by (cases d)
  let ?x = "drop (Suc (length (w @ newline # rest))) buf"
  obtain b where b: "led_text (w @ newline # rest @ NUL # ?x) = Some (w, b)"
    using led_word_line [of w rest] Cons.prems d by auto
  obtain c where "watch_polls (map (\<lambda>(w, rest). poll_data led (w @ newline # rest)) ds) b =
      Some (map (\<lambda>(w, rest). W_led w) ds, Watch_more, c)"
    using Cons by fastforce
  with b Cons.prems d show ?case by (simp add: poll_data_def WATCH_BUF_def Let_def)
qed simp

lemma button_rounds:
  assumes "\<forall>(presses, pid, ok) \<in> set rounds. pid \<noteq> 0"
  shows "button_watcher_thread rounds False =
    (map (\<lambda>(presses, pid, ok). if pid > 0 then Wps_forked pid (wps_child ok) else Wps_fork_failed)
       (filter (\<lambda>(presses, pid, ok). 0 < presses) rounds), False)"
proof -
  have req: "(wps_signal_handler ^^ n) False \<longleftrightarrow> 0 < n" for n
    by (cases n) (simp_all add: wps_signal_handler_def)
  show ?thesis using assms by (induction rounds) (auto simp: req)
qed

subsection \<open>Start-up and the main loop\<close>

lemma start_threads_all:
  "start_threads os ts = (map Started (takeWhile (\<lambda>t. pthread_result os t = 0) ts), list_all (\<lambda>t. pthread_result os t = 0) ts)"
  by (induction ts) auto

lemma open_queues_all:
  "open_queues os qs = (map Opened (takeWhile (\<lambda>q. mq_fds os q \<noteq> -1) qs), list_all (\<lambda>q. mq_fds os q \<noteq> -1) qs)"
  by (induction qs) auto

definition loop_inv :: "system_loop \<Rightarrow> bool" where
  "loop_inv s \<longleftrightarrow> (loop_pc s = Loop_blocked \<longrightarrow> \<not> system_loop_exit s) \<and> (loop_pc s = Loop_out \<longrightarrow> system_loop_exit s)"

lemma loop_step_inv: "loop_step s s' \<Longrightarrow> loop_inv s \<Longrightarrow> loop_inv s' \<and> (system_loop_exit s \<longrightarrow> system_loop_exit s')"
  by (induction rule: loop_step.induct)
     (auto simp: loop_inv_def signal_exit_def loop_thread_def split: loop_pc.splits)

lemma loop_reachable_inv: "loop_step\<^sup>*\<^sup>* system_loop_start s \<Longrightarrow> loop_inv s"
  by (induction rule: rtranclp_induct) (auto simp: loop_inv_def system_loop_start_def dest: loop_step_inv)

section \<open>Properties\<close>

text \<open>
  \<open>posix_sleep_ms\<close> asks for exactly the milliseconds it is given, for all 32-bit values, with a
  nanosecond part that \<open>nanosleep\<close> accepts: no product wraps.
\<close>

lemma sleep_ms_exact:
  "\<exists>ts. posix_sleep_ms nanosleep ms = nanosleep ts \<and> unat (tv_nsec ts) < 10 ^ 9 \<and>
     unat (tv_sec ts) * 10 ^ 9 + unat (tv_nsec ts) = unat ms * 10 ^ 6"
  using sleep_time_exact [of ms] by (auto simp: posix_sleep_ms_def)

text \<open>
  C21. In every interleaving of alarm signals and the timer thread the counter is the number of
  alarms handled, less the posts still in the semaphore and the one the thread sleeps on, as a
  32-bit integer. No alarm is lost to an interrupted wait: left alone the thread catches up with all
  of them.
\<close>

theorem timer_counts_alarms:
  assumes "timer_step\<^sup>*\<^sup>* timer_start s"
  shows "timer s = c_int (int (alarms s) - int (global_timer_sem s) - of_bool (timer_pc s = Timer_sleep)) \<and>
    timer (timer_drain (3 * global_timer_sem s + 2) s) = c_int (int (alarms s))"
proof -
  have inv: "timer_inv s" using assms by (rule timer_reachable_inv)
  have "timer_work s \<le> 3 * global_timer_sem s + 2"
    by (simp add: timer_work_def split: timer_pc.splits)
  then have "timer (timer_drain (3 * global_timer_sem s + 2) s) = c_int (int (alarms s))"
    by (rule timer_drain_all [OF inv])
  with inv show ?thesis unfolding timer_inv_def by blast
qed

theorem timer_counts_alarms_witness:
  "timer (timer_drain 8 (timer_expire_signal_handler (timer_expire_signal_handler timer_start))) = 2"
proof -
  let ?s = "timer_expire_signal_handler (timer_expire_signal_handler timer_start)"
  have "timer_step\<^sup>*\<^sup>* timer_start ?s"
    by (meson converse_rtranclp_into_rtranclp rtranclp.rtrancl_refl timer_step.alarm)
  from timer_counts_alarms [OF this] show ?thesis
    by (simp add: timer_start_def timer_expire_signal_handler_def c_int_def)
qed

text \<open>
  C25. For every sequence of reads of the inotify descriptor and every directory tree whose paths fit
  the path buffer, the size the disk service prints after each read is the sum of the sizes of
  everything below the directory at that time, as a 32-bit integer, and before that the walk has
  visited the start of each event of the read and nothing else. Each report leaves open one directory
  stream for every directory it could read.
\<close>

theorem disk_service_reports:
  assumes "\<forall>(lens, r) \<in> set rounds. disk_round_ok lens r" "inotifyFd \<noteq> -1" "wd \<noteq> -1"
  shows "disk_service_thread inotifyFd wd (map snd rounds) =
    Some (map (\<lambda>(lens, r). (event_starts lens, c_int (dir_total (fs_tree r)))) rounds,
      (\<Sum>(lens, r) \<leftarrow> rounds. dir_count (fs_tree r)), False)"
  using disk_loop_rounds [OF assms(1), of 0] assms(2,3) by (simp add: disk_service_thread_def)

definition sample_tree :: "(string \<times> fs_node) list option" where
  "sample_tree = Some [(''.'', Dir 4096 None), (''a'', File 10),
     (''b'', Dir 4096 (Some [(''..'', Dir 4096 None), (''c'', File 7), (''d'', Gone)]))]"

theorem disk_service_reports_witness:
  "disk_service_thread 3 1 [\<lparr>num_read = 48, event_len = (\<lambda>p. if p = 0 then 16 else 0), fs_tree = sample_tree\<rparr>,
      \<lparr>num_read = 16, event_len = (\<lambda>_. 0), fs_tree = None\<rparr>] =
     Some ([([0, 32], 4113), ([0], 0)], 2, False)"
proof -
  let ?r = "\<lparr>num_read = 48, event_len = (\<lambda>p. if p = 0 then 16 else 0), fs_tree = sample_tree\<rparr>"
  let ?q = "\<lparr>num_read = 16, event_len = (\<lambda>_. 0), fs_tree = None\<rparr>"
  have t: "dir_total sample_tree = 4113" "dir_longest sample_tree = 4" "dir_count sample_tree = 2" by code_simp+
  have n: "dir_total None = 0" "dir_longest None = 0" "dir_count None = 0" by code_simp+
  have "disk_round_ok [16, 0] ?r" "disk_round_ok [0] ?q"
    by (auto simp: disk_round_ok_def event_starts_def t n FILE_PATH_SIZE_def less_Suc_eq numeral_2_eq_2)
  then show ?thesis
    using disk_service_reports [of "[([16, 0], ?r), ([0], ?q)]" 3 1]
    by (simp add: t n c_int_def event_starts_def upt_conv_Cons)
qed

text \<open>
  C19. Whatever the socket calls return, the LED watcher has at most one socket open: it closes the
  old one before it opens the next, leaks none and closes none twice, and its buffers are not
  overrun as long as \<open>recv\<close> keeps to the room it is given.
\<close>

theorem led_watcher_one_socket:
  assumes "list_all recv_fits ts"
  shows "\<exists>ev fd ended. led_watcher_thread ts (-1) buf = Some (ev, fd, ended) \<and>
    watch_held ev None = Some (if ended then None else held fd)"
proof -
  obtain r where r: "led_watcher_thread ts (-1) buf = Some r" using watcher_total [OF assms] by fastforce
  obtain ev fd ended where "r = (ev, fd, ended)" by (cases r)
  with r watcher_held [of ts "-1" buf ev fd ended] show ?thesis by (simp add: held_def)
qed

definition sample_try :: watch_try where
  "sample_try = \<lparr>wt_socket = 5, wt_connect = 0, wt_send = 10, wt_reply = Some (''OK'' @ [newline]),
     wt_polls = [poll_data 7 (''sta_join'' @ [newline] @ ''sta_leave'' @ [newline])]\<rparr>"

theorem led_watcher_one_socket_witness:
  "\<exists>ev fd ended. led_watcher_thread [sample_try\<lparr>wt_connect := -1\<rparr>, sample_try] (-1) [] = Some (ev, fd, ended) \<and>
     watch_held ev None = Some (if ended then None else held fd)"
proof -
  have "list_all recv_fits [sample_try\<lparr>wt_connect := -1\<rparr>, sample_try]"
    by (simp add: recv_fits_def sample_try_def poll_data_def)
  from led_watcher_one_socket [OF this] show ?thesis by blast
qed

text \<open>
  C20. For each read that begins with a complete message line the watcher writes exactly that line,
  without its newline, to the LED device, in order. What the same read holds after the first line is
  not passed on: messages that arrive together are lost but for the first.
\<close>

theorem led_watcher_first_line:
  assumes "list_all (\<lambda>(w, rest). led_word w \<and> nul_free rest \<and> length w + length rest \<le> 62) ds" "0 \<le> led"
    and "0 \<le> wt_socket t" "0 \<le> wt_connect t" "0 \<le> wt_send t" "wt_reply t = Some (''OK'' @ [newline])"
    and "wt_polls t = map (\<lambda>(w, rest). poll_data led (w @ newline # rest)) ds"
  shows "\<exists>ev. led_watcher_thread [t] (-1) buf = Some (ev, wt_socket t, False) \<and>
    filter (\<lambda>e. case e of W_led _ \<Rightarrow> True | _ \<Rightarrow> False) ev = map (\<lambda>(w, rest). W_led w) ds"
proof -
  obtain b where b: "watch_polls (wt_polls t) (''OK'' @ [newline] @ drop (Suc (Suc (Suc 0))) buf) =
      Some (map (\<lambda>(w, rest). W_led w) ds, Watch_more, b)"
    using watch_polls_lines [OF assms(1,2)] assms(7) by metis
  have "filter (\<lambda>e. case e of W_led _ \<Rightarrow> True | _ \<Rightarrow> False) (map (\<lambda>(w, rest). W_led w) ds) =
      map (\<lambda>(w, rest). W_led w) ds"
    by (simp add: filter_id_conv case_prod_beta)
  with b assms(3-6) show ?thesis by (simp add: watch_attempt_def Let_def WATCH_BUF_def)
qed

theorem led_watcher_first_line_witness:
  "\<exists>ev. led_watcher_thread [sample_try] (-1) [] = Some (ev, 5, False) \<and>
     filter (\<lambda>e. case e of W_led _ \<Rightarrow> True | _ \<Rightarrow> False) ev = [W_led ''sta_join'']"
  using led_watcher_first_line [of "[(''sta_join'', ''sta_leave'' @ [newline])]" 7 sample_try "[]"]
  by (simp add: sample_try_def led_word_def)

text \<open>
  The watcher forks once per round in which at least one signal had arrived, however many, and never
  without one; no request is left over, and one whose fork fails is lost.
\<close>

lemma button_runs_once_example:
  "button_watcher_thread [(0, 41, True), (3, 42, True), (1, -1, True)] False =
     ([Wps_forked 42 (Wps_exec hostapd_path hostapd_argv), Wps_fork_failed], False)"
  using button_rounds [of "[(0, 41, True), (3, 42, True), (1, -1, True)]"] by (simp add: wps_child_def)

text \<open>
  The system server waits at its condition variable until it is told to exit, and the request is
  never lost, also when it comes before the wait: in no reachable state does the server block while
  the request stands, it leaves the wait only after a request, and after one its next step takes it
  out.
\<close>

lemma exit_signal_not_lost:
  assumes "loop_step\<^sup>*\<^sup>* system_loop_start s"
  shows "(loop_pc s = Loop_blocked \<longrightarrow> \<not> system_loop_exit s) \<and> (loop_pc s = Loop_out \<longrightarrow> system_loop_exit s) \<and>
    loop_pc (loop_thread (signal_exit s)) = Loop_out"
  using loop_reachable_inv [OF assms]
  by (auto simp: loop_inv_def loop_thread_def signal_exit_def split: loop_pc.splits)

lemma exit_signal_not_lost_example:
  "loop_pc (loop_thread (signal_exit (loop_thread system_loop_start))) = Loop_out"
proof -
  have "loop_step\<^sup>*\<^sup>* system_loop_start (loop_thread system_loop_start)"
    by (blast intro: loop_step.server)
  from exit_signal_not_lost [OF this] show ?thesis by simp
qed

end
