(* ===== verification/Lab_Float.thy ===== *)
theory Lab_Float
  imports Complex_Main Lab_Prelude "HOL-Library.Log_Nat"
begin

text \<open>
  The two conversions of the C library the shell applies to a temperature: \<open>sscanf\<close> with \<open>%f\<close> into a
  \<open>float\<close> and \<open>printf\<close> with \<open>%.2f\<close>. A \<open>float\<close> is the rational number a 32-bit binary floating-point number
  stands for: 24 significant bits, rounding to the nearest, ties to even.
\<close>

section \<open>Rounding\<close>

definition round_even :: "rat \<Rightarrow> int" where
  "round_even x =
     (let f = \<lfloor>x\<rfloor>; d = x - of_int f in
      if d < 1 / 2 then f else if 1 / 2 < d then f + 1 else if even f then f else f + 1)"

text \<open>The exponent of the leading binary digit of a positive number.\<close>

definition lead_exponent :: "rat \<Rightarrow> int" where
  "lead_exponent x =
     (if 1 \<le> x then int (floorlog 2 (nat \<lfloor>x\<rfloor>)) - 1 else - int (floorlog 2 (nat (\<lceil>1 / x\<rceil> - 1))))"

definition to_float :: "rat \<Rightarrow> rat" where
  "to_float x =
     (if x = 0 then 0
      else let e = max (lead_exponent x - 23) (- 149)
           in of_int (round_even (x / 2 powi e)) * 2 powi e)"

section \<open>Reading and printing\<close>

text \<open>
  A decimal number without an exponent, as \<open>%f\<close> reads it: its sign, and its value. \<open>None\<close>: no
  number, or a text with an exponent, a hexadecimal number, an infinity or a NaN.
\<close>

definition scan_decimal :: "string \<Rightarrow> (bool \<times> rat) option" where
  "scan_decimal s =
     (let (neg, r) = split_sign (dropWhile is_space s);
          whole = takeWhile is_digit r;
          r1 = drop (length whole) r;
          frac = (if r1 \<noteq> [] \<and> hd r1 = CHR ''.'' then takeWhile is_digit (tl r1) else []);
          r2 = (if r1 \<noteq> [] \<and> hd r1 = CHR ''.'' then drop (length frac) (tl r1) else r1)
      in if whole = [] \<and> frac = [] \<or> (r2 \<noteq> [] \<and> hd r2 \<in> set ''eExX'') then None
         else Some (neg, of_nat (digits_val 0 whole) + of_nat (digits_val 0 frac) / 10 ^ length frac))"

definition print_fixed2 :: "bool \<Rightarrow> rat \<Rightarrow> string" where
  "print_fixed2 neg v =
     (let sign = (if neg then ''-'' else []) in
      if 2 ^ 128 \<le> v then sign @ ''inf''
      else let h = nat (round_even (100 * v))
           in sign @ dec_nat (h div 100) @ ''.'' @ dec02 (int (h mod 100)))"

text \<open>What is printed for the decimal texts; the other texts are left to the argument.\<close>

definition float_text :: "(string \<Rightarrow> string option) \<Rightarrow> string \<Rightarrow> string option" where
  "float_text other s =
     (case scan_decimal s of
        Some (neg, x) \<Rightarrow> Some (print_fixed2 neg (to_float x))
      | None \<Rightarrow> other s)"

section \<open>Accuracy\<close>

lemma round_even_near: "\<bar>of_int (round_even x) - x\<bar> \<le> 1 / 2"
proof -
  have f: "of_int \<lfloor>x\<rfloor> \<le> x" "x < of_int \<lfloor>x\<rfloor> + 1" by linarith+
  show ?thesis using f by (auto simp: round_even_def Let_def abs_le_iff)
qed

lemma round_even_unique: "\<bar>x - of_int n\<bar> < 1 / 2 \<Longrightarrow> round_even x = n"
proof -
  assume a: "\<bar>x - of_int n\<bar> < 1 / 2"
  have "\<bar>of_int (round_even x) - of_int n :: rat\<bar> < 1" using round_even_near [of x] a by linarith
  then have "\<bar>round_even x - n\<bar> < 1" by (metis of_int_abs of_int_diff of_int_less_1_iff)
  then show ?thesis by simp
qed

lemma lead_exponent_le: "0 < x \<Longrightarrow> 2 powi lead_exponent x \<le> x"
proof (cases "1 \<le> x")
  case True
  then have p: "0 < nat \<lfloor>x\<rfloor>" by linarith
  let ?n = "floorlog 2 (nat \<lfloor>x\<rfloor>)"
  have "0 < ?n" using p by (simp add: floorlog_def)
  then have "(2 :: rat) powi (int ?n - 1) = 2 ^ (?n - 1)" by (simp add: power_int_def nat_diff_distrib)
  also have "\<dots> = of_nat (2 ^ (?n - 1))" by simp
  also have "\<dots> \<le> of_nat (nat \<lfloor>x\<rfloor>)" using floorlog_bounds [OF p, of 2] by (intro of_nat_mono) simp
  also have "\<dots> \<le> x" using True by linarith
  finally show ?thesis using True by (simp add: lead_exponent_def)
next
  case False
  assume x: "0 < x"
  let ?y = "1 / x" and ?k = "floorlog 2 (nat (\<lceil>1 / x\<rceil> - 1))"
  have y: "1 < ?y" using False x by simp
  then have p: "0 < nat (\<lceil>?y\<rceil> - 1)" by linarith
  have "nat (\<lceil>?y\<rceil> - 1) < 2 ^ ?k" using floorlog_bounds [OF p, of 2] by simp
  then have "int (nat (\<lceil>?y\<rceil> - 1)) < int (2 ^ ?k)" by (simp only: of_nat_less_iff)
  then have "\<lceil>?y\<rceil> - 1 < 2 ^ ?k" using p by (simp only: zless_nat_eq_int_zless of_nat_power of_nat_numeral)
  then have "\<lceil>?y\<rceil> \<le> 2 ^ ?k" by linarith
  then have "?y \<le> 2 ^ ?k" by (metis ceiling_le_iff of_int_numeral of_int_power)
  then have "1 \<le> 2 ^ ?k * x" using x by (simp add: divide_le_eq)
  then have "1 / 2 ^ ?k \<le> x" by (simp add: divide_le_eq mult.commute)
  then show ?thesis using False by (simp add: lead_exponent_def power_int_minus divide_inverse)
qed

text \<open>The relative error is at most \<open>2 ^ -24\<close>, apart from what is lost below the smallest exponent.\<close>

lemma to_float_near:
  assumes "0 \<le> x"
  shows "\<bar>to_float x - x\<bar> \<le> x / 2 ^ 24 + 1 / 2 ^ 150"
proof (cases "x = 0")
  case False
  with assms have x: "0 < x" by simp
  define e where "e = max (lead_exponent x - 23) (- 149)"
  have p: "(0 :: rat) < 2 powi e" by simp
  have "to_float x = of_int (round_even (x / 2 powi e)) * 2 powi e"
    using False by (simp add: to_float_def Let_def e_def)
  then have "to_float x - x = (of_int (round_even (x / 2 powi e)) - x / 2 powi e) * 2 powi e"
    by (simp add: left_diff_distrib)
  then have "\<bar>to_float x - x\<bar> = \<bar>of_int (round_even (x / 2 powi e)) - x / 2 powi e\<bar> * 2 powi e"
    using p by (simp add: abs_mult)
  also have "\<dots> \<le> 1 / 2 * 2 powi e" using round_even_near [of "x / 2 powi e"] p by (intro mult_right_mono) auto
  also have "2 powi e \<le> x / 2 ^ 23 + 1 / 2 ^ 149"
  proof -
    have "(2 :: rat) powi (lead_exponent x - 23) = 2 powi lead_exponent x / 2 ^ 23"
      by (simp add: power_int_diff)
    also have "\<dots> \<le> x / 2 ^ 23" using lead_exponent_le [OF x] by (intro divide_right_mono) simp_all
    finally have a: "(2 :: rat) powi (lead_exponent x - 23) \<le> x / 2 ^ 23" .
    have b: "(2 :: rat) powi (- 149) = 1 / 2 ^ 149" by (simp only: power_int_minus divide_inverse) (simp add: power_int_def)
    show ?thesis using a b x by (auto simp: e_def max_def)
  qed
  then have "1 / 2 * 2 powi e \<le> x / 2 ^ 24 + 1 / 2 ^ 150" by simp
  finally show ?thesis .
qed (simp add: to_float_def)

text \<open>A number of hundredths below \<open>2 ^ 22\<close> survives the way through a \<open>float\<close>.\<close>

lemma hundredths_survive:
  assumes "n < 2 ^ 22"
  shows "round_even (100 * to_float (of_nat n / 100)) = int n" "to_float (of_nat n / 100) < 2 ^ 128"
proof -
  let ?x = "of_nat n / 100 :: rat"
  have b: "(of_nat n :: rat) < 2 ^ 22" using assms by (metis of_nat_less_iff of_nat_numeral of_nat_power)
  have e: "\<bar>to_float ?x - ?x\<bar> \<le> ?x / 2 ^ 24 + 1 / 2 ^ 150" by (rule to_float_near) simp
  then have "100 * \<bar>to_float ?x - ?x\<bar> \<le> of_nat n / 2 ^ 24 + 100 / 2 ^ 150" by simp
  moreover have "of_nat n / 2 ^ 24 < (1 / 4 :: rat)" using b by simp
  moreover have "100 / 2 ^ 150 < (1 / 4 :: rat)" by simp
  ultimately have "100 * \<bar>to_float ?x - ?x\<bar> < 1 / 2" by linarith
  moreover have "100 * \<bar>to_float ?x - ?x\<bar> = \<bar>100 * to_float ?x - of_int (int n)\<bar>"
  proof -
    have "100 * \<bar>to_float ?x - ?x\<bar> = \<bar>100 * (to_float ?x - ?x)\<bar>" by (simp only: abs_mult abs_numeral)
    also have "100 * (to_float ?x - ?x) = 100 * to_float ?x - of_int (int n)" by (simp add: right_diff_distrib)
    finally show ?thesis .
  qed
  ultimately show "round_even (100 * to_float ?x) = int n" by (intro round_even_unique) simp
  show "to_float ?x < 2 ^ 128" using e b by (simp add: abs_le_iff)
qed

end
