(* ===== verification/Lab_Input.thy ===== *)
theory Lab_Input
  imports Lab_Float Lab_Worker
begin

text \<open>
  \<open>src/utils/input.c\<close>: the shell of \<open>linux_lab\<close>. A line is cut into words the way \<open>strtok\<close> does,
  the words are stored in a growing array, and the first one selects a command. The state is what
  the commands change: the saved message, the monitor queue, the open descriptors and the output.
\<close>

section \<open>Words of a line\<close>

definition TOY_TOK_BUFSIZE :: nat where
  "TOY_TOK_BUFSIZE = 64"

definition TOY_TOK_DELIM :: string where
  "TOY_TOK_DELIM = [CHR '' '', CHR 0x09, CHR 0x0D, CHR 0x0A, CHR 0x07]"

definition TOY_BUFFSIZE :: nat where
  "TOY_BUFFSIZE = 1024"

text \<open>\<open>strtok\<close> on what is left of the line: the next word and the rest after its delimiter.\<close>

definition is_delim :: "char \<Rightarrow> bool" where
  "is_delim c \<longleftrightarrow> c \<in> set TOY_TOK_DELIM"

definition strtok :: "string \<Rightarrow> (string \<times> string) option" where
  "strtok s =
     (let r = dropWhile is_delim s in
      if r = [] then None
      else let w = takeWhile (\<lambda>c. \<not> is_delim c) r in Some (w, drop (Suc (length w)) r))"

text \<open>
  The array \<open>tokens\<close>: the words stored so far and the number of entries allocated. \<open>None\<close> is a store
  outside of it. \<open>realloc_ok\<close> gives the result of the allocation of so many entries.
\<close>

datatype split_result = Tokens "string list" nat | Alloc_failed

lemma strtok_shorter: "strtok s = Some (w, r) \<Longrightarrow> length r < length s"
proof -
  assume a: "strtok s = Some (w, r)"
  let ?d = "dropWhile is_delim s"
  from a have "?d \<noteq> []" "r = drop (Suc (length w)) ?d"
    unfolding strtok_def Let_def by (metis option.distinct(1), metis option.inject option.distinct(1) prod.inject)
  then have "length r < length ?d" by (cases ?d) simp_all
  then show ?thesis using length_dropWhile_le [of is_delim s] by simp
qed

function split_loop :: "(nat \<Rightarrow> bool) \<Rightarrow> string \<Rightarrow> string list \<Rightarrow> nat \<Rightarrow> split_result option" where
  "split_loop realloc_ok s tokens bufsize =
     (case strtok s of
        None \<Rightarrow> if length tokens < bufsize then Some (Tokens tokens bufsize) else None
      | Some (w, r) \<Rightarrow>
          if length tokens \<ge> bufsize then None
          else let tokens' = tokens @ [w] in
            if length tokens' \<ge> bufsize
            then let bufsize' = bufsize + TOY_TOK_BUFSIZE in
              if realloc_ok bufsize' then split_loop realloc_ok r tokens' bufsize' else Some Alloc_failed
            else split_loop realloc_ok r tokens' bufsize)"
  by pat_completeness auto
termination
  by (relation "measure (\<lambda>(ok, s, t, b). length s)") (auto dest: strtok_shorter)

declare split_loop.simps [simp del]

definition toy_split_line :: "(nat \<Rightarrow> bool) \<Rightarrow> string \<Rightarrow> split_result option" where
  "toy_split_line alloc_ok line =
     (if alloc_ok TOY_TOK_BUFSIZE then split_loop alloc_ok (cstr line) [] TOY_TOK_BUFSIZE else Some Alloc_failed)"

section \<open>State and environment\<close>

record shell =
  global_message :: cbuffer
  monitor_queue :: mqueue
  open_fds :: "int list"
  shell_out :: string

record elf_env =
  elf_open :: int
  elf_size :: "nat option"
  elf_bytes :: "(u8 list) option"
  main_address :: u64

record temp_round =
  tp_poll :: int
  tp_read :: "string option"

record shell_env =
  wlan_access :: bool
  wlan_socket :: int
  wlan_connect :: int
  wlan_answer :: "string \<Rightarrow> string option"
  sh_fork :: int
  sh_exec_ok :: bool
  sh_status :: u32
  sh_waits :: "u32 option list"
  elf :: elf_env
  mincore_result :: int
  temp_open :: int
  temp_rounds :: "temp_round list"
  temp_format :: "string \<Rightarrow> string option"
  dump_stack :: u64

text \<open>
  What a command comes to: it returns a status, it never returns, it waits (for room in a queue, or
  for events that are not given), it replaces the process image in a child or ends the child with a
  status, or it aborts the process.
\<close>

datatype 'a ran = Returns int 'a | Spins | Waits 'a | Executes "string list" | Child_exits int | Aborts

definition say :: "string \<Rightarrow> shell \<Rightarrow> shell" where
  "say t s = s\<lparr>shell_out := shell_out s @ t\<rparr>"

definition fd_open :: "int \<Rightarrow> shell \<Rightarrow> shell" where
  "fd_open fd s = s\<lparr>open_fds := fd # open_fds s\<rparr>"

definition fd_close :: "int \<Rightarrow> shell \<Rightarrow> shell" where
  "fd_close fd s = s\<lparr>open_fds := remove1 fd (open_fds s)\<rparr>"

section \<open>Commands\<close>

definition builtin_str :: "string list" where
  "builtin_str = [''help'', ''wlan'', ''mu'', ''sh'', ''exit'', ''elf'', ''dump'', ''mincore'', ''busy'', ''temp'']"

definition toy_num_builtins :: nat where
  "toy_num_builtins = length builtin_str"

definition toy_help :: "shell \<Rightarrow> shell ran" where
  "toy_help s = Returns 1 (say (concat (map (\<lambda>i. builtin_str ! i @ [newline]) [0..<toy_num_builtins])) s)"

text \<open>
  The request is \<open>wlan_request\<close>; \<open>wlan_answer\<close> gives the bytes there are to read for it, of which one
  \<open>read\<close> takes 1023 (\<open>None\<close> when it fails). The result of \<open>send\<close> is ignored.
\<close>

definition wlan_request :: string where
  "wlan_request = ''WLAN_DUMP''"

definition toy_wlan :: "shell_env \<Rightarrow> shell \<Rightarrow> shell ran" where
  "toy_wlan env s =
     (if \<not> wlan_access env then Returns 1 s
      else if wlan_socket env < 0 then Returns 1 s
      else let s1 = fd_open (wlan_socket env) s in
        if wlan_connect env < 0 then Returns 1 (fd_close (wlan_socket env) s1)
        else let buffer = replicate TOY_BUFFSIZE NUL in
          (case wlan_answer env wlan_request of
             None \<Rightarrow> Returns 1 (fd_close (wlan_socket env) s1)
           | Some d \<Rightarrow>
               let got = take (TOY_BUFFSIZE - 1) d;
                   s2 = (if got \<noteq> [] then say (cstr (got @ drop (length got) buffer)) s1 else s1)
               in Returns 1 (fd_close (wlan_socket env) s2)))"

text \<open>\<open>None\<close>: \<open>strcpy\<close> writes past \<open>global_message\<close>.\<close>

definition toy_mutex :: "string list \<Rightarrow> shell \<Rightarrow> shell ran option" where
  "toy_mutex args s =
     (if length args < 2 then Some (Returns 1 s)
      else let w = args ! 1 in
        if length w \<ge> TOY_BUFFSIZE then None
        else Some (Returns 1 (s\<lparr>global_message := w @ [NUL] @ drop (Suc (length w)) (global_message s)\<rparr>)))"

definition toy_exit :: "shell \<Rightarrow> shell ran" where
  "toy_exit s = Returns 0 s"

text \<open>Fields of the mapped header, little-endian; bytes past the end of the file read as zero.\<close>

definition byte_at :: "u8 list \<Rightarrow> nat \<Rightarrow> nat" where
  "byte_at bs i = (if i < length bs then unat (bs ! i) else 0)"

fun le_field :: "u8 list \<Rightarrow> nat \<Rightarrow> nat \<Rightarrow> nat" where
  "le_field bs off 0 = 0"
| "le_field bs off (Suc n) = byte_at bs off + 256 * le_field bs (Suc off) n"

record elf_info =
  e_type :: nat
  e_machine :: nat
  e_version :: nat
  e_entry :: nat
  e_phoff :: nat

definition elf_header :: "u8 list \<Rightarrow> elf_info" where
  "elf_header bs = \<lparr>e_type = le_field bs 16 2, e_machine = le_field bs 18 2, e_version = le_field bs 20 4,
     e_entry = le_field bs 24 8, e_phoff = le_field bs 32 8\<rparr>"

definition pie_active :: "u64 \<Rightarrow> elf_info \<Rightarrow> bool" where
  "pie_active main h \<longleftrightarrow> e_entry h \<noteq> unat main"

text \<open>
  The header and the offset of \<open>main\<close> (when it differs from the entry point) that are logged.
  \<open>None\<close>: the header is read through a failed \<open>mmap\<close>. The descriptor stays open.
\<close>

definition toy_elf :: "shell_env \<Rightarrow> shell \<Rightarrow> (shell ran \<times> (elf_info \<times> u64 option) option) option" where
  "toy_elf env s =
     (let e = elf env in
      if elf_open e < 0 then Some (Returns 1 s, None)
      else let s1 = fd_open (elf_open e) s in
        (case elf_size e of
           None \<Rightarrow> Some (Returns 1 s1, None)
         | Some n \<Rightarrow>
             if n = 0 then Some (Returns 1 s1, None)
             else (case elf_bytes e of
                     None \<Rightarrow> None
                   | Some bs \<Rightarrow>
                       let h = elf_header bs in
                       Some (Returns 1 s1,
                         Some (h, if pie_active (main_address e) h
                                  then Some (main_address e - of_nat (e_entry h)) else None)))))"

text \<open>\<open>param3\<close> is not set: the message has what the stack held there.\<close>

definition toy_dump_state :: "shell_env \<Rightarrow> shell \<Rightarrow> shell ran" where
  "toy_dump_state env s =
     (case mq_send (monitor_queue s) \<lparr>msg_type = DUMP_STATE, param1 = 0, param2 = 0, param3 = dump_stack env\<rparr> sizeof_mq_msg of
        Mq_error \<Rightarrow> Aborts
      | Mq_block \<Rightarrow> Waits s
      | Mq_ok q \<Rightarrow> Returns 1 (s\<lparr>monitor_queue := q\<rparr>))"

definition toy_mincore :: "shell_env \<Rightarrow> shell \<Rightarrow> shell ran" where
  "toy_mincore env s = (if mincore_result env = 0 then Returns 1 s else Aborts)"

definition toy_busy :: "shell ran" where
  "toy_busy = Spins"

text \<open>
  \<open>fmt\<close> is what \<open>sscanf\<close> with \<open>%f\<close> and \<open>printf\<close> with \<open>%.2f\<close> make of a text: \<open>None\<close> when no
  number was found. For decimal numbers it is \<open>float_text\<close>, for the other texts \<open>%f\<close> accepts
  the parameter \<open>temp_format\<close>. One \<open>read\<close> takes 99 bytes of what there is (\<open>None\<close> when it fails); failed reads are
  tried again and not counted. The count is decremented as an integer: for the one count where that
  would overflow, -2147483648, C leaves the result open.
\<close>

fun temp_loop :: "(string \<Rightarrow> string option) \<Rightarrow> temp_round list \<Rightarrow> int \<Rightarrow> shell \<Rightarrow> shell \<times> bool" where
  "temp_loop fmt [] cnt s = (s, False)"
| "temp_loop fmt (r # rs) cnt s =
     (let s1 = (if tp_poll r < 0 then say (''poll error'' @ [newline]) s
                else if tp_poll r = 0 then say (''Timeout occurred!'' @ [newline]) s else s) in
      (case tp_read r of
         None \<Rightarrow> temp_loop fmt rs cnt s1
       | Some d \<Rightarrow>
           let s2 = (case fmt (cstr (take 99 d)) of
                       None \<Rightarrow> s1
                     | Some t \<Rightarrow> say (''Sensor read: '' @ t @ [CHR 0xC2, CHR 0xB0] @ ''C'' @ [newline]) s1)
           in if cnt - 1 \<le> 0 then (s2, True) else temp_loop fmt rs (cnt - 1) s2))"

definition toy_temp :: "shell_env \<Rightarrow> string list \<Rightarrow> shell \<Rightarrow> shell ran" where
  "toy_temp env args s =
     (let cnt = (if length args < 2 then 1 else atoi (args ! 1)) in
      if temp_open env < 0 then Returns 1 s
      else let (s1, left) = temp_loop (float_text (temp_format env)) (temp_rounds env) cnt (fd_open (temp_open env) s)
           in if left then Returns 1 (fd_close (temp_open env) s1) else Waits s1)"

text \<open>The macros of \<open>sys/wait.h\<close> on a status word; the shift of a signed character keeps its sign.\<close>

definition WIFEXITED :: "u32 \<Rightarrow> bool" where
  "WIFEXITED status \<longleftrightarrow> status AND 0x7F = 0"

definition WIFSIGNALED :: "u32 \<Rightarrow> bool" where
  "WIFSIGNALED status \<longleftrightarrow> sint (ucast ((status AND 0x7F) + 1) :: 8 word) div 2 > 0"

text \<open>
  One entry per return of \<open>waitpid\<close>: the status it stores, \<open>None\<close> when it fails and stores nothing.
  The code does not look at its result, and \<open>status\<close> has no initial value: that is a parameter.
\<close>

definition wait_store :: "u32 \<Rightarrow> u32 option \<Rightarrow> u32" where
  "wait_store status w = (case w of None \<Rightarrow> status | Some x \<Rightarrow> x)"

definition wait_over :: "u32 \<Rightarrow> bool" where
  "wait_over status \<longleftrightarrow> \<not> (\<not> WIFEXITED status \<and> \<not> WIFSIGNALED status)"

fun wait_child :: "u32 \<Rightarrow> u32 option list \<Rightarrow> bool" where
  "wait_child status [] = False"
| "wait_child status (w # ws) =
     (let status' = wait_store status w in if wait_over status' then True else wait_child status' ws)"

definition toy_shell :: "shell_env \<Rightarrow> string list \<Rightarrow> shell \<Rightarrow> shell ran" where
  "toy_shell env args s =
     (if sh_fork env = 0 then (if sh_exec_ok env then Executes args else Child_exits 1)
      else if sh_fork env < 0 then Returns 1 s
      else if wait_child (sh_status env) (sh_waits env) then Returns 1 s else Waits s)"

section \<open>Dispatch and the loop\<close>

text \<open>\<open>builtin_func\<close>, by position.\<close>

definition builtin_func :: "shell_env \<Rightarrow> nat \<Rightarrow> string list \<Rightarrow> shell \<Rightarrow> shell ran option" where
  "builtin_func env i args s =
     [Some (toy_help s), Some (toy_wlan env s), toy_mutex args s, Some (toy_shell env args s), Some (toy_exit s),
      map_option fst (toy_elf env s), Some (toy_dump_state env s), Some (toy_mincore env s), Some toy_busy,
      Some (toy_temp env args s)] ! i"

function execute_loop :: "shell_env \<Rightarrow> nat \<Rightarrow> string list \<Rightarrow> shell \<Rightarrow> shell ran option" where
  "execute_loop env i args s =
     (if i < toy_num_builtins
      then if args ! 0 = builtin_str ! i then builtin_func env i args s else execute_loop env (Suc i) args s
      else Some (Returns 1 s))"
  by pat_completeness auto
termination
  by (relation "measure (\<lambda>(env, i, args, s). toy_num_builtins - i)") auto

declare execute_loop.simps [simp del]

definition toy_execute :: "shell_env \<Rightarrow> string list \<Rightarrow> shell \<Rightarrow> shell ran option" where
  "toy_execute env args s = (if args = [] then Some (Returns 1 s) else execute_loop env 0 args s)"

text \<open>What \<open>getline\<close> comes to; without a line the process exits with the status on the left.\<close>

datatype getline = Line string | At_eof | Getline_error

fun toy_read_line :: "getline \<Rightarrow> int + string" where
  "toy_read_line (Line l) = Inr l"
| "toy_read_line At_eof = Inl 0"
| "toy_read_line Getline_error = Inl 1"

text \<open>
  The loop, with one input for each line asked for and what the system does during its command. With
  no more inputs it waits at its prompt.
\<close>

datatype shell_end =
    Shell_prompt shell | Shell_exits int shell | Shell_left shell | Shell_stuck "shell ran" | Shell_no_memory

fun toy_loop :: "(nat \<Rightarrow> bool) \<Rightarrow> (getline \<times> shell_env) list \<Rightarrow> shell \<Rightarrow> shell_end option" where
  "toy_loop alloc_ok [] s = Some (Shell_prompt (say ''linux-lab>'' s))"
| "toy_loop alloc_ok ((inp, env) # rest) s =
     (let s1 = say ''linux-lab>'' s in
      (case toy_read_line inp of
         Inl status \<Rightarrow> Some (Shell_exits status s1)
       | Inr line \<Rightarrow>
           (case toy_split_line alloc_ok line of
              None \<Rightarrow> None
            | Some Alloc_failed \<Rightarrow> Some Shell_no_memory
            | Some (Tokens args _) \<Rightarrow>
                (case toy_execute env args s1 of
                   None \<Rightarrow> None
                 | Some (Returns status s') \<Rightarrow> if status \<noteq> 0 then toy_loop alloc_ok rest s' else Some (Shell_left s')
                 | Some r \<Rightarrow> Some (Shell_stuck r)))))"

text \<open>The thread runs the loop once and ends with it.\<close>

definition command_thread :: "(nat \<Rightarrow> bool) \<Rightarrow> (getline \<times> shell_env) list \<Rightarrow> shell \<Rightarrow> shell_end option" where
  "command_thread alloc_ok inputs s = toy_loop alloc_ok inputs s"

section \<open>Start-up\<close>

text \<open>
  The frames \<open>segfault_handler\<close> logs (\<open>messages\<close> is \<open>None\<close> when \<open>backtrace_symbols\<close> fails) and the
  status it exits with.
\<close>

definition segfault_handler :: "nat \<Rightarrow> string list option \<Rightarrow> (nat \<times> string) list \<times> int" where
  "segfault_handler frames messages =
     ((case messages of None \<Rightarrow> [] | Some ms \<Rightarrow> map (\<lambda>i. (i, ms ! i)) [1..<frames]), 1)"

datatype input_end = Input_returns int | Input_aborts | Input_exits | Input_runs

text \<open>
  \<open>retcode\<close> is the truth value of the comparison, as written. \<open>pthread_create\<close> returns an error
  number that is not negative.
\<close>

definition input_process :: "int \<Rightarrow> (string \<Rightarrow> int) \<Rightarrow> int \<Rightarrow> input_end" where
  "input_process sigaction_result mq pthread =
     (if sigaction_result < 0 then Input_returns 0
      else if mq ''/watchdog_queue'' = -1 \<or> mq ''/monitor_queue'' = -1 \<or> mq ''/disk_queue'' = -1 then Input_aborts
      else let retcode = of_bool (pthread < 0) :: int in
        if retcode \<noteq> 0 then Input_exits else Input_runs)"

text \<open>
  \<open>None\<close>: the child never comes back. Where \<open>input\<close> returns in the child, the child goes on behind the
  call like the parent.
\<close>

definition create_input :: "int \<Rightarrow> input_end \<Rightarrow> int option" where
  "create_input systemPid child =
     (if systemPid = 0 then (case child of Input_returns _ \<Rightarrow> Some 0 | _ \<Rightarrow> None) else Some 0)"


section \<open>Words, by specification\<close>

text \<open>The maximal runs of characters that are no delimiters.\<close>

fun pieces :: "string \<Rightarrow> string list" where
  "pieces [] = [[]]"
| "pieces (c # s) = (if is_delim c then [] # pieces s else (c # hd (pieces s)) # tl (pieces s))"

definition line_words :: "string \<Rightarrow> string list" where
  "line_words s = filter (\<lambda>w. w \<noteq> []) (pieces s)"

lemma pieces_nonempty [simp]: "pieces s \<noteq> []"
  by (induction s) auto

lemma pieces_run: "\<forall>c \<in> set w. \<not> is_delim c \<Longrightarrow> pieces (w @ s) = (w @ hd (pieces s)) # tl (pieces s)"
  by (induction w) auto

lemma line_words_skip: "line_words s = line_words (dropWhile is_delim s)"
  by (induction s) (auto simp: line_words_def)

lemma line_words_run:
  assumes "\<forall>c \<in> set w. \<not> is_delim c" "w \<noteq> []"
  shows "line_words w = [w]" "is_delim d \<Longrightarrow> line_words (w @ d # r) = w # line_words r"
  using assms pieces_run [OF assms(1), of "[]"] pieces_run [OF assms(1), of "d # r"]
  by (auto simp: line_words_def)

lemma line_words_strtok:
  "line_words s = (case strtok s of None \<Rightarrow> [] | Some (w, r) \<Rightarrow> w # line_words r)"
proof (cases "dropWhile is_delim s")
  case Nil
  have "line_words [] = []" by (simp add: line_words_def)
  with Nil show ?thesis using line_words_skip [of s] unfolding strtok_def Let_def Nil by simp
next
  case (Cons c t)
  define w z where "w = takeWhile (\<lambda>c. \<not> is_delim c) (c # t)" and "z = dropWhile (\<lambda>c. \<not> is_delim c) (c # t)"
  have eq: "c # t = w @ z" unfolding w_def z_def by (rule takeWhile_dropWhile_id [symmetric])
  have "\<not> is_delim c" using Cons by (simp add: dropWhile_eq_Cons_conv)
  then have w: "\<forall>c \<in> set w. \<not> is_delim c" "w \<noteq> []" by (auto simp: w_def dest: set_takeWhileD)
  have st: "strtok s = Some (w, drop 1 z)"
    unfolding strtok_def Let_def Cons w_def [symmetric] unfolding eq by (simp add: w)
  have "line_words (w @ z) = w # line_words (drop 1 z)"
  proof (cases z)
    case Nil
    with line_words_run(1) [OF w] show ?thesis by (simp add: line_words_def)
  next
    case z: (Cons d r)
    then have "is_delim d" unfolding z_def dropWhile_eq_Cons_conv by simp
    from line_words_run(2) [OF w this, of r] show ?thesis by (simp add: z)
  qed
  then show ?thesis using line_words_skip [of s] unfolding Cons st eq by simp
qed

lemma split_loop_words:
  "length tokens < bufsize \<Longrightarrow>
     \<exists>r. split_loop ok s tokens bufsize = Some r \<and>
       ((\<forall>n. ok n) \<longrightarrow> (\<exists>cap. r = Tokens (tokens @ line_words s) cap \<and> length (tokens @ line_words s) < cap))"
proof (induction ok s tokens bufsize rule: split_loop.induct)
  case (1 ok s tokens bufsize)
  show ?case
  proof (cases "strtok s")
    case None
    then have "line_words s = []" using line_words_strtok [of s] by simp
    with 1(3) None show ?thesis by (subst split_loop.simps) simp
  next
    case (Some wr)
    obtain w r where wr: "wr = (w, r)" by (cases wr)
    have l: "line_words s = w # line_words r" using line_words_strtok [of s] by (simp add: Some wr)
    have b: "\<not> bufsize \<le> length tokens" using 1(3) by simp
    have f: "length (tokens @ [w]) < bufsize + TOY_TOK_BUFSIZE" using 1(3) by (simp add: TOY_TOK_BUFSIZE_def)
    show ?thesis
    proof (cases "length (tokens @ [w]) \<ge> bufsize")
      case True
      show ?thesis
      proof (cases "ok (bufsize + TOY_TOK_BUFSIZE)")
        case t: True
        from 1(1) [OF Some wr [symmetric] b refl True refl t f] show ?thesis
          using 1(3) True t by (subst split_loop.simps) (simp add: Some wr l)
      next
        case False
        then show ?thesis using 1(3) True by (subst split_loop.simps) (auto simp add: Some wr)
      qed
    next
      case False
      from 1(2) [OF Some wr [symmetric] b refl False] False show ?thesis
        using 1(3) by (subst split_loop.simps) (simp add: Some wr l)
    qed
  qed
qed


section \<open>Commands, by specification\<close>

lemma builtin_distinct: "distinct builtin_str"
  by (simp add: builtin_str_def)

lemma execute_loop_at:
  "j \<le> i \<Longrightarrow> i < toy_num_builtins \<Longrightarrow> args ! 0 = builtin_str ! i \<Longrightarrow> execute_loop env j args s = builtin_func env i args s"
proof (induction "i - j" arbitrary: j)
  case 0
  then show ?case by (subst execute_loop.simps) simp
next
  case (Suc n)
  then have "j < i" by simp
  then have "builtin_str ! i \<noteq> builtin_str ! j"
    using Suc.prems(2) nth_eq_iff_index_eq [OF builtin_distinct, of i j] by (simp add: toy_num_builtins_def)
  with Suc show ?case by (subst execute_loop.simps) simp
qed

lemma execute_loop_unknown: "args ! 0 \<notin> set builtin_str \<Longrightarrow> execute_loop env j args s = Some (Returns 1 s)"
proof (induction "toy_num_builtins - j" arbitrary: j)
  case 0
  then show ?case by (subst execute_loop.simps) simp
next
  case (Suc n)
  then have "builtin_str ! j \<in> set builtin_str" by (simp add: toy_num_builtins_def)
  with Suc show ?case by (subst execute_loop.simps) auto
qed

lemma temp_loop_fds: "open_fds (fst (temp_loop fmt rs cnt s)) = open_fds s"
  by (induction fmt rs cnt s rule: temp_loop.induct) (auto simp: say_def Let_def split: option.splits)

text \<open>The descriptors a command leaves open.\<close>

fun ran_fds :: "shell ran \<Rightarrow> int list option" where
  "ran_fds (Returns st s) = Some (open_fds s)"
| "ran_fds _ = None"

lemmas command_defs = toy_help_def toy_wlan_def toy_mutex_def toy_shell_def toy_exit_def toy_elf_def
  toy_dump_state_def toy_mincore_def toy_busy_def toy_temp_def say_def fd_open_def fd_close_def

text \<open>Encoding of a header field, for stating what the decoder reads.\<close>

fun le_bytes :: "nat \<Rightarrow> nat \<Rightarrow> u8 list" where
  "le_bytes 0 v = []"
| "le_bytes (Suc n) v = of_nat v # le_bytes n (v div 256)"

lemma length_le_bytes [simp]: "length (le_bytes n v) = n"
  by (induction n arbitrary: v) auto

lemma le_field_bytes: "le_field (pre @ le_bytes n v @ post) (length pre) n = v mod 256 ^ n"
proof (induction n arbitrary: pre v)
  case (Suc n)
  have b: "byte_at (pre @ of_nat v # le_bytes n (v div 256) @ post) (length pre) = v mod 256"
    by (simp add: byte_at_def unat_of_nat)
  have "le_field (pre @ of_nat v # le_bytes n (v div 256) @ post) (Suc (length pre)) n = v div 256 mod 256 ^ n"
    using Suc [of "pre @ [of_nat v]" "v div 256"] by simp
  with b show ?case by (simp add: mod_mult2_eq)
qed simp

definition elf_file :: "u8 list \<Rightarrow> elf_info \<Rightarrow> u8 list \<Rightarrow> u8 list" where
  "elf_file ident h rest = ident @ le_bytes 2 (e_type h) @ le_bytes 2 (e_machine h) @ le_bytes 4 (e_version h) @
     le_bytes 8 (e_entry h) @ le_bytes 8 (e_phoff h) @ rest"

definition elf_info_ok :: "elf_info \<Rightarrow> bool" where
  "elf_info_ok h \<longleftrightarrow> e_type h < 2 ^ 16 \<and> e_machine h < 2 ^ 16 \<and> e_version h < 2 ^ 32 \<and>
     e_entry h < 2 ^ 64 \<and> e_phoff h < 2 ^ 64"

lemma elf_header_file:
  assumes "length ident = 16" "elf_info_ok h"
  shows "elf_header (elf_file ident h rest) = h"
proof -
  let ?t = "le_bytes 2 (e_type h)" and ?m = "le_bytes 2 (e_machine h)" and ?v = "le_bytes 4 (e_version h)"
  let ?e = "le_bytes 8 (e_entry h)" and ?p = "le_bytes 8 (e_phoff h)"
  note l = assms(1)
  have "le_field (elf_file ident h rest) 16 2 = e_type h"
    using le_field_bytes [of ident 2 "e_type h" "?m @ ?v @ ?e @ ?p @ rest"] l assms(2)
    by (simp add: elf_file_def elf_info_ok_def)
  moreover have "le_field (elf_file ident h rest) 18 2 = e_machine h"
    using le_field_bytes [of "ident @ ?t" 2 "e_machine h" "?v @ ?e @ ?p @ rest"] l assms(2)
    by (simp add: elf_file_def elf_info_ok_def)
  moreover have "le_field (elf_file ident h rest) 20 4 = e_version h"
    using le_field_bytes [of "ident @ ?t @ ?m" 4 "e_version h" "?e @ ?p @ rest"] l assms(2)
    by (simp add: elf_file_def elf_info_ok_def)
  moreover have "le_field (elf_file ident h rest) 24 8 = e_entry h"
    using le_field_bytes [of "ident @ ?t @ ?m @ ?v" 8 "e_entry h" "?p @ rest"] l assms(2)
    by (simp add: elf_file_def elf_info_ok_def)
  moreover have "le_field (elf_file ident h rest) 32 8 = e_phoff h"
    using le_field_bytes [of "ident @ ?t @ ?m @ ?v @ ?e" 8 "e_phoff h" rest] l assms(2)
    by (simp add: elf_file_def elf_info_ok_def)
  ultimately show ?thesis by (simp add: elf_header_def)
qed

section \<open>Properties\<close>

text \<open>
  C7. Cutting a line gives its words, the maximal runs of characters that are no delimiters, in order,
  for lines of any number of words. The array grows before it is full: whatever allocations succeed,
  no word and no final null entry is stored outside of it.
\<close>

theorem split_line_words:
  "toy_split_line alloc_ok line \<noteq> None \<and>
   ((\<forall>n. alloc_ok n) \<longrightarrow> (\<exists>cap. toy_split_line alloc_ok line = Some (Tokens (line_words (cstr line)) cap) \<and>
      length (line_words (cstr line)) < cap))"
  using split_loop_words [of "[]" TOY_TOK_BUFSIZE alloc_ok "cstr line"]
  by (auto simp: toy_split_line_def TOY_TOK_BUFSIZE_def)

theorem split_line_words_witness:
  "\<exists>cap. toy_split_line (\<lambda>_. True) (''mu  hello '' @ [newline]) = Some (Tokens [''mu'', ''hello''] cap)"
proof -
  have "line_words (cstr (''mu  hello '' @ [newline])) = [''mu'', ''hello'']" by code_simp
  with split_line_words [of "\<lambda>_. True" "''mu  hello '' @ [newline]"] show ?thesis by auto
qed

text \<open>
  The first word selects the command at its position in the table and nothing else; an unknown
  word and an empty line change nothing and the shell goes on.
\<close>

lemma execute_selects:
  "toy_execute env [] s = Some (Returns 1 s) \<and>
   (i < toy_num_builtins \<longrightarrow> toy_execute env (builtin_str ! i # args) s = builtin_func env i (builtin_str ! i # args) s) \<and>
   (w \<notin> set builtin_str \<longrightarrow> toy_execute env (w # args) s = Some (Returns 1 s))"
  using execute_loop_at [of 0 i "builtin_str ! i # args" env s] execute_loop_unknown [of "w # args" env 0 s]
  by (simp add: toy_execute_def)

definition idle_env :: shell_env where
  "idle_env = \<lparr>wlan_access = False, wlan_socket = -1, wlan_connect = -1, wlan_answer = (\<lambda>_. None),
     sh_fork = -1, sh_exec_ok = False, sh_status = 0, sh_waits = [], elf = \<lparr>elf_open = 4, elf_size = Some 64, elf_bytes = Some [], main_address = 7\<rparr>,
     mincore_result = 0, temp_open = -1, temp_rounds = [], temp_format = (\<lambda>_. None), dump_stack = 0\<rparr>"

definition shell_start :: shell where
  "shell_start = \<lparr>global_message = replicate TOY_BUFFSIZE NUL,
     monitor_queue = \<lparr>mq_maxmsg = NUM_MESSAGES, mq_msgsize = sizeof_mq_msg, mq_msgs = []\<rparr>, open_fds = [], shell_out = []\<rparr>"

lemma execute_selects_example:
  "toy_execute idle_env [''exit'', ''now''] shell_start = Some (Returns 0 shell_start) \<and>
   toy_execute idle_env [''quit''] shell_start = Some (Returns 1 shell_start)"
proof -
  have e: "builtin_str ! 4 = ''exit''" "4 < toy_num_builtins" "''quit'' \<notin> set builtin_str"
    by (simp_all add: builtin_str_def toy_num_builtins_def)
  show ?thesis
    using execute_selects [of idle_env shell_start 4 "[''now'']" "''x''"]
      execute_selects [of idle_env shell_start 4 "[]" "''quit''"] e
    by (simp add: builtin_func_def toy_exit_def)
qed

text \<open>
  The command \<open>mu\<close> saves its word exactly when it has at most 1023 characters, and then the saved
  message is the word; a longer one is written past the end of the message buffer, so such a line
  crashes the shell. A missing word changes nothing.
\<close>

lemma mutex_message_bounds:
  "toy_execute env [''mu''] s = Some (Returns 1 s) \<and>
   (TOY_BUFFSIZE \<le> length w \<longrightarrow> toy_execute env (''mu'' # w # args) s = None) \<and>
   (length w < TOY_BUFFSIZE \<and> nul_free w \<longrightarrow>
      (\<exists>s'. toy_execute env (''mu'' # w # args) s = Some (Returns 1 s') \<and> cstr (global_message s') = w \<and>
         (length (global_message s) = TOY_BUFFSIZE \<longrightarrow> length (global_message s') = TOY_BUFFSIZE)))"
proof -
  have m: "toy_execute env (''mu'' # r) s = toy_mutex (''mu'' # r) s" for r
    using execute_loop_at [of 0 2 "''mu'' # r" env s]
    by (simp add: toy_execute_def builtin_func_def builtin_str_def toy_num_builtins_def)
  show ?thesis by (auto simp: m toy_mutex_def cstr_append_nul)
qed

lemma mutex_message_bounds_example:
  "\<exists>s'. toy_execute idle_env [''mu'', ''hello''] shell_start = Some (Returns 1 s') \<and> cstr (global_message s') = ''hello''"
  using mutex_message_bounds [of idle_env shell_start "''hello''" "[]"] by (auto simp: TOY_BUFFSIZE_def)

text \<open>
  C35. Every command that returns leaves the open descriptors as they were, on all of its error paths,
  except \<open>elf\<close>: each use of it leaves one more descriptor open.
\<close>

theorem commands_keep_fds:
  assumes "i < toy_num_builtins" "builtin_func env i args s = Some (Returns st s')"
  shows "open_fds s' = (if builtin_str ! i = ''elf'' \<and> 0 \<le> elf_open (elf env)
     then elf_open (elf env) # open_fds s else open_fds s)"
proof -
  have t: "open_fds (fst (temp_loop (float_text (temp_format env)) rs c (s\<lparr>open_fds := fds\<rparr>))) = fds" for rs c fds
    by (simp add: temp_loop_fds)
  have "i \<in> set [0..<10]" using assms(1) by (simp add: toy_num_builtins_def builtin_str_def)
  then consider "i = 0" | "i = 1" | "i = 2" | "i = 3" | "i = 4" | "i = 5" | "i = 6" | "i = 7" | "i = 8" | "i = 9"
    by (auto simp: upt_conv_Cons)
  then show ?thesis
  proof cases
    case 10
    then have r: "toy_temp env args s = Returns st s'" using assms(2) by (simp add: builtin_func_def)
    obtain s1 l where l: "temp_loop (float_text (temp_format env)) (temp_rounds env)
        (if length args < 2 then 1 else atoi (args ! 1)) (fd_open (temp_open env) s) = (s1, l)"
      by (metis surj_pair)
    then have "open_fds s1 = temp_open env # open_fds s"
      using temp_loop_fds [of "float_text (temp_format env)" "temp_rounds env" _ "fd_open (temp_open env) s"]
      by (metis fd_open_def fst_conv shell.select_convs(3) shell.surjective shell.update_convs(3))
    with r l 10 show ?thesis
      by (auto simp: toy_temp_def Let_def fd_close_def builtin_str_def split: if_splits)
  qed (use assms(2) in \<open>auto simp: builtin_func_def builtin_str_def command_defs Let_def
        split: if_splits option.splits mq_result.splits\<close>)
qed

theorem commands_keep_fds_witness:
  "\<exists>s'. builtin_func idle_env 5 [''elf''] shell_start = Some (Returns 1 s') \<and> open_fds s' = [4]"
proof -
  have b: "builtin_func idle_env 5 [''elf''] shell_start = Some (Returns 1 (shell_start\<lparr>open_fds := [4]\<rparr>))"
    by (simp add: builtin_func_def toy_elf_def idle_env_def shell_start_def fd_open_def Let_def)
  have i: "5 < toy_num_builtins" by (simp add: toy_num_builtins_def builtin_str_def)
  from commands_keep_fds [OF i b] b show ?thesis
    by (simp add: builtin_str_def idle_env_def shell_start_def)
qed

text \<open>
  C36. The command \<open>elf\<close> logs the type, machine, version, entry point and program header offset that
  are in the header of the running program, for all values of the fields, and the offset it logs for
  \<open>main\<close> added to the entry point is the address of \<open>main\<close>, modulo 64 bits.
\<close>

theorem elf_fields_decoded:
  assumes "0 \<le> elf_open (elf env)" "elf_size (elf env) = Some (Suc n)"
    and "elf_bytes (elf env) = Some (elf_file ident h rest)" "length ident = 16" "elf_info_ok h"
  shows "\<exists>r off. toy_elf env s = Some (r, Some (h, off)) \<and>
    (off = None \<longleftrightarrow> unat (main_address (elf env)) = e_entry h) \<and>
    (\<forall>d. off = Some d \<longrightarrow> d + of_nat (e_entry h) = main_address (elf env))"
  using assms elf_header_file [OF assms(4,5), of rest]
  by (auto simp: toy_elf_def Let_def pie_active_def)

text \<open>The whole line, through the loop: a word of 1024 characters crashes the shell.\<close>

lemma mutex_line_crashes:
  assumes "TOY_BUFFSIZE \<le> length w" "nul_free w" "\<forall>c \<in> set w. \<not> is_delim c" "\<forall>n. alloc_ok n"
  shows "toy_loop alloc_ok ((Line (''mu '' @ w), env) # rest) s = None"
proof -
  have w: "w \<noteq> []" using assms(1) by (auto simp: TOY_BUFFSIZE_def)
  have d: "is_delim CHR '' ''" "\<forall>c \<in> set ''mu''. \<not> is_delim c" by (simp_all add: is_delim_def TOY_TOK_DELIM_def)
  have "line_words (''mu '' @ w) = ''mu'' # line_words w" using line_words_run(2) [OF d(2) _ d(1), of w] by simp
  then have "line_words (cstr (''mu '' @ w)) = [''mu'', w]"
    using line_words_run(1) [OF assms(3) w] assms(2) by (simp add: cstr_nul_free)
  then obtain cap where "toy_split_line alloc_ok (''mu '' @ w) = Some (Tokens [''mu'', w] cap)"
    using split_loop_words [of "[]" TOY_TOK_BUFSIZE alloc_ok "cstr (''mu '' @ w)"] assms(4)
    by (auto simp: toy_split_line_def TOY_TOK_BUFSIZE_def)
  moreover have "toy_execute env [''mu'', w] t = None" for t
    using execute_loop_at [of 0 2 "[''mu'', w]" env t] assms(1)
    by (simp add: toy_execute_def builtin_func_def builtin_str_def toy_num_builtins_def toy_mutex_def)
  ultimately show ?thesis by simp
qed

definition sample_elf :: elf_info where
  "sample_elf = \<lparr>e_type = 3, e_machine = 183, e_version = 1, e_entry = 0x2ba0, e_phoff = 64\<rparr>"

theorem elf_fields_decoded_witness:
  "\<exists>r. toy_elf (idle_env\<lparr>elf := \<lparr>elf_open = 4, elf_size = Some 100,
       elf_bytes = Some (elf_file (replicate 16 0) sample_elf []), main_address = 0x5500002ba0\<rparr>\<rparr>) shell_start =
     Some (r, Some (sample_elf, Some 0x5500000000))"
proof -
  let ?env = "idle_env\<lparr>elf := \<lparr>elf_open = 4, elf_size = Some 100,
       elf_bytes = Some (elf_file (replicate 16 0) sample_elf []), main_address = 0x5500002ba0\<rparr>\<rparr>"
  have "\<exists>r off. toy_elf ?env shell_start = Some (r, Some (sample_elf, off)) \<and>
    (off = None \<longleftrightarrow> unat (main_address (elf ?env)) = e_entry sample_elf) \<and>
    (\<forall>d. off = Some d \<longrightarrow> d + of_nat (e_entry sample_elf) = main_address (elf ?env))"
    by (rule elf_fields_decoded [of _ 99 "replicate 16 0" sample_elf "[]"])
      (simp_all add: elf_info_ok_def sample_elf_def)
  then obtain r off where r: "toy_elf ?env shell_start = Some (r, Some (sample_elf, off))" "off \<noteq> None"
    "\<forall>d. off = Some d \<longrightarrow> d + 0x2ba0 = 0x5500002ba0"
    by (auto simp: sample_elf_def)
  then obtain d where d: "off = Some d" "d + 0x2ba0 = 0x5500002ba0" by auto
  then have "d = 0x5500002ba0 - 0x2ba0" by (simp add: eq_diff_eq)
  with r d show ?thesis by simp
qed

end
