(* ===== verification/Lab_Temp.thy ===== *)
theory Lab_Temp
  imports Sensor_Spi Lab_Input
begin

text \<open>
  The way of a temperature from the sensor driver to the shell: the work function publishes a value, the
  attribute shows it as text, and the command \<open>temp\<close> reads that text as a \<open>float\<close> and prints it.
\<close>

section \<open>Reading the attribute's text as a float\<close>

lemma scan_decimal_text:
  assumes "\<forall>c \<in> set fr. is_digit c" "\<not> is_digit c" "c \<notin> set ''eExX''"
  shows "scan_decimal ((if neg then ''-'' else []) @ dec_nat w @ CHR ''.'' # fr @ c # rest) =
    Some (neg, of_nat w + of_nat (digits_val 0 fr) / 10 ^ length fr)"
proof -
  let ?r = "dec_nat w @ CHR ''.'' # fr @ c # rest"
  obtain x xs where x: "dec_nat w = x # xs" "is_digit x" using dec_nat_hd by blast
  have s: "split_sign (dropWhile is_space ((if neg then ''-'' else []) @ ?r)) = (neg, ?r)"
  proof -
    have "\<not> is_space (CHR ''-'')" "\<not> is_space x" "x \<noteq> CHR ''-''" "x \<noteq> CHR ''+''"
      using x(2) is_digit_not_space is_digit_not_sign by (simp_all add: is_space_def)
    then show ?thesis by (simp add: split_sign_def x(1))
  qed
  have w: "takeWhile is_digit ?r = dec_nat w"
    by (rule takeWhile_digits [OF dec_nat_digits]) (simp add: is_digit_def)
  have f: "takeWhile is_digit (fr @ c # rest) = fr" by (rule takeWhile_digits [OF assms(1,2)])
  show ?thesis unfolding scan_decimal_def s Let_def prod.case w using f assms(3) by (simp add: digits_val_dec_nat)
qed

text \<open>
  What the shell shows of a temperature: a temperature that is not negative as it is; of a negative one
  the whole degrees only, because the sign of the hundredths ends the number.
\<close>

definition shown_temp :: "int \<Rightarrow> string" where
  "shown_temp t =
     (if 0 \<le> t then dec_nat (nat t div 100) @ ''.'' @ dec02 (t mod 100)
      else (if t \<le> - 100 then ''-'' else []) @ dec_nat (nat (- t) div 100) @ ''.00'')"

lemma print_hundredths:
  assumes "n < 2 ^ 22"
  shows "print_fixed2 neg (to_float (of_nat n / 100)) =
    (if neg then ''-'' else []) @ dec_nat (n div 100) @ ''.'' @ dec02 (int (n mod 100))"
  using hundredths_survive [OF assms] by (simp add: print_fixed2_def)

lemma dec02_zero: "dec02 0 = ''00''"
  by code_simp

lemma length_dec02: "0 \<le> i \<Longrightarrow> i < 100 \<Longrightarrow> length (dec02 i) = 2"
proof -
  assume i: "0 \<le> i" "i < 100"
  then have "nat i < 10 ^ 2" by (simp add: nat_less_iff)
  then have "length (dec_nat (nat i)) \<le> 2" by (rule length_dec_nat) simp
  then have "length (dec_nat (nat i)) = 1 \<or> length (dec_nat (nat i)) = 2" by (cases "dec_nat (nat i)") (auto simp: le_Suc_eq)
  then show ?thesis using i by (auto simp: dec02_def dec_int_def Let_def)
qed

lemma scan_temp_nonneg:
  assumes "0 \<le> t"
  shows "scan_decimal (temp_text t) = Some (False, of_nat (nat t) / 100)"
proof -
  have m: "0 \<le> t mod 100" "t mod 100 < 100" by simp_all
  have "temp_text t = (if False then ''-'' else []) @ dec_nat (nat (t div 100)) @ CHR ''.'' # dec02 (t mod 100) @ newline # []"
    using assms pos_imp_zdiv_nonneg_iff [of 100 t] by (simp add: temp_text_def sdiv_smod_100 dec_int_def)
  also have "scan_decimal \<dots> = Some (False, of_nat (nat (t div 100)) + of_nat (digits_val 0 (dec02 (t mod 100))) / 10 ^ length (dec02 (t mod 100)))"
    by (rule scan_decimal_text [OF dec02_digits [OF m(1)]]) (simp_all add: is_digit_def)
  also have "of_nat (nat (t div 100)) + of_nat (digits_val 0 (dec02 (t mod 100))) / 10 ^ length (dec02 (t mod 100)) =
      (of_nat (nat t) / 100 :: rat)"
  proof -
    have "nat t = nat (t div 100) * 100 + nat (t mod 100)"
      using assms m div_mult_mod_eq [of t 100] pos_imp_zdiv_nonneg_iff [of 100 t] by linarith
    then have "(of_nat (nat t) :: rat) = of_nat (nat (t div 100)) * 100 + of_nat (nat (t mod 100))"
      by (metis of_nat_add of_nat_mult of_nat_numeral)
    then show ?thesis using m by (simp add: length_dec02 dec02_val)
  qed
  finally show ?thesis .
qed

lemma scan_temp_negative:
  assumes "t < 0"
  shows "scan_decimal (temp_text t) = Some (t \<le> - 100, of_nat (nat (- t) div 100 * 100) / 100)"
proof -
  let ?n = "nat (- t)"
  have q: "t sdiv 100 = - int (?n div 100)" "t smod 100 = - int (?n mod 100)"
    using assms by (simp_all add: signed_divide_int_def signed_modulo_int_def sgn_if zdiv_int zmod_int minus_div_mult_eq_mod)
  have neg: "t \<le> - 100 \<longleftrightarrow> 0 < ?n div 100" using assms by (simp add: div_greater_zero_iff) linarith
  have d: "dec_int (t sdiv 100) = (if t \<le> - 100 then ''-'' else []) @ dec_nat (?n div 100)"
    unfolding neg q dec_int_def by simp
  show ?thesis
  proof (cases "?n mod 100 = 0")
    case True
    then have "temp_text t = (if t \<le> - 100 then ''-'' else []) @ dec_nat (?n div 100) @ CHR ''.'' # ''00'' @ newline # []"
      unfolding temp_text_def d unfolding q by (simp add: dec02_zero dec_int_def neg)
    with scan_decimal_text [of "''00''" newline "t \<le> - 100" "?n div 100" "[]"] show ?thesis
      by (simp add: is_digit_def)
  next
    case False
    then have "dec02 (t smod 100) = CHR ''-'' # dec_nat (?n mod 100)"
      unfolding q by (cases "dec_nat (?n mod 100)") (simp_all add: dec02_def dec_int_def Let_def)
    then have "temp_text t = (if t \<le> - 100 then ''-'' else []) @ dec_nat (?n div 100) @ CHR ''.'' # [] @ CHR ''-'' #
        (dec_nat (?n mod 100) @ [newline])"
      unfolding temp_text_def d by simp
    with scan_decimal_text [of "[]" "CHR ''-''" "t \<le> - 100" "?n div 100" "dec_nat (?n mod 100) @ [newline]"] show ?thesis
      by (simp add: is_digit_def)
  qed
qed

lemma float_temp_text:
  assumes "\<bar>t\<bar> < 2 ^ 22"
  shows "float_text other (temp_text t) = Some (shown_temp t)"
proof (cases "0 \<le> t")
  case True
  then have "nat t < 2 ^ 22" using assms by (simp add: nat_less_iff)
  from print_hundredths [OF this, of False] True show ?thesis
    by (simp add: float_text_def scan_temp_nonneg shown_temp_def zmod_int)
next
  case False
  then have "nat (- t) < 2 ^ 22" using assms by (simp add: nat_less_iff)
  then have "nat (- t) div 100 * 100 < 2 ^ 22" using div_times_less_eq_dividend [of "nat (- t)" 100] by linarith
  from print_hundredths [OF this, of "t \<le> - 100"] False show ?thesis
    by (simp add: float_text_def scan_temp_negative shown_temp_def dec02_zero)
qed

section \<open>The command\<close>

definition temp_line :: "int \<Rightarrow> string" where
  "temp_line t = ''Sensor read: '' @ shown_temp t @ [CHR 0xC2, CHR 0xB0] @ ''C'' @ [newline]"

definition temp_round_of :: "int \<Rightarrow> temp_round" where
  "temp_round_of t = \<lparr>tp_poll = 1, tp_read = Some (temp_text t)\<rparr>"

lemma whole_temp_text: "\<bar>t\<bar> < 2 ^ 22 \<Longrightarrow> cstr (take 99 (temp_text t)) = temp_text t"
proof -
  assume "\<bar>t\<bar> < 2 ^ 22"
  then have "fits t" by (auto simp: abs_less_iff)
  from temp_text_length [OF this] show ?thesis by (simp add: cbuf)
qed

lemma temp_loop_shows:
  assumes "\<forall>t \<in> set ts. \<bar>t\<bar> < 2 ^ 22" "ts \<noteq> []"
  shows "temp_loop (float_text other) (map temp_round_of ts @ later) (int (length ts)) s =
    (s\<lparr>shell_out := shell_out s @ concat (map temp_line ts)\<rparr>, True)"
  using assms
proof (induction ts arbitrary: s)
  case (Cons t ts)
  then have t: "\<bar>t\<bar> < 2 ^ 22" by simp
  note w = whole_temp_text [OF t] float_temp_text [OF t, of other]
  show ?case
  proof (cases ts)
    case Nil
    with w show ?thesis by (simp add: temp_round_of_def temp_line_def say_def)
  next
    case (Cons u us)
    with w Cons.IH Cons.prems show ?thesis by (simp add: temp_round_of_def temp_line_def say_def)
  qed
qed simp

lemma published_text:
  "workqueue_fn io cal d = Some d' \<Longrightarrow> show_attr Notify d' = temp_text (read_temperature io (dma_mode d) cal)"
  by (auto simp: workqueue_fn_def Let_def show_attr_def split: if_splits)

section \<open>Properties\<close>

text \<open>
  C11. The temperature reaches the shell: for any number of readings the work function publishes, the
  command \<open>temp\<close> with that count, woken after each, prints one line for each, in order, and returns with
  its descriptor closed. A reading below \<open>2 ^ 22\<close> hundredths that is not negative is shown to the hundredth,
  although it goes through a \<open>float\<close>; of a negative one only the whole degrees are shown.
\<close>

theorem temp_command_shows_readings:
  assumes "list_all2 (\<lambda>(io, cal, d) d'. workqueue_fn io cal d = Some d') jobs ds" "jobs \<noteq> []"
    and "\<forall>(io, cal, d) \<in> set jobs. \<bar>read_temperature io (dma_mode d) cal\<bar> < 2 ^ 22"
    and "int (length jobs) < 2 ^ 31" "0 \<le> temp_open env"
    and "temp_rounds env = map (\<lambda>d. \<lparr>tp_poll = 1, tp_read = Some (show_attr Notify d)\<rparr>) ds @ later"
  shows "toy_temp env [''temp'', dec_nat (length jobs)] s =
    Returns 1 (s\<lparr>shell_out := shell_out s @
      concat (map (\<lambda>(io, cal, d). temp_line (read_temperature io (dma_mode d) cal)) jobs)\<rparr>)"
proof -
  let ?ts = "map (\<lambda>(io, cal, d). read_temperature io (dma_mode d) cal) jobs"
  have "map (\<lambda>d. \<lparr>tp_poll = 1, tp_read = Some (show_attr Notify d)\<rparr>) ds = map temp_round_of ?ts"
    using assms(1) by (induction rule: list_all2_induct) (auto simp: temp_round_of_def published_text)
  moreover have "atoi (dec_nat (length jobs)) = int (length jobs)"
    using atoi_dec_int [of "int (length jobs)"] assms(4) by (simp add: dec_int_def)
  moreover have "\<forall>t \<in> set ?ts. \<bar>t\<bar> < 2 ^ 22" "?ts \<noteq> []" using assms(2,3) by auto
  ultimately show ?thesis
    using temp_loop_shows [of ?ts "temp_format env" later "fd_open (temp_open env) s"] assms(5,6)
    by (simp add: toy_temp_def Let_def fd_open_def fd_close_def comp_def case_prod_unfold)
qed

theorem temp_command_shows_readings_witness:
  "let job = (datasheet_io, datasheet_cal, temp_sysfs_start);
       d = temp_sysfs_start\<lparr>notify_value := 2508, notified := [''notify'']\<rparr>;
       env = idle_env\<lparr>temp_open := 5, temp_rounds := replicate 2 \<lparr>tp_poll = 1, tp_read = Some (show_attr Notify d)\<rparr>\<rparr>
   in \<exists>s. toy_temp env [''temp'', ''2''] shell_start = Returns 1 s \<and> open_fds s = [] \<and>
     shell_out s = temp_line 2508 @ temp_line 2508 \<and> shown_temp 2508 = ''25.08''"
proof -
  let ?job = "(datasheet_io, datasheet_cal, temp_sysfs_start)"
  let ?d = "temp_sysfs_start\<lparr>notify_value := 2508, notified := [''notify'']\<rparr>"
  let ?env = "idle_env\<lparr>temp_open := 5, temp_rounds := replicate 2 \<lparr>tp_poll = 1, tp_read = Some (show_attr Notify ?d)\<rparr>\<rparr>"
  have "raw_temperature (0x7E, 0xED, 0x00) = 519888" by (simp add: raw_temperature_def)
  then have t: "read_temperature datasheet_io mode datasheet_cal = 2508" for mode
    by (simp add: read_temperature_def datasheet_message) (simp add: datasheet_io_def compensate_def datasheet_cal_def Let_def)
  have "workqueue_fn datasheet_io datasheet_cal temp_sysfs_start = Some ?d"
    by (simp add: workqueue_fn_def t Let_def temp_sysfs_start_def)
  moreover have "dec_nat (length [?job, ?job]) = ''2''" by code_simp
  moreover have "shown_temp 2508 = ''25.08''" by code_simp
  ultimately show ?thesis
    using temp_command_shows_readings [of "[?job, ?job]" "[?d, ?d]" ?env "[]" shell_start] t
    by (simp add: shell_start_def numeral_2_eq_2)
qed

text \<open>Two readings that are not negative are shown alike only if they are equal.\<close>

lemma shown_temp_zero: "fits t \<Longrightarrow> shown_temp t = ''0.00'' \<longleftrightarrow> - 100 < t \<and> t \<le> 0"
proof (cases "0 \<le> t")
  case True
  assume f: "fits t"
  have "shown_temp u @ [newline] = temp_text u" if "0 \<le> u" for u
    using that pos_imp_zdiv_nonneg_iff [of 100 u]
    by (simp add: shown_temp_def temp_text_def sdiv_smod_100 dec_int_def nat_div_distrib)
  moreover have "shown_temp 0 = ''0.00''" by code_simp
  ultimately have "shown_temp t = ''0.00'' \<longleftrightarrow> temp_text t = temp_text 0" using True
    by (metis append_same_eq order_refl)
  also have "\<dots> \<longleftrightarrow> t = 0"
    using hundredths_temp_text [of t] hundredths_temp_text [of 0] True f by (metis order_refl)
  finally show ?thesis using True by auto
next
  case False
  have "dec_nat 0 = ''0''" by code_simp
  with False show ?thesis by (auto simp: shown_temp_def div_greater_zero_iff)
qed

text \<open>
  C30. A failed reading is shown as zero degrees: when a reading fails, for want of memory or in its transfer, the work
  function publishes the error number as the temperature, the attribute shows it as \<open>0.-12\<close> or \<open>0.-5\<close>, and the
  command \<open>temp\<close> prints 0.00 degrees for it and returns. It prints that line for exactly the temperatures from 0
  down to -0.99, so the user cannot tell a failure from them.
\<close>

theorem failed_reading_shown_as_zero:
  assumes "workqueue_fn io cal d = Some d'"
    and "\<not> tx_alloc io \<or> \<not> rx_alloc io \<or> fst (send_message io (dma_mode d)) < 0"
    and "0 \<le> temp_open env" "temp_rounds env = \<lparr>tp_poll = 1, tp_read = Some (show_attr Notify d')\<rparr> # later" "\<bar>t\<bar> < 2 ^ 22"
  shows "show_attr Notify d' = (if \<not> tx_alloc io \<or> \<not> rx_alloc io then ''0.-12'' else ''0.-5'') @ [newline] \<and>
    toy_temp env [''temp''] s = Returns 1 (s\<lparr>shell_out := shell_out s @ ''Sensor read: 0.00'' @ [CHR 0xC2, CHR 0xB0] @ ''C'' @ [newline]\<rparr>) \<and>
    (temp_line t = ''Sensor read: 0.00'' @ [CHR 0xC2, CHR 0xB0] @ ''C'' @ [newline] \<longleftrightarrow> - 100 < t \<and> t \<le> 0)"
proof -
  let ?t = "read_temperature io (dma_mode d) cal"
  have r: "?t = (if \<not> tx_alloc io \<or> \<not> rx_alloc io then - 12 else - 5)" using failed_reading [OF assms(2)] .
  have txts: "temp_text (- 12) = ''0.-12'' @ [newline]" "temp_text (- 5) = ''0.-5'' @ [newline]" by code_simp+
  have p: "show_attr Notify d' = temp_text ?t" by (rule published_text [OF assms(1)])
  have zero: "temp_line u = ''Sensor read: 0.00'' @ [CHR 0xC2, CHR 0xB0] @ ''C'' @ [newline] \<longleftrightarrow> - 100 < u \<and> u \<le> 0"
    if "\<bar>u\<bar> < 2 ^ 22" for u
  proof -
    have "fits u" using that by (auto simp: abs_less_iff)
    from shown_temp_zero [OF this] show ?thesis by (simp add: temp_line_def)
  qed
  have b: "\<bar>?t\<bar> < 2 ^ 22" "- 100 < ?t \<and> ?t \<le> 0" by (simp_all add: r)
  have rd: "temp_rounds env = map temp_round_of [?t] @ later" by (simp add: assms(4) p temp_round_of_def)
  have "toy_temp env [''temp''] s = Returns 1 (s\<lparr>shell_out := shell_out s @ temp_line ?t\<rparr>)"
    using temp_loop_shows [of "[?t]" "temp_format env" later "fd_open (temp_open env) s"] assms(3) b(1)
    unfolding toy_temp_def rd by (simp add: Let_def fd_open_def fd_close_def)
  moreover have "temp_line ?t = ''Sensor read: 0.00'' @ [CHR 0xC2, CHR 0xB0] @ ''C'' @ [newline]"
    using zero [OF b(1)] b(2) by blast
  ultimately show ?thesis using zero [OF assms(5)] p r txts by simp
qed

theorem failed_reading_shown_as_zero_witness:
  "let io = datasheet_io\<lparr>spi_sync := (\<lambda>tx ts buf. (- 110, buf))\<rparr>;
       env = idle_env\<lparr>temp_open := 5, temp_rounds := [\<lparr>tp_poll = 1, tp_read = Some (''0.-5'' @ [newline])\<rparr>]\<rparr>
   in \<exists>d'. workqueue_fn io datasheet_cal temp_sysfs_start = Some d' \<and> show_attr Notify d' = ''0.-5'' @ [newline] \<and>
     toy_temp env [''temp''] shell_start = Returns 1 (shell_start\<lparr>shell_out := temp_line 0\<rparr>)"
proof -
  let ?io = "datasheet_io\<lparr>spi_sync := (\<lambda>tx ts buf. (- 110, buf))\<rparr>"
  let ?env = "idle_env\<lparr>temp_open := 5, temp_rounds := [\<lparr>tp_poll = 1, tp_read = Some (''0.-5'' @ [newline])\<rparr>]\<rparr>"
  obtain d' where w: "workqueue_fn ?io datasheet_cal temp_sysfs_start = Some d'"
    by (simp add: workqueue_fn_def temp_sysfs_start_def Let_def)
  have f: "fst (send_message ?io (dma_mode temp_sysfs_start)) < 0" "tx_alloc ?io" "rx_alloc ?io"
    by (simp_all add: send_message_def datasheet_io_def)
  note claim = failed_reading_shown_as_zero [OF w disjI2 [OF disjI2 [OF f(1)]]]
  have n: "show_attr Notify d' = ''0.-5'' @ [newline]"
    using claim [of "idle_env\<lparr>temp_open := 5, temp_rounds := [\<lparr>tp_poll = 1, tp_read = Some (show_attr Notify d')\<rparr>]\<rparr>" "[]" 0] f(2,3)
    by simp
  from claim [of ?env "[]" 0 shell_start] f(2,3) w n show ?thesis by (simp add: shell_start_def)
qed

end
