(* ===== verification/Lab_Dumpstate.thy ===== *)
theory Lab_Dumpstate
  imports Lab_Prelude
begin

text \<open>
  \<open>src/utils/dumpstate.c\<close>: the report of the monitor thread. The file system, the process list and
  the kernel log are a parameter; every function gives the text it prints, \<open>None\<close> where it reads past
  a buffer.
\<close>

section \<open>The system below\<close>

text \<open>
  A file either cannot be opened, with the error text, or is read in chunks, each as large as one
  \<open>read\<close> returns, with the number of bytes \<open>fwrite\<close> gets out of it, up to the end of the file or a failed
  read. \<open>file_stamp\<close> is the time of the last
  change as printed (\<open>None\<close> when \<open>fstat\<close> fails). The small files under \<open>/proc\<close> are read with one call
  from the text they have. \<open>Klog\<close> is the kernel log, of which one call takes what fits.
\<close>

datatype small = No_open string | No_read string | Has string

datatype file_read = Chunk string nat | Read_error

datatype klog = Klog_denied | Klog_error string | Klog string

record dump_os =
  file_chunks :: "string \<Rightarrow> string + file_read list"
  file_stamp :: "string \<Rightarrow> string option"
  dir_names :: "string \<Rightarrow> string + string list"
  small_file :: "string \<Rightarrow> small"
  klog_size :: int
  klog_malloc :: bool
  klog_read :: klog
  dump_date :: string

definition line :: "string \<Rightarrow> string" where
  "line t = t @ [newline]"

section \<open>Files\<close>

definition PROC :: string where
  "PROC = ''/proc/''"

text \<open>
  The copying loop: the text written and whether the last chunk read ended in a newline. A chunk that
  cannot be written whole ends it.
\<close>

fun copy_chunks :: "file_read list \<Rightarrow> bool \<Rightarrow> string \<times> bool" where
  "copy_chunks [] nl = ([], nl)"
| "copy_chunks (Read_error # rs) nl = ([], nl)"
| "copy_chunks (Chunk c n # rs) nl =
     (if c = [] then ([], nl)
      else if n < length c then (take n c, last c = newline)
      else let (t, nl') = copy_chunks rs (last c = newline) in (c @ t, nl'))"

definition dump_file :: "dump_os \<Rightarrow> string option \<Rightarrow> string \<Rightarrow> int \<times> string" where
  "dump_file os title path =
     (case file_chunks os path of
        Inl err \<Rightarrow>
          (-1, (case title of Some t \<Rightarrow> line (''------ '' @ t @ '' ('' @ path @ '') ------'') | None \<Rightarrow> [])
               @ line (''*** '' @ path @ '': '' @ err)
               @ (if title \<noteq> None then [newline] else []))
      | Inr chunks \<Rightarrow>
          let head = (case title of
                None \<Rightarrow> []
              | Some t \<Rightarrow> ''------ '' @ t @ '' ('' @ path
                  @ (if take 6 path \<noteq> PROC \<and> take 5 path \<noteq> ''/sys/''
                     then (case file_stamp os path of Some st \<Rightarrow> '': '' @ st | None \<Rightarrow> []) else [])
                  @ line '') ------'');
              (body, nl) = copy_chunks chunks False
          in (0, head @ body @ (if nl then [] else [newline]) @ (if title \<noteq> None then [newline] else [])))"

section \<open>Processes\<close>

text \<open>One read of at most 254 bytes into a zeroed buffer of 255.\<close>

definition read_name :: "dump_os \<Rightarrow> string \<Rightarrow> string" where
  "read_name os path =
     (case small_file os path of
        No_open _ \<Rightarrow> ''N/A''
      | No_read _ \<Rightarrow> []
      | Has d \<Rightarrow> cstr (take 254 d))"

definition quote :: char where
  "quote = CHR 0x27"

definition pad :: "nat \<Rightarrow> string \<Rightarrow> string" where
  "pad n t = t @ replicate (n - length t) CHR '' ''"

text \<open>Here the read may fill all 255 bytes of the buffer.\<close>

definition show_wchan :: "dump_os \<Rightarrow> int \<Rightarrow> int \<Rightarrow> string \<Rightarrow> string option" where
  "show_wchan os pid tid name =
     (let path = PROC @ dec_int tid @ ''/wchan'' in
      case small_file os path of
        No_open err \<Rightarrow> Some (line (''Failed to open '' @ [quote] @ path @ [quote] @ '' ('' @ err @ '')''))
      | No_read err \<Rightarrow> Some (line (''Failed to read '' @ [quote] @ path @ [quote] @ '' ('' @ err @ '')''))
      | Has d \<Rightarrow>
          let buffer = take 255 d @ replicate (255 - length d) NUL in
          if NUL \<notin> set buffer then None
          else let name_buffer = take 254 ((if pid = tid then [] else ''   '') @ name)
               in Some (line (pad 7 (dec_int tid) @ '' '' @ pad 32 name_buffer @ '' '' @ cstr buffer)))"

fun tid_loop :: "dump_os \<Rightarrow> (int \<Rightarrow> int \<Rightarrow> string \<Rightarrow> string option) \<Rightarrow> int \<Rightarrow> string list \<Rightarrow> string option" where
  "tid_loop os func pid [] = Some []"
| "tid_loop os func pid (n # ns) =
     (let tid = atoi n in
      if tid = 0 \<or> tid = pid then tid_loop os func pid ns
      else let comm = read_name os (PROC @ dec_int tid @ ''/comm'');
               comm' = (case small_file os (PROC @ dec_int tid @ ''/comm'') of
                          No_open _ \<Rightarrow> comm
                        | _ \<Rightarrow> (case strrchr comm newline of Some i \<Rightarrow> take i comm | None \<Rightarrow> comm))
           in (case func pid tid comm' of
                 None \<Rightarrow> None
               | Some t \<Rightarrow> map_option (\<lambda>r. t @ r) (tid_loop os func pid ns)))"

definition for_each_tid_helper ::
    "dump_os \<Rightarrow> (int \<Rightarrow> int \<Rightarrow> string \<Rightarrow> string option) \<Rightarrow> int \<Rightarrow> string \<Rightarrow> string option" where
  "for_each_tid_helper os func pid cmdline =
     (let taskpath = PROC @ dec_int pid @ ''/task'' in
      case dir_names os taskpath of
        Inl err \<Rightarrow> Some (line (''Failed to open '' @ taskpath @ '' ('' @ err @ '')''))
      | Inr names \<Rightarrow>
          (case func pid pid cmdline of
             None \<Rightarrow> None
           | Some t \<Rightarrow> map_option (\<lambda>r. t @ r) (tid_loop os func pid names)))"

fun pid_loop :: "dump_os \<Rightarrow> (int \<Rightarrow> string \<Rightarrow> string option) \<Rightarrow> string list \<Rightarrow> string option" where
  "pid_loop os helper [] = Some []"
| "pid_loop os helper (n # ns) =
     (let pid = atoi n in
      if pid = 0 then pid_loop os helper ns
      else (case helper pid (read_name os (PROC @ dec_int pid @ ''/cmdline'')) of
              None \<Rightarrow> None
            | Some t \<Rightarrow> map_option (\<lambda>r. t @ r) (pid_loop os helper ns)))"

definition for_each_pid_gen :: "dump_os \<Rightarrow> (int \<Rightarrow> string \<Rightarrow> string option) \<Rightarrow> string \<Rightarrow> string option" where
  "for_each_pid_gen os helper header =
     (case dir_names os ''/proc'' of
        Inl err \<Rightarrow> Some (line (''Failed to open /proc ('' @ err @ '')''))
      | Inr names \<Rightarrow>
          map_option (\<lambda>r. [newline] @ line (''------ '' @ header @ '' ------'') @ r) (pid_loop os helper names))"

definition for_each_pid_helper :: "(int \<Rightarrow> string \<Rightarrow> string option) \<Rightarrow> int \<Rightarrow> string \<Rightarrow> string option" where
  "for_each_pid_helper func pid cmdline = func pid cmdline"

definition for_each_pid :: "dump_os \<Rightarrow> (int \<Rightarrow> string \<Rightarrow> string option) \<Rightarrow> string \<Rightarrow> string option" where
  "for_each_pid os func header = for_each_pid_gen os (for_each_pid_helper func) header"

definition for_each_tid :: "dump_os \<Rightarrow> (int \<Rightarrow> int \<Rightarrow> string \<Rightarrow> string option) \<Rightarrow> string \<Rightarrow> string option" where
  "for_each_tid os func header = for_each_pid_gen os (for_each_tid_helper os func) header"

section \<open>The kernel log\<close>

definition do_dmesg :: "dump_os \<Rightarrow> string" where
  "do_dmesg os =
     line ''------ KERNEL LOG (dmesg) ------'' @
     (if klog_size os \<le> 0
      then line (''Unexpected klogctl return value: '' @ dec_int (klog_size os)) @ [newline]
      else if \<not> klog_malloc os then line ''memory allocation failed'' @ [newline]
      else (case klog_read os of
              Klog_denied \<Rightarrow> line ''Kernel log access denied. Running without root or CAP_SYSLOG.'' @ [newline]
            | Klog_error err \<Rightarrow> line (''klogctl failure: '' @ err) @ [newline]
            | Klog t \<Rightarrow> line (cstr (take (nat (klog_size os)) t)) @ [newline]))"

section \<open>Redirection\<close>

text \<open>
  The paths given to \<open>mkdir\<close>: everything before each slash from position \<open>pos\<close> on.
\<close>

function mkdir_loop :: "string \<Rightarrow> nat \<Rightarrow> string list" where
  "mkdir_loop path pos =
     (if pos < length path
      then (case strchr (drop pos path) CHR ''/'' of
              None \<Rightarrow> []
            | Some i \<Rightarrow> take (pos + i) path # mkdir_loop path (Suc (pos + i)))
      else [])"
  by pat_completeness auto
termination
  by (relation "measure (\<lambda>(path, pos). length path - pos)") auto

declare mkdir_loop.simps [simp del]

datatype redir_ev = R_mkdir string | R_open int | R_pipe int int | R_dup2 int int | R_close int | R_exec "string list"

datatype redir_end = R_exit int | R_returns int

text \<open>
  The results of \<open>open\<close>, \<open>pipe\<close> and \<open>fork\<close>. In the child, what follows \<open>R_exec\<close> is how it ends when
  \<open>execlp\<close> fails; otherwise it becomes \<open>gzip\<close> there.
\<close>

record redir_os =
  redir_open :: int
  redir_pipe :: "(int \<times> int) option"
  redir_fork :: int

definition redirect_to_file :: "redir_os \<Rightarrow> int \<Rightarrow> string \<Rightarrow> int \<Rightarrow> redir_ev list \<times> redir_end" where
  "redirect_to_file os redirect path gzip_level =
     (let e0 = map R_mkdir (mkdir_loop path (if take 1 path = ''/'' then 1 else 0)); fd = redir_open os in
      if fd < 0 then (e0, R_exit 1)
      else let e1 = e0 @ [R_open fd] in
        if gzip_level > 0
        then (case redir_pipe os of
                None \<Rightarrow> (e1, R_exit 1)
              | Some (r, w) \<Rightarrow>
                  let e2 = e1 @ [R_pipe r w]; pid = redir_fork os in
                  if pid < 0 then (e2, R_exit 1)
                  else if pid = 0
                  then (e2 @ [R_dup2 r 0, R_dup2 fd 1, R_close fd, R_close r, R_close w,
                          R_exec [''gzip'', ''-'' @ dec_int gzip_level]], R_exit (-1))
                  else (e2 @ [R_close fd, R_close r, R_dup2 w redirect, R_close w], R_returns pid))
        else (e1 @ [R_dup2 fd redirect, R_close fd], R_returns (-1)))"

section \<open>The report\<close>

definition rule :: string where
  "rule = line (replicate 56 CHR ''='')"

definition dumpstate :: "dump_os \<Rightarrow> string option" where
  "dumpstate os =
     (let f = (\<lambda>t p. snd (dump_file os (Some t) p)) in
      map_option (\<lambda>threads.
        rule @ line (''== dumpstate: '' @ dump_date os) @ rule @ [newline] @
        ''Kernel: '' @ snd (dump_file os None ''/proc/version'') @ [newline] @
        f ''MEMORY INFO'' ''/proc/meminfo'' @ f ''VIRTUAL MEMORY STATS'' ''/proc/vmstat'' @
        f ''VMALLOC INFO'' ''/proc/vmallocinfo'' @ f ''SLAB INFO'' ''/proc/slabinfo'' @
        f ''ZONEINFO'' ''/proc/zoneinfo'' @ f ''PAGETYPEINFO'' ''/proc/pagetypeinfo'' @
        f ''BUDDYINFO'' ''/proc/buddyinfo'' @ do_dmesg os @ threads @
        f ''NETWORK DEV INFO'' ''/proc/net/dev'' @ f ''NETWORK ROUTES'' ''/proc/net/route'' @
        f ''NETWORK ROUTES IPV6'' ''/proc/net/ipv6_route'' @ f ''INTERRUPTS (1)'' ''/proc/interrupts'' @
        [newline] @ rule @ line ''== dumpstate: done'' @ rule)
      (for_each_tid os (show_wchan os) ''BLOCKED PROCESS WAIT-CHANNELS''))"


section \<open>Lemmas\<close>

text \<open>What a file holds up to its end or a failed read.\<close>

fun file_text :: "file_read list \<Rightarrow> string" where
  "file_text [] = []"
| "file_text (Read_error # rs) = []"
| "file_text (Chunk c n # rs) = (if c = [] then [] else c @ file_text rs)"

fun fwritten :: "file_read \<Rightarrow> bool" where
  "fwritten (Chunk c n) \<longleftrightarrow> length c \<le> n"
| "fwritten Read_error \<longleftrightarrow> True"

text \<open>A text with a newline at its end, added when it has none.\<close>

definition ended :: "string \<Rightarrow> string" where
  "ended t = t @ (if t \<noteq> [] \<and> last t = newline then [] else [newline])"

lemma ended_last [simp]: "last (ended t) = newline" "ended t \<noteq> []"
  by (auto simp: ended_def)

lemma copy_chunks_text:
  "\<forall>r \<in> set rs. fwritten r \<Longrightarrow>
     copy_chunks rs nl = (file_text rs, if file_text rs = [] then nl else last (file_text rs) = newline)"
  by (induction rs nl rule: copy_chunks.induct) auto

lemma file_text_whole: "\<forall>c \<in> set cs. c \<noteq> [] \<Longrightarrow> rest = [] \<or> rest = [Read_error] \<Longrightarrow>
    file_text (map (\<lambda>c. Chunk c (length c)) cs @ rest) = concat cs"
  by (induction cs) auto

lemma last_line [simp]: "last (x @ line t) = newline" "line t \<noteq> []" "last (line t) = newline"
  by (simp_all add: line_def)

lemma strchr_filter:
  "filter (\<lambda>i. path ! i = c) [pos..<length path] =
     (case strchr (drop pos path) c of
        None \<Rightarrow> []
      | Some i \<Rightarrow> (pos + i) # filter (\<lambda>i. path ! i = c) [Suc (pos + i)..<length path])"
proof (cases "strchr (drop pos path) c")
  case None
  then have n: "c \<notin> set (drop pos path)" by (simp add: strchr_None)
  have "path ! i \<noteq> c" if "pos \<le> i" "i < length path" for i
  proof -
    have "path ! i = drop pos path ! (i - pos)" using that by simp
    then show ?thesis using n that by (metis diff_less_mono length_drop nth_mem)
  qed
  then have "filter (\<lambda>i. path ! i = c) [pos..<length path] = []" by (simp add: filter_empty_conv)
  with None show ?thesis by simp
next
  case (Some i)
  from strchr_Some [OF Some] have i: "i < length path - pos" "drop pos path ! i = c" "c \<notin> set (take i (drop pos path))"
    by auto
  have split: "[pos..<length path] = [pos..<pos + i] @ (pos + i) # [Suc (pos + i)..<length path]"
    using i(1) upt_add_eq_append [of pos "pos + i" "length path - (pos + i)"] by (simp add: upt_conv_Cons)
  have "path ! j \<noteq> c" if "pos \<le> j" "j < pos + i" for j
  proof -
    have "take i (drop pos path) ! (j - pos) = path ! j" using that i(1) by simp
    moreover have "j - pos < length (take i (drop pos path))" using that i(1) by auto
    ultimately show ?thesis using i(3) by (metis nth_mem)
  qed
  then have "filter (\<lambda>i. path ! i = c) [pos..<pos + i] = []" by (simp add: filter_empty_conv)
  moreover have "path ! (pos + i) = c" using i(1,2) by simp
  ultimately show ?thesis unfolding split by (simp add: Some)
qed

lemma mkdir_loop_prefixes:
  "mkdir_loop path pos = map (\<lambda>i. take i path) (filter (\<lambda>i. path ! i = CHR ''/'') [pos..<length path])"
proof (induction path pos rule: mkdir_loop.induct)
  case (1 path pos)
  show ?case
  proof (cases "pos < length path")
    case True
    show ?thesis
    proof (cases "strchr (drop pos path) CHR ''/''")
      case None
      then show ?thesis using True by (subst mkdir_loop.simps) (subst strchr_filter, simp)
    next
      case (Some i)
      with 1 [OF True Some] True show ?thesis
        by (subst mkdir_loop.simps) (subst strchr_filter, simp)
    qed
  qed (subst mkdir_loop.simps, simp)
qed

text \<open>The descriptors held after the events of a redirection in the parent.\<close>

fun redir_held :: "redir_ev list \<Rightarrow> int list \<Rightarrow> int list" where
  "redir_held [] h = h"
| "redir_held (R_open fd # es) h = redir_held es (h @ [fd])"
| "redir_held (R_pipe r w # es) h = redir_held es (h @ [r, w])"
| "redir_held (R_close fd # es) h = redir_held es (remove1 fd h)"
| "redir_held (_ # es) h = redir_held es h"

lemma redir_held_mkdir: "redir_held (map R_mkdir ds @ es) h = redir_held es h"
  by (induction ds) auto

text \<open>The threads of a process that are listed after it, and its name in the list.\<close>

definition other_tids :: "int \<Rightarrow> string list \<Rightarrow> int list" where
  "other_tids pid names = filter (\<lambda>t. t \<noteq> 0 \<and> t \<noteq> pid) (map atoi names)"

definition comm_name :: "dump_os \<Rightarrow> int \<Rightarrow> string" where
  "comm_name os tid =
     (let comm = read_name os (PROC @ dec_int tid @ ''/comm'') in
      case small_file os (PROC @ dec_int tid @ ''/comm'') of
        No_open _ \<Rightarrow> comm
      | _ \<Rightarrow> (case strrchr comm newline of Some i \<Rightarrow> take i comm | None \<Rightarrow> comm))"

lemma tid_loop_cond:
  "(\<And>t n. f pid t n = (if bad t then None else Some (g t n))) \<Longrightarrow>
     tid_loop os f pid names =
       (if \<exists>t \<in> set (other_tids pid names). bad t then None
        else Some (concat (map (\<lambda>t. g t (comm_name os t)) (other_tids pid names))))"
  by (induction names) (simp_all add: other_tids_def comm_name_def Let_def)

section \<open>The report, by specification\<close>

text \<open>
  \<open>wchan_full\<close>: the wait channel of a thread fills the buffer without a terminator. \<open>wchan_line\<close>: the line of
  a thread otherwise.
\<close>

definition wchan_full :: "dump_os \<Rightarrow> int \<Rightarrow> bool" where
  "wchan_full os tid \<longleftrightarrow>
     (case small_file os (PROC @ dec_int tid @ ''/wchan'') of Has d \<Rightarrow> 255 \<le> length d \<and> NUL \<notin> set (take 255 d) | _ \<Rightarrow> False)"

definition wchan_line :: "dump_os \<Rightarrow> int \<Rightarrow> int \<Rightarrow> string \<Rightarrow> string" where
  "wchan_line os pid tid name =
     (let path = PROC @ dec_int tid @ ''/wchan'' in
      case small_file os path of
        No_open err \<Rightarrow> line (''Failed to open '' @ [quote] @ path @ [quote] @ '' ('' @ err @ '')'')
      | No_read err \<Rightarrow> line (''Failed to read '' @ [quote] @ path @ [quote] @ '' ('' @ err @ '')'')
      | Has d \<Rightarrow> line (pad 7 (dec_int tid) @ '' '' @ pad 32 (take 254 ((if pid = tid then [] else ''   '') @ name)) @ '' '' @
          cstr (take 255 d)))"

lemma cstr_padded: "cstr (x @ replicate n NUL) = cstr x"
  by (induction x) (simp_all add: cstr_def takeWhile_append)

lemma show_wchan_cond: "show_wchan os pid tid name = (if wchan_full os tid then None else Some (wchan_line os pid tid name))"
proof (cases "small_file os (PROC @ dec_int tid @ ''/wchan'')")
  case (Has d)
  have "NUL \<notin> set (take 255 d @ replicate (255 - length d) NUL) \<longleftrightarrow> 255 \<le> length d \<and> NUL \<notin> set (take 255 d)" by auto
  with Has show ?thesis
    unfolding show_wchan_def wchan_full_def wchan_line_def Let_def by (simp add: cstr_padded)
qed (simp_all add: show_wchan_def wchan_full_def wchan_line_def Let_def)

text \<open>
  The processes are the numeric entries of \<open>/proc\<close>, in order. The threads of a process are the process
  itself under its command line and then each other entry of its task directory under its name.
\<close>

definition proc_pids :: "dump_os \<Rightarrow> int list" where
  "proc_pids os = (case dir_names os ''/proc'' of Inl _ \<Rightarrow> [] | Inr names \<Rightarrow> filter (\<lambda>p. p \<noteq> 0) (map atoi names))"

definition proc_threads :: "dump_os \<Rightarrow> int \<Rightarrow> (int \<times> string) list" where
  "proc_threads os p =
     (case dir_names os (PROC @ dec_int p @ ''/task'') of
        Inl _ \<Rightarrow> []
      | Inr names \<Rightarrow> (p, read_name os (PROC @ dec_int p @ ''/cmdline'')) # map (\<lambda>t. (t, comm_name os t)) (other_tids p names))"

definition process_spec :: "dump_os \<Rightarrow> int \<Rightarrow> string" where
  "process_spec os p =
     (case dir_names os (PROC @ dec_int p @ ''/task'') of
        Inl err \<Rightarrow> line (''Failed to open '' @ PROC @ dec_int p @ ''/task ('' @ err @ '')'')
      | Inr _ \<Rightarrow> concat (map (\<lambda>(t, name). wchan_line os p t name) (proc_threads os p)))"

definition threads_spec :: "dump_os \<Rightarrow> string \<Rightarrow> string" where
  "threads_spec os header =
     (case dir_names os ''/proc'' of
        Inl err \<Rightarrow> line (''Failed to open /proc ('' @ err @ '')'')
      | Inr _ \<Rightarrow> [newline] @ line (''------ '' @ header @ '' ------'') @ concat (map (process_spec os) (proc_pids os)))"

lemma tid_helper_cond:
  "for_each_tid_helper os (show_wchan os) p (read_name os (PROC @ dec_int p @ ''/cmdline'')) =
     (if \<exists>(t, name) \<in> set (proc_threads os p). wchan_full os t then None else Some (process_spec os p))"
proof (cases "dir_names os (PROC @ dec_int p @ ''/task'')")
  case (Inr names)
  note l = tid_loop_cond [of "show_wchan os" p "wchan_full os" "wchan_line os p" os names, OF show_wchan_cond]
  show ?thesis
    using Inr by (auto simp: for_each_tid_helper_def Let_def l show_wchan_cond process_spec_def proc_threads_def comp_def)
qed (simp add: for_each_tid_helper_def process_spec_def proc_threads_def)

lemma pid_loop_threads:
  "pid_loop os (for_each_tid_helper os (show_wchan os)) names =
     (if \<exists>p \<in> set (filter (\<lambda>p. p \<noteq> 0) (map atoi names)). \<exists>(t, name) \<in> set (proc_threads os p). wchan_full os t then None
      else Some (concat (map (process_spec os) (filter (\<lambda>p. p \<noteq> 0) (map atoi names)))))"
  by (induction names) (auto simp: Let_def tid_helper_cond)

lemma for_each_tid_threads:
  "for_each_tid os (show_wchan os) header =
     (if \<exists>p \<in> set (proc_pids os). \<exists>(t, name) \<in> set (proc_threads os p). wchan_full os t then None
      else Some (threads_spec os header))"
  by (cases "dir_names os ''/proc''")
    (auto simp: for_each_tid_def for_each_pid_gen_def pid_loop_threads proc_pids_def threads_spec_def)

text \<open>A section of the report: heading, the file with a newline at its end, an empty line.\<close>

definition section_spec :: "dump_os \<Rightarrow> string \<times> string \<Rightarrow> string" where
  "section_spec os = (\<lambda>(title, path).
     line (''------ '' @ title @ '' ('' @ path @ '') ------'') @
     (case file_chunks os path of Inl err \<Rightarrow> line (''*** '' @ path @ '': '' @ err) | Inr rs \<Rightarrow> ended (file_text rs)) @ [newline])"

definition sections_before :: "(string \<times> string) list" where
  "sections_before = [(''MEMORY INFO'', ''/proc/meminfo''), (''VIRTUAL MEMORY STATS'', ''/proc/vmstat''),
     (''VMALLOC INFO'', ''/proc/vmallocinfo''), (''SLAB INFO'', ''/proc/slabinfo''), (''ZONEINFO'', ''/proc/zoneinfo''),
     (''PAGETYPEINFO'', ''/proc/pagetypeinfo''), (''BUDDYINFO'', ''/proc/buddyinfo'')]"

definition sections_after :: "(string \<times> string) list" where
  "sections_after = [(''NETWORK DEV INFO'', ''/proc/net/dev''), (''NETWORK ROUTES'', ''/proc/net/route''),
     (''NETWORK ROUTES IPV6'', ''/proc/net/ipv6_route''), (''INTERRUPTS (1)'', ''/proc/interrupts'')]"

definition kernel_spec :: "dump_os \<Rightarrow> string" where
  "kernel_spec os = ''Kernel: '' @
     (case file_chunks os ''/proc/version'' of Inl err \<Rightarrow> line (''*** /proc/version: '' @ err) | Inr rs \<Rightarrow> ended (file_text rs)) @ [newline]"

definition all_fwritten :: "dump_os \<Rightarrow> bool" where
  "all_fwritten os \<longleftrightarrow> (\<forall>p rs. file_chunks os p = Inr rs \<longrightarrow> (\<forall>r \<in> set rs. fwritten r))"

lemma dump_file_section:
  assumes "all_fwritten os" "take 6 path = PROC"
  shows "snd (dump_file os (Some title) path) = section_spec os (title, path)"
proof (cases "file_chunks os path")
  case (Inr rs)
  with assms copy_chunks_text [of rs False] show ?thesis
    by (auto simp: all_fwritten_def dump_file_def section_spec_def ended_def line_def)
qed (simp add: dump_file_def section_spec_def)

lemma dump_file_untitled:
  assumes "all_fwritten os"
  shows "''Kernel: '' @ snd (dump_file os None ''/proc/version'') @ [newline] = kernel_spec os"
proof (cases "file_chunks os ''/proc/version''")
  case (Inr rs)
  with assms copy_chunks_text [of rs False] show ?thesis
    by (auto simp: all_fwritten_def dump_file_def kernel_spec_def ended_def)
qed (simp add: dump_file_def kernel_spec_def line_def)

section \<open>Properties\<close>

text \<open>
  C32. \<open>dump_file\<close> prints the whole file, whatever the sizes of its reads, after a heading when there is
  a title, adds a newline exactly when the file does not end in one, and an empty line after a titled
  section; of a file with a read that fails it prints what was read before. A file that cannot be opened gives -1
  and its error, nothing else does. Everything it prints ends in a newline, as long as the output can be written.
\<close>

theorem dump_file_complete:
  "((\<forall>rs. file_chunks os path = Inr rs \<longrightarrow> (\<forall>r \<in> set rs. fwritten r)) \<longrightarrow> last (snd (dump_file os title path)) = newline) \<and>
   (fst (dump_file os title path) = -1 \<longleftrightarrow> (\<exists>err. file_chunks os path = Inl err)) \<and>
   (\<forall>cs rest. file_chunks os path = Inr (map (\<lambda>c. Chunk c (length c)) cs @ rest) \<and> (\<forall>c \<in> set cs. c \<noteq> []) \<and>
       (rest = [] \<or> rest = [Read_error]) \<longrightarrow>
     (\<exists>head. snd (dump_file os title path) = head @ concat cs @
        (if concat cs \<noteq> [] \<and> last (concat cs) = newline then [] else [newline]) @ (if title = None then [] else [newline]) \<and>
        (title = None \<longrightarrow> head = [])))"
proof (cases "file_chunks os path")
  case (Inl err)
  then show ?thesis by (cases title) (simp_all add: dump_file_def)
next
  case (Inr rs)
  obtain body nl where c: "copy_chunks rs False = (body, nl)" by (cases "copy_chunks rs False")
  obtain head where h: "dump_file os title path =
      (0, head @ body @ (if nl then [] else [newline]) @ (if title \<noteq> None then [newline] else []))"
    "title = None \<Longrightarrow> head = []"
    using Inr c by (cases title) (simp_all add: dump_file_def Let_def)
  have b: "body = file_text rs \<and> nl = (file_text rs \<noteq> [] \<and> last (file_text rs) = newline)" if "\<forall>r \<in> set rs. fwritten r"
    using copy_chunks_text [OF that, of False] c by auto
  then have "last (snd (dump_file os title path)) = newline" if "\<forall>r \<in> set rs. fwritten r"
    using that by (auto simp: h(1))
  moreover have "body = concat cs \<and> nl = (concat cs \<noteq> [] \<and> last (concat cs) = newline)"
    if "rs = map (\<lambda>c. Chunk c (length c)) cs @ rest" "\<forall>c \<in> set cs. c \<noteq> []" "rest = [] \<or> rest = [Read_error]" for cs rest
  proof -
    have "\<forall>r \<in> set rs. fwritten r" using that by auto
    moreover have "file_text rs = concat cs" unfolding that(1) by (rule file_text_whole) (use that(2,3) in auto)
    ultimately show ?thesis using b by simp
  qed
  ultimately show ?thesis using Inr h by auto
qed

definition dump_sample :: dump_os where
  "dump_sample = \<lparr>file_chunks = (\<lambda>p. if p = ''/proc/version'' then Inr [Chunk ''Linux'' 5, Chunk '' 6.6'' 4] else Inl ''denied''),
     file_stamp = (\<lambda>_. None), dir_names = (\<lambda>p. if p = ''/proc'' then Inr [''self'', ''7''] else Inr [''7'', ''9'']),
     small_file = (\<lambda>p. if p = ''/proc/9/wchan'' then Has (replicate 255 CHR ''x'') else Has ''0''),
     klog_size = -1, klog_malloc = True, klog_read = Klog_denied, dump_date = ''now''\<rparr>"

theorem dump_file_complete_witness:
  "snd (dump_file dump_sample None ''/proc/version'') = ''Linux 6.6'' @ [newline]"
proof -
  have "file_chunks dump_sample ''/proc/version'' = Inr (map (\<lambda>c. Chunk c (length c)) [''Linux'', '' 6.6''] @ [])"
    by (simp add: dump_sample_def)
  with conjunct2 [OF conjunct2 [OF dump_file_complete [of dump_sample "''/proc/version''" None]], rule_format,
      of "[''Linux'', '' 6.6'']" "[]"]
  show ?thesis by simp
qed

text \<open>
  C33. The whole report, for every state of the system whose output can be written: it is produced exactly if no
  thread that is listed has a wait channel that fills the 255 bytes of its buffer without a terminator (else the
  print runs past the buffer); and then it has, between its rules, the kernel version, the seven
  memory sections, the kernel log, for every process of \<open>/proc\<close> in order its threads with name and wait channel,
  and the four network and interrupt sections, each section with the whole content of its file or the error.
\<close>

theorem dumpstate_produced:
  assumes "all_fwritten os"
  shows "dumpstate os =
    (if \<exists>p \<in> set (proc_pids os). \<exists>(t, name) \<in> set (proc_threads os p). wchan_full os t then None
     else Some (rule @ line (''== dumpstate: '' @ dump_date os) @ rule @ [newline] @ kernel_spec os @
       concat (map (section_spec os) sections_before) @ do_dmesg os @
       threads_spec os ''BLOCKED PROCESS WAIT-CHANNELS'' @ concat (map (section_spec os) sections_after) @
       [newline] @ rule @ line ''== dumpstate: done'' @ rule))"
proof -
  note f = dump_file_section [OF assms]
  have p: "\<forall>(title, path) \<in> set (sections_before @ sections_after). take 6 path = PROC"
    by (simp add: sections_before_def sections_after_def PROC_def)
  have "concat (map (\<lambda>(t, p). snd (dump_file os (Some t) p)) xs) = concat (map (section_spec os) xs)"
    if "set xs \<subseteq> set (sections_before @ sections_after)" for xs
    using that p f by (induction xs) (auto simp del: set_append)
  note s = this [of sections_before] this [of sections_after]
  show ?thesis
    unfolding dumpstate_def Let_def for_each_tid_threads
    using s dump_file_untitled [OF assms] by (simp add: sections_before_def sections_after_def)
qed

lemma dump_sample_full:
  "\<exists>p \<in> set (proc_pids dump_sample). \<exists>(t, name) \<in> set (proc_threads dump_sample p). wchan_full dump_sample t"
  by code_simp

theorem dumpstate_produced_witness:
  "dumpstate dump_sample = None \<and> dumpstate (dump_sample\<lparr>small_file := \<lambda>_. Has ''0''\<rparr>) \<noteq> None"
proof -
  define os where "os = dump_sample\<lparr>small_file := \<lambda>_. Has ''0''\<rparr>"
  have w: "all_fwritten dump_sample" "all_fwritten os" by (auto simp: all_fwritten_def dump_sample_def os_def)
  have "\<not> wchan_full os t" for t by (simp add: wchan_full_def os_def)
  then have "\<not> (\<exists>p \<in> set (proc_pids os). \<exists>(t, name) \<in> set (proc_threads os p). wchan_full os t)" by auto
  then have "dumpstate os \<noteq> None" unfolding dumpstate_produced [OF w(2)] by simp
  moreover have "dumpstate dump_sample = None"
    unfolding dumpstate_produced [OF w(1)] by (rule if_P [OF dump_sample_full])
  ultimately show ?thesis by (simp add: os_def)
qed

text \<open>
  C34. Redirecting the report creates the directories before each slash of the path, parents first,
  and none for a leading slash. When it returns in the parent, no descriptor it opened, of the file
  or of the pipe to \<open>gzip\<close>, is still open.
\<close>

theorem redirect_directories:
  "(\<exists>es. fst (redirect_to_file os redirect path lvl) =
      map (\<lambda>i. R_mkdir (take i path)) (filter (\<lambda>i. path ! i = CHR ''/'' \<and> i \<noteq> 0) [0..<length path]) @ es \<and>
      (\<forall>d. R_mkdir d \<notin> set es)) \<and>
   (snd (redirect_to_file os redirect path lvl) = R_returns pid \<longrightarrow> redir_held (fst (redirect_to_file os redirect path lvl)) [] = [])"
proof -
  have m: "mkdir_loop path (if take 1 path = ''/'' then 1 else 0) =
      map (\<lambda>i. take i path) (filter (\<lambda>i. path ! i = CHR ''/'' \<and> i \<noteq> 0) [0..<length path])"
  proof (cases path)
    case (Cons c t)
    have u: "[0..<length path] = 0 # [1..<length path]" using Cons by (simp add: upt_conv_Cons del: upt_Suc)
    have f: "filter (\<lambda>i. path ! i = CHR ''/'' \<and> i \<noteq> 0) [0..<length path] =
        filter (\<lambda>i. path ! i = CHR ''/'') [1..<length path]"
      unfolding u by (auto intro!: filter_cong)
    have "filter (\<lambda>i. path ! i = CHR ''/'') [0..<length path] = filter (\<lambda>i. path ! i = CHR ''/'') [1..<length path]"
      if "c \<noteq> CHR ''/''"
      unfolding u using Cons that by simp
    moreover have "take 1 path = ''/'' \<longleftrightarrow> c = CHR ''/''" using Cons by simp
    ultimately show ?thesis unfolding mkdir_loop_prefixes f by (cases "c = CHR ''/''") simp_all
  qed (simp add: mkdir_loop_prefixes)
  define ds where "ds = mkdir_loop path (if take 1 path = ''/'' then 1 else 0)"
  have ds: "map R_mkdir ds = map (\<lambda>i. R_mkdir (take i path)) (filter (\<lambda>i. path ! i = CHR ''/'' \<and> i \<noteq> 0) [0..<length path])"
    unfolding ds_def m by simp
  have "\<exists>es. fst (redirect_to_file os redirect path lvl) = map R_mkdir ds @ es \<and> (\<forall>d. R_mkdir d \<notin> set es) \<and>
      (snd (redirect_to_file os redirect path lvl) = R_returns pid \<longrightarrow> redir_held es [] = [])"
    unfolding redirect_to_file_def ds_def [symmetric] Let_def by (auto split: option.splits)
  then show ?thesis unfolding ds [symmetric] by (auto simp: redir_held_mkdir)
qed

theorem redirect_directories_witness:
  "\<exists>es. fst (redirect_to_file \<lparr>redir_open = 5, redir_pipe = Some (6, 7), redir_fork = 99\<rparr> 1 ''/a/b/c'' 9) =
     [R_mkdir ''/a'', R_mkdir ''/a/b''] @ es \<and>
     redir_held ([R_mkdir ''/a'', R_mkdir ''/a/b''] @ es) [] = []"
proof -
  let ?r = "redirect_to_file \<lparr>redir_open = 5, redir_pipe = Some (6, 7), redir_fork = 99\<rparr> 1 ''/a/b/c'' 9"
  have "snd ?r = R_returns 99" by (simp add: redirect_to_file_def Let_def)
  moreover have "filter (\<lambda>i. ''/a/b/c'' ! i = CHR ''/'' \<and> i \<noteq> 0) [0..<length ''/a/b/c''] = [2, 4]"
    by (simp add: upt_conv_Cons)
  ultimately show ?thesis
    using redirect_directories [of "\<lparr>redir_open = 5, redir_pipe = Some (6, 7), redir_fork = 99\<rparr>" 1 "''/a/b/c''" 9 99]
    by auto
qed

end
