(* ===== verification/Lab_Main.thy ===== *)
theory Lab_Main
  imports Lab_Launcher Lab_Input
begin

text \<open>
  \<open>src/main.c\<close>: options, signal handler, the three message queues, and the three processes of
  \<open>linux_lab\<close>. The results of the system calls are parameters; what is only logged is left out.
\<close>

section \<open>Children\<close>

text \<open>Children that have ended and are not yet waited for, children that run, and \<open>errno\<close>.\<close>

record children =
  zombies :: "int list"
  running :: "int list"
  errno :: int

definition ECHILD :: int where
  "ECHILD = 10"

text \<open>\<open>waitpid\<close> for any child without blocking.\<close>

definition waitpid_any :: "children \<Rightarrow> int \<times> children" where
  "waitpid_any c =
     (case zombies c of
        z # zs \<Rightarrow> (z, c\<lparr>zombies := zs\<rparr>)
      | [] \<Rightarrow> if running c = [] then (-1, c\<lparr>errno := ECHILD\<rparr>) else (0, c))"

function reap_loop :: "children \<Rightarrow> int list \<times> children" where
  "reap_loop c =
     (let (childPid, c1) = waitpid_any c in
      if childPid > 0 then let (ps, c2) = reap_loop c1 in (childPid # ps, c2) else ([], c1))"
  by pat_completeness auto
termination
  by (relation "measure (\<lambda>c. length (zombies c))") (auto simp: waitpid_any_def split: list.splits if_splits)

declare reap_loop.simps [simp del]

definition signalHandler :: "children \<Rightarrow> int list \<times> children" where
  "signalHandler c = (let savedErrno = errno c; (reaped, c1) = reap_loop c in (reaped, c1\<lparr>errno := savedErrno\<rparr>))"

section \<open>Options\<close>

text \<open>\<open>None\<close>: \<open>usage\<close> ends the process. An unknown option is ignored.\<close>

fun lab_options :: "(string \<Rightarrow> string option) \<Rightarrow> (char \<times> string option) list \<Rightarrow> logger \<Rightarrow> logger option" where
  "lab_options fopen_log [] lg = Some lg"
| "lab_options fopen_log ((c, optarg) # opts) lg =
     (if c = CHR ''h'' then None
      else if c = CHR ''f'' then lab_options fopen_log opts (set_log_file fopen_log (the optarg) lg)
      else if c = CHR ''d'' then lab_options fopen_log opts (lg\<lparr>g_debug_level := g_debug_level lg + 1\<rparr>)
      else lab_options fopen_log opts lg)"

definition lab_usage :: "string \<times> int" where
  "lab_usage = ([newline] @ ''usage: linux_lab [-hd] [-f <log file>]'' @ [newline] @
     [CHR 0x5C, newline] @
     ''options:'' @ [newline] @
     ''   -h   show this usage'' @ [newline] @
     ''   -d   show more debug messages (-dd for even more)'' @ [newline] @
     ''   -f   log output to debug file instead of stdout'' @ [newline], 1)"

lemma usage_complete: "documented (fst lab_usage) = accepted ''hdf:''"
  by code_simp

section \<open>main\<close>

record lab_os =
  fopen_log :: "string \<Rightarrow> string option"
  signal_ok :: bool
  mq_results :: "string \<Rightarrow> int \<times> int"
  fork_server :: int
  fork_input :: int
  input_sigaction :: int
  input_mq :: "string \<Rightarrow> int"
  input_pthread :: int
  launch :: launch_os

definition queue_names :: "string list" where
  "queue_names = [''/watchdog_queue'', ''/monitor_queue'', ''/disk_queue'']"

text \<open>\<open>None\<close>: an assertion fails.\<close>

fun create_queues :: "lab_os \<Rightarrow> string list \<Rightarrow> queues \<Rightarrow> queues option" where
  "create_queues os [] qs = Some qs"
| "create_queues os (n # ns) qs =
     (case create_message_queue (fst (mq_results os n)) (snd (mq_results os n)) n NUM_MESSAGES sizeof_mq_msg qs of
        None \<Rightarrow> None
      | Some (retcode, _, qs') \<Rightarrow> if retcode = 0 then create_queues os ns qs' else None)"

text \<open>
  How the process that runs \<open>main\<close> goes on: it ends after waiting for some processes, or it is one of
  the children from the \<open>fork\<close> that made it (an input process whose \<open>input\<close> returns goes on in \<open>main\<close>); the last of them becomes the daemon or exits.
\<close>

datatype lab_end = Lab_usage "string \<times> int" | Lab_aborts | Lab_server | Lab_input | Lab_wlinkd "string list" | Lab_exits int | Lab_done "int list" queues

definition lab_main :: "lab_os \<Rightarrow> string list \<Rightarrow> queues \<Rightarrow> lab_end" where
  "lab_main os args qs =
     (case lab_options (fopen_log os) (getopt ''hdf:'' args) logger_start of
        None \<Rightarrow> Lab_usage lab_usage
      | Some lg \<Rightarrow>
          if \<not> signal_ok os then Lab_aborts
          else (case create_queues os queue_names qs of
                  None \<Rightarrow> Lab_aborts
                | Some qs' \<Rightarrow>
                    (case create_system_server (fork_server os) of
                       None \<Rightarrow> Lab_server
                     | Some spid \<Rightarrow>
                         (case create_input (fork_input os) (input_process (input_sigaction os) (input_mq os) (input_pthread os)) of
                            None \<Rightarrow> Lab_input
                          | Some ipid \<Rightarrow>
                              (case launch_wlinkd_daemon (launch os) (g_debug_level lg) False of
                                 (Launch_executes argv, _) \<Rightarrow> Lab_wlinkd argv
                               | (Launch_exits status, _) \<Rightarrow> Lab_exits status
                               | (Launch_returns apid, _) \<Rightarrow>
                                   Lab_done ((if spid > 0 then [spid] else []) @ (if ipid > 0 then [ipid] else [])
                                     @ (if apid > 0 then [apid] else [])) qs')))))"

section \<open>Lemmas\<close>

lemma reap_loop_all:
  "\<forall>p \<in> set (zombies c). 0 < p \<Longrightarrow>
     fst (reap_loop c) = zombies c \<and> zombies (snd (reap_loop c)) = [] \<and> running (snd (reap_loop c)) = running c"
proof (induction c rule: reap_loop.induct)
  case (1 c)
  show ?case
  proof (cases "zombies c")
    case Nil
    then show ?thesis by (subst (1 2 3) reap_loop.simps) (simp add: waitpid_any_def)
  next
    case (Cons z zs)
    then have w: "waitpid_any c = (z, c\<lparr>zombies := zs\<rparr>)" by (simp add: waitpid_any_def)
    have "0 < z" using 1(2) Cons by simp
    moreover note 1(1) [OF w [symmetric] refl this]
    ultimately show ?thesis
      using 1(2) Cons by (subst (1 2 3) reap_loop.simps) (auto simp add: w split: prod.splits)
  qed
qed

lemma create_queues_fresh:
  "create_queues os ns qs = Some qs' \<Longrightarrow> distinct ns \<Longrightarrow>
     (\<forall>n \<in> set ns. \<exists>q. qs' n = Some q \<and> msg_queue q \<and> mq_msgs q = [] \<and> mq_maxmsg q = NUM_MESSAGES) \<and>
     (\<forall>n. n \<notin> set ns \<longrightarrow> qs' n = qs n)"
proof (induction os ns qs rule: create_queues.induct)
  case (2 os n ns qs)
  then obtain fd q1 where c: "create_message_queue (fst (mq_results os n)) (snd (mq_results os n)) n NUM_MESSAGES sizeof_mq_msg qs =
      Some (0, fd, q1)" "create_queues os ns q1 = Some qs'"
    by (auto split: option.splits if_splits)
  have q1: "\<exists>q. q1 n = Some q \<and> msg_queue q \<and> mq_msgs q = [] \<and> mq_maxmsg q = NUM_MESSAGES" "\<forall>m. m \<noteq> n \<longrightarrow> q1 m = qs m"
    using c(1) by (auto simp: create_message_queue_def Let_def msg_queue_def split: if_splits)
  have "(\<forall>n \<in> set ns. \<exists>q. qs' n = Some q \<and> msg_queue q \<and> mq_msgs q = [] \<and> mq_maxmsg q = NUM_MESSAGES) \<and>
     (\<forall>n. n \<notin> set ns \<longrightarrow> qs' n = q1 n)"
    using "2.IH" [OF c(1) refl refl] c(2) "2.prems"(2) by simp
  then show ?case using q1 "2.prems"(2) by auto
qed simp

lemma lab_options_d: "lab_options f (replicate n (CHR ''d'', None)) lg = Some (lg\<lparr>g_debug_level := g_debug_level lg + int n\<rparr>)"
  by (induction n arbitrary: lg) auto

lemma getopt_d: "0 < n \<Longrightarrow> getopt ''hdf:'' [CHR ''-'' # replicate n CHR ''d''] = replicate n (CHR ''d'', None)"
  using getopt_cluster [of "''hdf:''" "CHR ''d''" n "[]"]
  by (cases n) (auto simp: getopt_def)

section \<open>Properties\<close>

text \<open>
  The handler of \<open>SIGCHLD\<close> reaps every child that has ended, however many share one signal, leaves
  the running ones alone, ends, and restores \<open>errno\<close>.
\<close>

lemma handler_reaps_all:
  assumes "\<forall>p \<in> set (zombies c). 0 < p"
  shows "\<exists>c'. signalHandler c = (zombies c, c') \<and> zombies c' = [] \<and> running c' = running c \<and> errno c' = errno c"
  using reap_loop_all [OF assms] by (auto simp: signalHandler_def Let_def split: prod.splits)

lemma handler_reaps_all_example:
  "\<exists>c'. signalHandler \<lparr>zombies = [40, 41], running = [], errno = 4\<rparr> = ([40, 41], c') \<and> zombies c' = [] \<and> errno c' = 4"
  using handler_reaps_all [of "\<lparr>zombies = [40, 41], running = [], errno = 4\<rparr>"] by auto

text \<open>
  C29. When \<open>main\<close> ends, the three queues exist, empty and of ten messages each, and the only process it
  has waited for is the daemon, if that was started: it waits neither for the system server nor for the
  shell, since the functions that create them return 0.
\<close>

theorem main_waits_for_daemon_only:
  assumes "lab_main os args qs = Lab_done waits qs'"
  shows "waits = (if wlinkd_executable (launch os) \<and> 0 < launch_fork (launch os) then [launch_fork (launch os)] else []) \<and>
    (\<forall>n \<in> set queue_names. \<exists>q. qs' n = Some q \<and> msg_queue q \<and> mq_msgs q = [] \<and> mq_maxmsg q = 10) \<and>
    (\<forall>n. n \<notin> set queue_names \<longrightarrow> qs' n = qs n)"
proof -
  from assms have q: "create_queues os queue_names qs = Some qs'"
    by (auto simp: lab_main_def split: option.splits if_splits launched.splits prod.splits)
  have "distinct queue_names" by (simp add: queue_names_def)
  with create_queues_fresh [OF q] have "(\<forall>n \<in> set queue_names. \<exists>q. qs' n = Some q \<and> msg_queue q \<and> mq_msgs q = [] \<and> mq_maxmsg q = 10) \<and>
    (\<forall>n. n \<notin> set queue_names \<longrightarrow> qs' n = qs n)"
    by (simp add: NUM_MESSAGES_def)
  moreover from assms have "waits = (if wlinkd_executable (launch os) \<and> 0 < launch_fork (launch os) then [launch_fork (launch os)] else [])"
    by (auto simp: lab_main_def launch_wlinkd_daemon_def create_system_server_def create_input_def Let_def
        split: option.splits input_end.splits if_splits launched.splits prod.splits)
  ultimately show ?thesis by blast
qed

definition sample_lab :: lab_os where
  "sample_lab = \<lparr>fopen_log = (\<lambda>_. None), signal_ok = True, mq_results = (\<lambda>_. (3, 3)), fork_server = 50, fork_input = 51,
     input_sigaction = 0, input_mq = (\<lambda>_. 3), input_pthread = 0,
     launch = sample_launch\<lparr>launch_fork := 52\<rparr>\<rparr>"

theorem main_waits_for_daemon_only_witness:
  "\<exists>qs'. lab_main sample_lab [] (\<lambda>_. None) = Lab_done [52] qs' \<and> qs' ''/monitor_queue'' \<noteq> None"
proof -
  obtain ws qs' where m: "lab_main sample_lab [] (\<lambda>_. None) = Lab_done ws qs'"
    by (simp add: lab_main_def sample_lab_def getopt_def queue_names_def create_message_queue_def Let_def
        create_system_server_def create_input_def launch_wlinkd_daemon_def sample_launch_def prepare_project_root_def cstr_def)
  from main_waits_for_daemon_only [OF m] m show ?thesis
    by (auto simp: sample_lab_def sample_launch_def queue_names_def)
qed

text \<open>
  C26. The debug level of the command line reaches the daemon for one and two \<open>d\<close> and not for more:
  after \<open>linux_lab\<close> with \<open>n\<close> letters \<open>d\<close> the child that becomes the daemon parses its arguments to a
  level \<open>n\<close> above its own initial level when \<open>n\<close> is 1 or 2, and to that initial level otherwise.
\<close>

theorem debug_level_end_to_end:
  assumes "level0 + 2 \<le> log_debug" "0 < n"
    and "lab_main os [CHR ''-'' # replicate n CHR ''d''] qs = Lab_wlinkd argv"
  shows "map_option cfg_debug (wlinkd_options log_debug level0 (tl argv)) =
    Some (level0 + (if n \<le> 2 then int n else 0))"
proof -
  have o: "lab_options (fopen_log os) (getopt ''hdf:'' [CHR ''-'' # replicate n CHR ''d'']) logger_start =
      Some (logger_start\<lparr>g_debug_level := int n\<rparr>)"
    using assms(2) by (simp add: getopt_d lab_options_d) (simp add: logger_start_def)
  have a: "argv = wlinkd_argv (int n)"
    using assms(3)
    by (auto simp: lab_main_def o launch_wlinkd_daemon_def Let_def split: option.splits if_splits launched.splits prod.splits)
  show ?thesis using wlinkd_argv_parsed [OF assms(1), of "int n"] assms(2) by (auto simp: a)
qed

theorem debug_level_end_to_end_witness:
  "lab_main (sample_lab\<lparr>launch := sample_launch\<rparr>) [''-ddd''] (\<lambda>_. None) = Lab_wlinkd (wlinkd_argv 3) \<and>
   map_option cfg_debug (wlinkd_options 2 0 (tl (wlinkd_argv 3))) = Some 0"
proof -
  have m: "lab_main (sample_lab\<lparr>launch := sample_launch\<rparr>) [''-ddd''] (\<lambda>_. None) = Lab_wlinkd (wlinkd_argv 3)"
    by (simp add: lab_main_def sample_lab_def getopt_def queue_names_def create_message_queue_def Let_def logger_start_def
        create_system_server_def create_input_def launch_wlinkd_daemon_def sample_launch_def prepare_project_root_def cstr_def)
  have r: "''-ddd'' = CHR ''-'' # replicate 3 CHR ''d''" by (simp add: numeral_3_eq_3)
  from debug_level_end_to_end [of 0 2 3, OF _ _ m [unfolded r]] m show ?thesis by simp
qed

end
