(* ===== verification/Shell_Wait.thy ===== *)
theory Shell_Wait
  imports Lab_Main
begin

text \<open>
  How the command \<open>sh\<close> of the shell waits for its child. The process that runs the shell inherits the
  handler that \<open>main\<close> has installed for \<open>SIGCHLD\<close>, and that handler waits for every child there is:
  it and the loop in \<open>toy_shell\<close> (\<open>src/utils/input.c\<close>) compete for the one child, in any order.
\<close>

section \<open>The state\<close>

text \<open>
  The children of the process; whether the child has stopped and that is not reported yet, and the
  status it ended with; whether \<open>SIGCHLD\<close> is pending; the variable \<open>status\<close>, what \<open>waitpid\<close> has
  returned so far, and whether the loop is left.
\<close>

record sh_state =
  sh_kids :: children
  sh_stopped :: bool
  end_status :: u32
  sigchld :: bool
  wait_status :: u32
  wait_rets :: "u32 option list"
  wait_left :: bool

definition sh_start :: "int \<Rightarrow> u32 \<Rightarrow> sh_state" where
  "sh_start pid status =
     \<lparr>sh_kids = \<lparr>zombies = [], running = [pid], errno = 0\<rparr>, sh_stopped = False, end_status = 0,
      sigchld = False, wait_status = status, wait_rets = [], wait_left = False\<rparr>"

text \<open>The status of a child that \<open>SIGSTOP\<close> (19) has stopped.\<close>

definition stop_word :: u32 where
  "stop_word = 0x137F"

text \<open>
  \<open>waitpid\<close> for one child, stopped children included: the status stored, \<open>None\<close> when there is no such
  child. The outer \<open>None\<close>: it blocks.
\<close>

definition waitpid_for :: "int \<Rightarrow> sh_state \<Rightarrow> (u32 option \<times> sh_state) option" where
  "waitpid_for pid s =
     (let c = sh_kids s in
      if pid \<in> set (zombies c) then Some (Some (end_status s), s\<lparr>sh_kids := c\<lparr>zombies := remove1 pid (zombies c)\<rparr>\<rparr>)
      else if pid \<in> set (running c)
      then if sh_stopped s then Some (Some stop_word, s\<lparr>sh_stopped := False\<rparr>) else None
      else Some (None, s\<lparr>sh_kids := c\<lparr>errno := ECHILD\<rparr>\<rparr>))"

text \<open>One round of the loop.\<close>

definition wait_round :: "int \<Rightarrow> sh_state \<Rightarrow> sh_state option" where
  "wait_round pid s =
     (if wait_left s then None
      else map_option (\<lambda>(w, s1). let status = wait_store (wait_status s) w in
          s1\<lparr>wait_status := status, wait_rets := wait_rets s @ [w], wait_left := wait_over status\<rparr>)
        (waitpid_for pid s))"

inductive sh_step :: "int \<Rightarrow> sh_state \<Rightarrow> sh_state \<Rightarrow> bool" for pid where
  child_stops: "pid \<in> set (running (sh_kids s)) \<Longrightarrow> sh_step pid s (s\<lparr>sh_stopped := True, sigchld := True\<rparr>)"
| child_ends: "pid \<in> set (running (sh_kids s)) \<Longrightarrow> wait_over w \<Longrightarrow>
    sh_step pid s (s\<lparr>sh_kids := (sh_kids s)\<lparr>running := remove1 pid (running (sh_kids s)), zombies := zombies (sh_kids s) @ [pid]\<rparr>,
      sh_stopped := False, end_status := w, sigchld := True\<rparr>)"
| handler: "sigchld s \<Longrightarrow> sh_step pid s (s\<lparr>sh_kids := snd (signalHandler (sh_kids s)), sigchld := False\<rparr>)"
| waiter: "wait_round pid s = Some s' \<Longrightarrow> sh_step pid s s'"

section \<open>Status words\<close>

text \<open>The loop goes on exactly at a word whose low seven bits are all set, that of a stopped child.\<close>

lemma low_words:
  "list_all (\<lambda>n. let t = of_nat n :: u32 in
     (t = 0 \<or> sint (ucast (t + 1) :: 8 word) div 2 > 0) = (t \<noteq> 0x7F)) [0..<128]"
  by code_simp

lemma wait_over_iff: "wait_over status \<longleftrightarrow> status AND 0x7F \<noteq> 0x7F"
proof -
  define n where "n = unat (status AND 0x7F)"
  have m: "status AND 0x7F = take_bit 7 status" by (simp add: take_bit_eq_mask mask_eq_exp_minus_1)
  have "n = take_bit 7 (unat status)" unfolding n_def m by (rule unsigned_take_bit_eq)
  then have "n < 128" by (simp add: take_bit_eq_mod)
  moreover have "status AND 0x7F = of_nat n" by (simp add: n_def)
  ultimately show ?thesis
    using low_words unfolding list_all_iff wait_over_def WIFEXITED_def WIFSIGNALED_def by (auto simp: Let_def)
qed

lemma stop_word_goes_on: "\<not> wait_over stop_word"
  by (simp add: wait_over_iff stop_word_def)

lemma wait_child_snoc:
  "wait_child st (ws @ [w]) \<longleftrightarrow> wait_child st ws \<or> wait_over (wait_store (foldl wait_store st ws) w)"
  by (induction ws arbitrary: st) (simp_all add: Let_def)

section \<open>The invariant\<close>

text \<open>
  The child runs, has ended, or has been waited for. The shell command's own loop, run on what
  \<open>waitpid\<close> has returned, is where this one is; and it is left only when the child is gone.
\<close>

definition sh_inv :: "int \<Rightarrow> u32 \<Rightarrow> sh_state \<Rightarrow> bool" where
  "sh_inv pid st s \<longleftrightarrow>
     (zombies (sh_kids s), running (sh_kids s)) \<in> {([], [pid]), ([pid], []), ([], [])} \<and>
     (running (sh_kids s) = [] \<longrightarrow> wait_over (end_status s)) \<and>
     (wait_left s \<longrightarrow> zombies (sh_kids s) = [] \<and> running (sh_kids s) = []) \<and>
     wait_status s = foldl wait_store st (wait_rets s) \<and>
     wait_left s = wait_child st (wait_rets s) \<and>
     (wait_over (wait_status s) \<or> wait_status s = st \<or> Some stop_word \<in> set (wait_rets s))"

lemma sh_inv_start: "sh_inv pid st (sh_start pid st)"
  by (simp add: sh_inv_def sh_start_def)

lemma sh_inv_handler:
  assumes "sh_inv pid st s" "0 < pid"
  shows "sh_inv pid st (s\<lparr>sh_kids := snd (signalHandler (sh_kids s)), sigchld := False\<rparr>)"
proof -
  have "\<forall>p \<in> set (zombies (sh_kids s)). 0 < p" using assms by (auto simp: sh_inv_def)
  from handler_reaps_all [OF this] obtain c' where
    "signalHandler (sh_kids s) = (zombies (sh_kids s), c')" "zombies c' = []" "running c' = running (sh_kids s)" by blast
  then show ?thesis using assms(1) by (auto simp: sh_inv_def)
qed

lemma sh_inv_round:
  assumes "sh_inv pid st s" "wait_round pid s = Some s'"
  shows "sh_inv pid st s'"
proof -
  from assms(2) have l: "\<not> wait_left s" by (auto simp: wait_round_def split: if_splits)
  from assms(1) consider "zombies (sh_kids s) = []" "running (sh_kids s) = [pid]"
    | "zombies (sh_kids s) = [pid]" "running (sh_kids s) = []" | "zombies (sh_kids s) = []" "running (sh_kids s) = []"
    by (auto simp: sh_inv_def)
  then show ?thesis
  proof cases
    case 1
    with assms l show ?thesis
      by (auto simp: sh_inv_def wait_round_def waitpid_for_def Let_def wait_child_snoc wait_store_def stop_word_goes_on split: if_splits)
  next
    case 2
    with assms l show ?thesis
      by (auto simp: sh_inv_def wait_round_def waitpid_for_def Let_def wait_child_snoc wait_store_def)
  next
    case 3
    with assms l show ?thesis
      by (auto simp: sh_inv_def wait_round_def waitpid_for_def Let_def wait_child_snoc wait_store_def)
  qed
qed

lemma sh_inv_step: "sh_step pid s s' \<Longrightarrow> 0 < pid \<Longrightarrow> sh_inv pid st s \<Longrightarrow> sh_inv pid st s'"
proof (induction rule: sh_step.induct)
  case (child_stops s)
  then show ?case by (auto simp: sh_inv_def)
next
  case (child_ends s w)
  then show ?case by (auto simp: sh_inv_def)
next
  case (handler s)
  then show ?case using sh_inv_handler by simp
next
  case (waiter s s')
  then show ?case using sh_inv_round by blast
qed

lemma sh_inv_reach: "(sh_step pid)\<^sup>*\<^sup>* s s' \<Longrightarrow> 0 < pid \<Longrightarrow> sh_inv pid st s \<Longrightarrow> sh_inv pid st s'"
  by (induction rule: rtranclp_induct) (auto intro: sh_inv_step)

section \<open>The child that is gone\<close>

definition sh_lost :: "sh_state \<Rightarrow> bool" where
  "sh_lost s \<longleftrightarrow> zombies (sh_kids s) = [] \<and> running (sh_kids s) = [] \<and> \<not> wait_over (wait_status s) \<and> \<not> wait_left s"

lemma sh_lost_step: "sh_step pid s s' \<Longrightarrow> sh_lost s \<Longrightarrow> sh_lost s'"
proof (induction rule: sh_step.induct)
  case (handler s)
  then have "\<forall>p \<in> set (zombies (sh_kids s)). 0 < p" by (simp add: sh_lost_def)
  from handler_reaps_all [OF this] handler show ?case by (auto simp: sh_lost_def)
qed (auto simp: sh_lost_def wait_round_def waitpid_for_def Let_def wait_store_def)

lemma sh_lost_forever: "(sh_step pid)\<^sup>*\<^sup>* s s' \<Longrightarrow> sh_lost s \<Longrightarrow> sh_lost s'"
  by (induction rule: rtranclp_induct) (auto intro: sh_lost_step)

lemma sh_lost_spins: "sh_lost s \<Longrightarrow> \<not> wait_left s \<and> wait_round pid s \<noteq> None"
  by (simp add: sh_lost_def wait_round_def waitpid_for_def Let_def)

lemma sh_inv_leaves:
  assumes "sh_inv pid st s" "\<not> wait_left s" "running (sh_kids s) = []"
    and "zombies (sh_kids s) = [pid] \<or> wait_over (wait_status s)"
  shows "\<exists>s'. wait_round pid s = Some s' \<and> wait_left s'"
proof (cases "zombies (sh_kids s) = [pid]")
  case True
  with assms(1-3) show ?thesis by (simp add: sh_inv_def wait_round_def waitpid_for_def wait_store_def Let_def)
next
  case False
  with assms have "zombies (sh_kids s) = []" by (auto simp: sh_inv_def)
  with False assms(2-4) show ?thesis by (simp add: wait_round_def waitpid_for_def wait_store_def Let_def)
qed

section \<open>Property\<close>

text \<open>
  C28. However the child, the handler and the loop interleave: \<open>sh\<close> comes back only when its child has
  ended and has been waited for, by the loop or by the handler, and is where the loop of \<open>toy_shell\<close>
  is after the same returns of \<open>waitpid\<close>. Once the child has ended, the next round leaves the loop,
  unless the handler was first and the last word stored is not that of an ended child: then no
  round ever leaves it and the shell spins. That word is the one a stop of the child has left, or the
  value the variable happened to have.
\<close>

theorem shell_wait_race:
  assumes "0 < pid" "(sh_step pid)\<^sup>*\<^sup>* (sh_start pid st) s"
  shows "wait_left s = wait_child st (wait_rets s) \<and>
    (wait_left s \<longrightarrow> zombies (sh_kids s) = [] \<and> running (sh_kids s) = []) \<and>
    (\<not> wait_left s \<and> running (sh_kids s) = [] \<longrightarrow>
      (if zombies (sh_kids s) = [pid] \<or> wait_over (wait_status s)
       then \<exists>s'. wait_round pid s = Some s' \<and> wait_left s'
       else (\<forall>s'. (sh_step pid)\<^sup>*\<^sup>* s s' \<longrightarrow> \<not> wait_left s' \<and> wait_round pid s' \<noteq> None) \<and>
         (wait_status s = st \<or> Some stop_word \<in> set (wait_rets s))))"
proof -
  have i: "sh_inv pid st s" by (rule sh_inv_reach [OF assms(2,1) sh_inv_start])
  then have "wait_left s = wait_child st (wait_rets s) \<and> (wait_left s \<longrightarrow> zombies (sh_kids s) = [] \<and> running (sh_kids s) = [])"
    by (simp add: sh_inv_def)
  moreover have "\<exists>s'. wait_round pid s = Some s' \<and> wait_left s'"
    if "\<not> wait_left s" "running (sh_kids s) = []" "zombies (sh_kids s) = [pid] \<or> wait_over (wait_status s)"
    using that sh_inv_leaves [OF i] by blast
  moreover have "(\<forall>s'. (sh_step pid)\<^sup>*\<^sup>* s s' \<longrightarrow> \<not> wait_left s' \<and> wait_round pid s' \<noteq> None) \<and>
      (wait_status s = st \<or> Some stop_word \<in> set (wait_rets s))"
    if "\<not> wait_left s" "running (sh_kids s) = []" "\<not> (zombies (sh_kids s) = [pid] \<or> wait_over (wait_status s))"
  proof -
    from i that have l: "sh_lost s" by (auto simp: sh_inv_def sh_lost_def)
    from i that have "wait_status s = st \<or> Some stop_word \<in> set (wait_rets s)" by (auto simp: sh_inv_def)
    then show ?thesis using sh_lost_spins sh_lost_forever [OF _ l] by blast
  qed
  ultimately show ?thesis by presburger
qed

text \<open>The child is stopped, killed, and waited for by the handler.\<close>

theorem shell_wait_race_witness:
  "\<exists>s. (sh_step 7)\<^sup>*\<^sup>* (sh_start 7 0) s \<and> (\<forall>s'. (sh_step 7)\<^sup>*\<^sup>* s s' \<longrightarrow> \<not> wait_left s' \<and> wait_round 7 s' \<noteq> None)"
proof -
  let ?s0 = "sh_start 7 0"
  let ?s1 = "?s0\<lparr>sh_stopped := True, sigchld := True\<rparr>"
  let ?s2 = "?s1\<lparr>sh_stopped := False, wait_status := stop_word, wait_rets := [Some stop_word]\<rparr>"
  let ?s3 = "?s2\<lparr>sh_kids := \<lparr>zombies = [7], running = [], errno = 0\<rparr>, end_status := 9\<rparr>"
  let ?s4 = "?s3\<lparr>sh_kids := snd (signalHandler (sh_kids ?s3)), sigchld := False\<rparr>"
  have 1: "sh_step 7 ?s0 ?s1" using child_stops [of 7 ?s0] by (simp add: sh_start_def)
  have 2: "sh_step 7 ?s1 ?s2"
    by (rule waiter) (simp add: sh_start_def wait_round_def waitpid_for_def wait_store_def stop_word_goes_on)
  have 3: "sh_step 7 ?s2 ?s3"
    using child_ends [of 7 ?s2 9] by (simp add: sh_start_def wait_over_iff)
  have 4: "sh_step 7 ?s3 ?s4" by (rule handler) (simp add: sh_start_def)
  from 1 2 3 4 have r: "(sh_step 7)\<^sup>*\<^sup>* ?s0 ?s4" by (meson converse_rtranclp_into_rtranclp rtranclp.rtrancl_refl)
  have k: "snd (signalHandler \<lparr>zombies = [7], running = [], errno = 0\<rparr>) = \<lparr>zombies = [], running = [], errno = 0\<rparr>"
    by (simp add: signalHandler_def Let_def waitpid_any_def reap_loop.simps)
  from shell_wait_race [OF _ r] r show ?thesis
    by (intro exI [of _ ?s4]) (simp add: sh_start_def k stop_word_goes_on)
qed

end
