(* ===== verification/Spec2Isabelle.thy ===== *)
theory Spec2Isabelle
  imports Lab_Prelude Getopt Wlinkd_Main Status_Race Led_Thread Button_Interrupt Sensor_Spi Driver_Testers
    Lab_Log Lab_Mqueue Lab_Shm Lab_Launcher Lab_Worker Lab_Input Lab_Temp Lab_Dumpstate Shell_Wait
begin

text \<open>
  A verification library for linux-lab, a Raspberry Pi access point with status LEDs, a WPS button and
  a temperature sensor.

  \<^bold>\<open>The program.\<close> It has three layers. The daemon \<open>wlinkd\<close> (\<open>wlinkd/src\<close>) follows the stations of
  the access point through netlink and publishes changes on a UNIX socket and a TCP port. The program
  \<open>linux_lab\<close> (\<open>src\<close>) starts the daemon and runs two processes of its own: a system server, whose
  threads subscribe to the daemon and drive the LEDs, wait for the button, watch a directory and make
  reports on request, and a shell, which asks the daemon for its status and the system server for
  reports. Three kernel modules (\<open>drivers\<close>) are below both: the LEDs, the button and the sensor. The
  parts meet at the daemon's socket (messages \<open>sta_join\<close>, \<open>sta_leave\<close>, \<open>traffic\<close> and the request
  \<open>WLAN_DUMP\<close>), at the message queues of \<open>linux_lab\<close>, at the signal of the button driver and at the
  device files.

  \<^bold>\<open>How code is modelled.\<close> A C function is a definition with the name it has in the source; a loop
  in it is a function of its own, and threads are cut into steps. Global variables are records,
  passed in and returned. A character buffer is the list of its bytes, so that truncation, padding and
  a missing terminator are visible; the string in it is what precedes the first NUL. Integers that can
  wrap are words, or integers under \<open>c_int\<close>, the conversion to 32 bits. An access outside a buffer, the
  use of a null pointer and a double free give \<open>None\<close>; an error code is a value. What the code asks of
  the system is a parameter: either a function of the calls made so far (\<open>ipc_os\<close>), or a record with
  the result of each call. Threads and interrupt handlers are steps of a relation, and statements about
  them hold in every interleaving. Log lines are left out except in the log itself.

  \<^bold>\<open>Termination and bounds.\<close> There is no fuel. The loops over the heap (\<open>Sta_Mgr\<close>, \<open>status_loop\<close> of
  \<open>Wlan_Core\<close>) are partial functions with \<open>None\<close> for not returning, and are shown to return on a
  well-formed list. Loops over indices, words and paths are total, by a measure. A loop that waits for
  the outside (event loop, shell, watchers) consumes a list with the results of its calls, one entry
  for each round, and its theorems quantify over all such lists. Sizes are those of the source: 64
  stations of a dump, 8 push clients, buffers and queues as declared.

  \<^bold>\<open>What is assumed of the system.\<close> \<open>recv\<close> returns no more than the room it is given (\<open>recv_bounded\<close>,
  \<open>recv_fits\<close>). The theorems across processes also say which calls succeed and how bytes travel, and
  hold only then. For the push clients: \<open>accept\<close> gives a descriptor that is not in use (\<open>fresh_fds\<close>). For the
  LEDs, in addition: the watcher is subscribed, at least one message has been pushed since, and each
  arrives in a \<open>recv\<close> of its own; that every message is sent to it is proved of the daemon. The last
  assumption is not ensured by a stream socket; \<open>led_watcher_first_line\<close> shows what is lost without it.
  For \<open>wlan\<close>: the connection succeeds, and request and answer each arrive whole. For the button: the
  device opens, the server lives, no signal fails to be sent, and the watcher sees those sent; which of its
  forks and \<open>execl\<close> calls succeed is part of the statement. For the report: its output can be written. For \<open>temp\<close>:
  each \<open>poll\<close> is followed by a read of the published text. For the two transfer modes of the sensor:
  the controller runs the transfers of a message in order (\<open>serial_controller\<close>).

  \<^bold>\<open>The shared theories.\<close> \<open>Lab_Prelude\<close> has the C library the code uses (\<open>strncpy\<close>, \<open>snprintf\<close>,
  \<open>strchr\<close>, \<open>atoi\<close>, decimal and hexadecimal output) with the rules on what a buffer holds after each.
  \<open>Lab_Float\<close> has \<open>sscanf\<close> and \<open>printf\<close> of a 32-bit \<open>float\<close> as exact roundings of rational numbers.
  \<open>Getopt\<close> is the option parser both programs call. \<open>Kernel_Resources\<close> has the resources a module
  takes and gives back as a list of events, their balance, and the interface \<open>driver_module\<close>: if a
  successful load holds a given set and the unload gives back exactly that set, any number of
  cycles leaves nothing but the threads that were started, and if a failure was taken for a success the
  unload gives back what was never taken; it is interpreted for all three drivers.

  \<^bold>\<open>The daemon.\<close>
  \<^item> \<open>Wlan_Utils\<close> (\<open>wlan_utils.c\<close>, \<open>wlan_utils.h\<close>): the data of the access point and of a station, the
    formatting of addresses and channels.
  \<^item> \<open>Sta_Mgr\<close> (\<open>wlan_sta_mgr.c\<close>): the linked list of stations in an explicit heap, with failing
    \<open>malloc\<close> and \<open>free\<close>. Its loops are partial functions; on a well-formed list they are shown to
    return. Each operation refines one on the list of stations, and through the interface
    \<open>station_table\<close> one on a set of names.
  \<^item> \<open>Wlinkd_Ipc\<close> (\<open>ipc.c\<close>): the socket, the table of eight push clients, and a trace of all calls, from which
    the ledger of descriptors opened and closed is read. Each notification that calls \<open>ipc_push_event\<close> first
    leaves a mark with its message in the trace, whatever the loop of that function does; \<open>owed\<close> computes from the marks what a client should have got
    since it was accepted, and \<open>deliver_ok\<close> says that this is what was sent to it.
  \<^item> \<open>Tcp_Server\<close> (\<open>tcp_server.c\<close>): the event slot with its 64-bit sequence number and any number of
    client threads, as an interleaving; the interface \<open>seq_slot\<close> is what a waiting client relies on. The
    accept loop says which descriptors get a thread.
  \<^item> \<open>Wlinkd_State\<close>: all globals of the daemon in one record, the notifications of
    \<open>wlan_sta_mgr.c\<close>, and the invariant \<open>wlinkd_inv\<close>: every part is well formed, only the three
    messages have been pushed, and they leave the LED lit exactly when the table is not empty.
  \<^item> \<open>Wlan_Libnl\<close>, \<open>Wlan_Nl80211\<close>, \<open>Wlan_Core\<close> (\<open>wlan_libnl.c\<close>, \<open>wlan_nl80211.c\<close>,
    \<open>wlan_core.c\<close>): requests and their callbacks, the handling of station messages, the periodic
    refresh and the status report. A request whose answer never ends gives \<open>Waiting\<close>, and it is shown when
    that is so. A refresh with
    complete answers makes the table a copy of the first 64 stations of the dump; the report is the
    longest prefix that fits its buffer.
  \<^item> \<open>Wlinkd_Main\<close> (\<open>main.c\<close>, and the handler of \<open>ipc.c\<close>, which reads the state of the other parts):
    options, start of the TCP thread, event loop, signal handler and shutdown, with what \<open>main\<close> does to the timer
    and the LED device as a list of events. The loop runs over a list with one entry for each
    test of \<open>g_running\<close>: the signals handled since the last test and what \<open>poll\<close> reports; statements
    hold for every such list. The invariant holds throughout, push clients lose nothing, a signal ends
    the loop, and at the end everything the main thread and the UNIX socket server took is closed and
    freed; the sockets of the TCP thread are in neither ledger, since the code leaves them open.
  \<^item> \<open>Status_Race\<close> (\<open>wlan_core.c\<close> as a client thread of \<open>tcp_server.c\<close> runs it): the walk of the station
    list, one read at a time and bounded by the client's buffer, while the main thread changes the list.

  \<^bold>\<open>The drivers.\<close>
  \<^item> \<open>Led_Gpio\<close> (\<open>led_gpio.c\<close>): what a write shows on the LEDs, the bounds of the buffer, loading and
    unloading on every error path.
  \<^item> \<open>Led_Thread\<close> (\<open>led_gpio.c\<close> with \<open>ENABLE_KTHREAD_EXAMPLES\<close>): the thread and its six examples, interleaved
    with writes and unloading; the positions from which it still sees the request to end.
  \<^item> \<open>Button_Interrupt\<close> (\<open>button_interrupt.c\<close>): interrupt, thread, file operations, exiting processes and
    unloading as an interleaving; a press signals the last reader while it lives, and it is shown when
    the request to end reaches the thread.
  \<^item> \<open>Sensor_Spi\<close> (\<open>sensor_spi.c\<close>): the transfers of one reading, the compensation on 32-bit words and its
    equality with the integer formula, the text of a temperature, the attributes, loading and unloading.
    What \<open>copy_to_user\<close> copies for the reader's count is a parameter.
    The equality is stated for every calibration the driver can read and every sample for which the three
    products of the formula fit 32 bits (\<open>products_fit\<close>); outside it the C code has no defined result.
    The two transfer modes give the same reading.
  \<^item> \<open>Driver_Testers\<close> (\<open>drivers/test_apps\<close>): the two test programs on top of the drivers.

  \<^bold>\<open>The program linux_lab.\<close>
  \<^item> \<open>Lab_Log\<close> (\<open>common/debug.c\<close>): where a log line goes and what it says.
  \<^item> \<open>Lab_Mqueue\<close> (\<open>ipc/message.h\<close>, \<open>create_message_queue\<close> of \<open>main.c\<close>): POSIX queues as bounded lists;
    the interface \<open>bounded_fifo\<close> gives first-in first-out delivery for every run of both ends.
  \<^item> \<open>Lab_Shm\<close> (\<open>ipc/shm.c\<close>): shared memory by key.
  \<^item> \<open>Lab_Launcher\<close> (\<open>core/launcher.c\<close>): the directory it changes to, the command that ends an older daemon,
    the arguments of the new one and what its parser makes of them.
  \<^item> \<open>Lab_Worker\<close> (\<open>core/worker.c\<close>): timer, queues, disk service, LED watcher, button watcher, start-up
    and exit of the system server. The timer and the exit request are step relations; the directory
    tree is a data type, so the recursion ends; the LED watcher runs over a list of attempts with the
    results of their calls; the button watcher records each fork with the program its child becomes, and each
    fork that failed.
  \<^item> \<open>Lab_Input\<close> (\<open>utils/input.c\<close>): the words of a line, the ten commands, dispatch and loop.
  \<^item> \<open>Lab_Temp\<close>: the command \<open>temp\<close> on top of the sensor driver: what it shows of a reading, and that it
    shows a failed one as zero degrees.
  \<^item> \<open>Lab_Dumpstate\<close> (\<open>utils/dumpstate.c\<close>): every function as the text it prints, with reads and writes that
    fail; the whole report is shown equal to a specification from the files and the list of processes.
  \<^item> \<open>Lab_Main\<close> (\<open>main.c\<close>): options, the handler of \<open>SIGCHLD\<close>, queues and processes; an input
    process whose \<open>input\<close> returns goes on in \<open>main\<close>.
  \<^item> \<open>Shell_Wait\<close>: the command \<open>sh\<close> against the handler of \<open>SIGCHLD\<close>, which both wait for the same child:
    when \<open>sh\<close> comes back, and when it never does.

  \<^bold>\<open>This theory\<close> composes them: the daemon, the LED watcher and the LED driver show on the LEDs whether
  a station is connected; the shell's \<open>wlan\<close> prints the daemon's report; \<open>dump\<close> commands become
  reports of the monitor thread; a press of the button becomes a run of WPS.

  \<^bold>\<open>Not modelled.\<close> The logging code of the daemon is in a git submodule that is not part of the
  sources; its levels are parameters. The producer and consumer of the shell (\<open>PCP\<close>) are not compiled and
  call functions that are not in the sources; the code under \<open>#if 0\<close> is not compiled. Texts with an
  exponent, hexadecimal numbers, infinities and NaNs read by \<open>temp\<close> are left to a parameter; the driver
  never writes one. Make files, scripts and the device tree overlay run other programs and hold no state.
  What the client threads of \<open>tcp_server.c\<close> do without a lock has no meaning in C once a cell is freed:
  \<open>Status_Race\<close> shows when that happens, the text such a client gets for \<open>status\<close> is a free parameter of
  its step, and the theorems on the report are about the main thread, which serves the UNIX socket. The
  two GPIO lines of an LED macro are set in one step of \<open>Led_Thread\<close>. In the remaining lines of the
  sources there are comments, includes, prototypes, module descriptions and the tables of operations,
  whose entries the models call by name.
\<close>

section \<open>From the station table to the LEDs\<close>

text \<open>A write of the LED watcher to the driver: the whole text, with no fault.\<close>

definition drive :: "string \<Rightarrow> led_dev \<Rightarrow> led_dev" where
  "drive m d = snd (toy_driver_write m (length m) (length m) d)"

fun led_writes :: "watch_ev list \<Rightarrow> string list" where
  "led_writes [] = []"
| "led_writes (W_led t # es) = t # led_writes es"
| "led_writes (_ # es) = led_writes es"

lemma led_writes_append: "led_writes (xs @ ys) = led_writes xs @ led_writes ys"
  by (induction xs rule: led_writes.induct) auto

lemma led_msg_line:
  assumes "m \<in> led_msgs"
  shows "m = butlast m @ [newline]" "led_word (butlast m)" "length (butlast m) \<le> 62"
  using assms by (auto simp: led_msgs_def sta_join_msg_def sta_leave_msg_def traffic_msg_def led_word_def)

lemma drive_shows:
  assumes "m \<in> led_msgs"
  shows "shows_led (drive (butlast m) d) (led_next m lit)"
proof -
  have f: "nul_free (butlast m)" "butlast m \<noteq> []" "length (butlast m) < BUF_SIZE"
    using assms by (auto simp: led_msgs_def sta_join_msg_def sta_leave_msg_def traffic_msg_def BUF_SIZE_def)
  have d: "drive (butlast m) d =
      toy_command (d\<lparr>kernel_write_buffer := butlast m @ replicate (BUF_SIZE - length (butlast m)) NUL\<rparr>)"
    unfolding drive_def write_buffer_text [OF f(1,3)] by simp
  note t = toy_command_text [OF f(1,2), of "d\<lparr>kernel_write_buffer := butlast m @ replicate (BUF_SIZE - length (butlast m)) NUL\<rparr>"
      "BUF_SIZE - length (butlast m)"]
  show ?thesis
    using assms t unfolding d
    by (auto simp: led_msgs_def led_next_def sta_join_msg_def sta_leave_msg_def traffic_msg_def)
qed

text \<open>What the LEDs showed before the first message does not matter.\<close>

lemma drive_all:
  "set ms \<subseteq> led_msgs \<Longrightarrow> ms \<noteq> [] \<Longrightarrow> shows_led (fold drive (map butlast ms) d) (fold led_next ms lit)"
proof (induction ms arbitrary: d lit)
  case (Cons m ms)
  then show ?case using drive_shows [of m d lit] by (cases "ms = []") simp_all
qed simp

lemma led_next_last:
  "set ms \<subseteq> led_msgs \<Longrightarrow> ms \<noteq> [] \<Longrightarrow> fold led_next ms x = fold led_next ms y"
  by (cases ms rule: rev_cases) (auto simp: led_msgs_def led_next_def)

lemma watcher_passes:
  assumes "set ms \<subseteq> led_msgs" "0 \<le> led"
    and "0 \<le> wt_socket t" "0 \<le> wt_connect t" "0 \<le> wt_send t" "wt_reply t = Some (''OK'' @ [newline])"
    and "wt_polls t = map (poll_data led) ms"
  shows "\<exists>ev. led_watcher_thread [t] (-1) buf = Some (ev, wt_socket t, False) \<and> led_writes ev = map butlast ms"
proof -
  let ?ds = "map (\<lambda>m. (butlast m, [])) ms"
  have "list_all (\<lambda>(w, rest). led_word w \<and> nul_free rest \<and> length w + length rest \<le> 62) ?ds"
    using assms(1) led_msg_line(2,3) by (force simp: list_all_iff)
  moreover have "map (\<lambda>(w, rest). poll_data led (w @ newline # rest)) ?ds = map (poll_data led) ms"
    using assms(1) led_msg_line(1) by (auto simp flip: led_msg_line(1))
  ultimately obtain b where b: "watch_polls (wt_polls t) (''OK'' @ [newline] @ drop (Suc (Suc (Suc 0))) buf) =
      Some (map W_led (map butlast ms), Watch_more, b)"
    using watch_polls_lines [of ?ds led "''OK'' @ [newline] @ drop (Suc (Suc (Suc 0))) buf"] assms(2)
    unfolding assms(7) by (simp only: map_map comp_def case_prod_conv) blast
  have "led_writes (map (W_led \<circ> butlast) xs) = map butlast xs" for xs by (induction xs) auto
  with b assms(3-6) show ?thesis
    by (simp add: watch_attempt_def Let_def WATCH_BUF_def)
qed

text \<open>
  C1. Through the whole chain the LEDs show whether a station is connected: run the daemon on any
  system and any events, let the LED watcher of \<open>linux_lab\<close> be one of its subscribers and receive what the
  daemon sent it, at least one message after the answer and each in a read of its own, and pass its writes to the
  LED driver, whatever the LEDs showed before. Then all four LEDs are on when the daemon's station
  table has a station and off when it has none, no matter when the watcher subscribed and what was
  pushed before.
\<close>

theorem leds_show_stations:
  assumes "recv_bounded (ipc_sys env)"
    and "wlinkd_main env inp opts wlinkd_start = Some (Running l ws)"
    and "fresh_fds (ipc_trace (ipcs (loop_daemon l)))" "fd \<in> set (subscribers (ipcs (loop_daemon l)))"
    and "sent_to fd (ipc_trace (ipcs (loop_daemon l))) = ipc_ok_msg # ms" "ms \<noteq> []"
    and "0 \<le> led" "0 \<le> wt_socket t" "0 \<le> wt_connect t" "0 \<le> wt_send t"
    and "wt_reply t = Some ipc_ok_msg" "wt_polls t = map (poll_data led) ms"
  shows "\<exists>ev. led_watcher_thread [t] (-1) buf = Some (ev, wt_socket t, False) \<and>
    shows_led (fold drive (led_writes ev) d) (names (loop_daemon l) \<noteq> {})"
proof -
  have inv: "wlinkd_inv (loop_daemon l)"
    using wlinkd_main_outcome [OF assms(1), of inp opts] assms(2) by auto
  from wlinkd_sent [OF inv assms(3-5)] obtain before where ps: "pushes (loop_daemon l) = before @ ms" by blast
  have sub: "set ms \<subseteq> led_msgs" using wlinkd_inv_msgs [OF inv] ps by auto
  have "fold led_next ms False \<longleftrightarrow> led_on (pushes (loop_daemon l))"
    using led_next_last [OF sub assms(6), of False "fold led_next before False"] by (simp add: ps led_on_def)
  then have lit: "fold led_next ms False \<longleftrightarrow> names (loop_daemon l) \<noteq> {}"
    using inv by (simp add: wlinkd_inv_def led_ok_def)
  show ?thesis
    using watcher_passes [OF sub assms(7-10) assms(11) [unfolded ipc_ok_msg_def] assms(12), of buf]
      drive_all [OF sub assms(6), of d False] lit
    by auto
qed

theorem leds_show_stations_witness:
  "\<exists>l ws ev. wlinkd_main chain_env (sample_main chain_polls) (Some sample_config) wlinkd_start = Some (Running l ws) \<and>
     led_watcher_thread [sample_try\<lparr>wt_polls := [poll_data 7 sta_join_msg]\<rparr>] (-1) [] = Some (ev, 5, False) \<and>
     shows_led (fold drive (led_writes ev) led_dev_start) True"
proof -
  obtain l ws where l: "wlinkd_main chain_env (sample_main chain_polls) (Some sample_config) wlinkd_start = Some (Running l ws)"
    "sta_views (stas (loop_daemon l)) \<noteq> []" "fresh_fds (ipc_trace (ipcs (loop_daemon l)))"
    "subscribers (ipcs (loop_daemon l)) = [4]"
    "sent_to 4 (ipc_trace (ipcs (loop_daemon l))) = ipc_ok_msg # [sta_join_msg]"
    by (rule chain_run)
  have n: "names (loop_daemon l) \<noteq> {}" using l(2) by (simp add: names_def)
  have m: "4 \<in> set (subscribers (ipcs (loop_daemon l)))" using l(4) by simp
  let ?t = "sample_try\<lparr>wt_polls := [poll_data 7 sta_join_msg]\<rparr>"
  have "\<exists>ev. led_watcher_thread [?t] (-1) [] = Some (ev, wt_socket ?t, False) \<and>
      shows_led (fold drive (led_writes ev) led_dev_start) (names (loop_daemon l) \<noteq> {})"
    by (rule leds_show_stations [OF chain_recv l(1,3) m l(5), where led = 7]) (simp_all add: sample_try_def ipc_ok_msg_def)
  with l(1) n show ?thesis by (auto simp: sample_try_def)
qed

section \<open>The status report in the shell\<close>

text \<open>The text the daemon sends while it handles one request.\<close>

definition daemon_answer :: "ipc_os \<Rightarrow> wlinkd \<Rightarrow> string \<Rightarrow> string option" where
  "daemon_answer os s req =
     (case ipc_handler os req s of
        None \<Rightarrow> None
      | Some s' \<Rightarrow>
          (case sends (drop (length (ipc_trace (ipcs s))) (ipc_trace (ipcs s'))) of
             [] \<Rightarrow> None
           | (_, m, _) # _ \<Rightarrow> Some m))"

text \<open>
  C8. The command \<open>wlan\<close> of the shell shows the daemon's status: when the connection succeeds and
  request and answer each arrive whole, the request it sends makes the daemon
  answer with its report on the same connection and close it, and the shell prints the first 1023
  characters of that report and nothing else.
\<close>

theorem wlan_command_shows_status:
  assumes "wlinkd_inv s" "fd = os (ipc_trace (ipcs s)) (Accept (g_server_fd (ipcs s)))" "0 \<le> fd"
    and "os (ipc_trace (ipcs s) @ [(Accept (g_server_fd (ipcs s)), fd)]) (Recv fd 255) = int (length wlan_request)"
    and "wlan_access env" "0 \<le> wlan_socket env" "0 \<le> wlan_connect env"
    and "wlan_answer env = daemon_answer os s"
  shows "\<exists>sh'. toy_wlan env sh = Returns 1 sh' \<and> shell_out sh' = shell_out sh @ take 1023 (status_text s)"
proof -
  define h1 where "h1 = ipc_trace (ipcs s) @ [(Accept (g_server_fd (ipcs s)), fd)]"
  have req: "cstr (take (nat 9) wlan_request) = ''WLAN_DUMP''" by code_simp
  have n: "9 = os h1 (Recv fd 255)" using assms(4) by (simp add: h1_def wlan_request_def)
  have "\<exists>r q. ipc_handler os wlan_request s = Some (s\<lparr>ipcs := (ipcs s)\<lparr>ipc_trace := h1 @
      [(Recv fd 255, 9), (Send fd (take 4095 (status_text s)), r), (Close fd, q)]\<rparr>\<rparr>)"
    by (rule ipc_dump_run [OF assms(1-3) h1_def n _ _ req]) simp_all
  then have a: "wlan_answer env wlan_request = Some (take 4095 (status_text s))"
    by (auto simp: assms(8) daemon_answer_def h1_def)
  have free: "nul_free (take 4095 (status_text s))"
  proof -
    have "sta_inv (stas s)" using assms(1) by (simp add: wlinkd_inv_def parts_ok_def)
    from build_status_holds [OF this, of IPC_BUFFER_SIZE "replicate IPC_BUFFER_SIZE NUL"] obtain buf where
      "cstr buf = take 4095 (status_text s)" by (auto simp: IPC_BUFFER_SIZE_def holds_def)
    then show ?thesis by (metis nul_free_cstr)
  qed
  let ?got = "take 1023 (status_text s)"
  have g: "take (TOY_BUFFSIZE - 1) (take 4095 (status_text s)) = ?got" by (simp add: TOY_BUFFSIZE_def min_def)
  have "nul_free ?got" using nul_free_take [OF free, of 1023] by (simp add: min_def)
  then have c: "cstr (?got @ drop (length ?got) (replicate TOY_BUFFSIZE NUL)) = ?got"
    by (simp add: cstr_pad)
  show ?thesis
    using assms(5-7) unfolding toy_wlan_def a option.case Let_def g c
    by (simp add: say_def fd_open_def fd_close_def)
qed


definition shell_and_daemon :: shell_env where
  "shell_and_daemon = idle_env\<lparr>wlan_access := True, wlan_socket := 5, wlan_connect := 0,
     wlan_answer := daemon_answer sample_os wlinkd_start\<rparr>"

theorem wlan_command_shows_status_witness:
  "\<exists>sh'. toy_wlan shell_and_daemon shell_start = Returns 1 sh' \<and>
     shell_out sh' = take 1023 (status_text wlinkd_start)"
  using wlan_command_shows_status [OF wlinkd_start_inv, of 4 sample_os shell_and_daemon shell_start]
  by (simp add: sample_os_def wlan_request_def shell_and_daemon_def shell_start_def)

section \<open>Dump requests from the shell to the monitor\<close>

text \<open>The command \<open>dump\<close> entered once in each of these environments, and so many rounds of the monitor thread.\<close>

fun dump_times :: "shell_env list \<Rightarrow> shell \<Rightarrow> shell ran" where
  "dump_times [] s = Returns 1 s"
| "dump_times (env # envs) s = (case toy_dump_state env s of Returns st s' \<Rightarrow> dump_times envs s' | r \<Rightarrow> r)"

fun monitor_rounds :: "nat \<Rightarrow> mqueue \<Rightarrow> monitor_action list \<times> mqueue" where
  "monitor_rounds 0 q = ([], q)"
| "monitor_rounds (Suc n) q =
     (case monitor_thread q of
        Mq_ok (a, q') \<Rightarrow> let (as, q'') = monitor_rounds n q' in (a # as, q'')
      | _ \<Rightarrow> ([], q))"

definition dump_request :: "shell_env \<Rightarrow> mq_msg" where
  "dump_request env = \<lparr>msg_type = DUMP_STATE, param1 = 0, param2 = 0, param3 = dump_stack env\<rparr>"

lemma dump_times_queue:
  assumes "msg_queue (monitor_queue s)" "length (mq_msgs (monitor_queue s)) + length envs \<le> mq_maxmsg (monitor_queue s)"
  shows "dump_times envs s = Returns 1 (s\<lparr>monitor_queue := (monitor_queue s)\<lparr>mq_msgs :=
    mq_msgs (monitor_queue s) @ map dump_request envs\<rparr>\<rparr>)"
  using assms
proof (induction envs arbitrary: s)
  case (Cons env envs)
  let ?s = "s\<lparr>monitor_queue := (monitor_queue s)\<lparr>mq_msgs := mq_msgs (monitor_queue s) @ [dump_request env]\<rparr>\<rparr>"
  have d: "toy_dump_state env s = Returns 1 ?s"
    using Cons.prems by (simp add: toy_dump_state_def mq_send_def msg_queue_def dump_request_def)
  show ?case
    using Cons.IH [of ?s] Cons.prems by (simp add: d msg_queue_def)
qed simp

lemma dump_times_full:
  assumes "msg_queue (monitor_queue s)" "length (mq_msgs (monitor_queue s)) \<le> mq_maxmsg (monitor_queue s)"
    and "mq_maxmsg (monitor_queue s) < length (mq_msgs (monitor_queue s)) + length envs"
  shows "\<exists>s'. dump_times envs s = Waits s'"
  using assms
proof (induction envs arbitrary: s)
  case (Cons env envs)
  let ?s = "s\<lparr>monitor_queue := (monitor_queue s)\<lparr>mq_msgs := mq_msgs (monitor_queue s) @ [dump_request env]\<rparr>\<rparr>"
  show ?case
  proof (cases "length (mq_msgs (monitor_queue s)) < mq_maxmsg (monitor_queue s)")
    case True
    then have "toy_dump_state env s = Returns 1 ?s"
      using Cons.prems by (simp add: toy_dump_state_def mq_send_def msg_queue_def dump_request_def)
    with Cons.IH [of ?s] Cons.prems True show ?thesis by (simp add: msg_queue_def)
  next
    case False
    with Cons.prems show ?thesis by (simp add: toy_dump_state_def mq_send_def msg_queue_def)
  qed
qed simp

lemma monitor_serves:
  assumes "msg_queue q" "mq_msgs q = map dump_request envs"
  shows "monitor_rounds (length envs) q = (replicate (length envs) Dumpstate, q\<lparr>mq_msgs := []\<rparr>)"
  using assms
proof (induction envs arbitrary: q)
  case (Cons env envs)
  have "monitor_thread q = Mq_ok (Dumpstate, q\<lparr>mq_msgs := map dump_request envs\<rparr>)"
    using Cons.prems by (simp add: monitor_thread_def mq_receive_def msg_queue_def dump_request_def)
  with Cons.IH [of "q\<lparr>mq_msgs := map dump_request envs\<rparr>"] Cons.prems show ?case
    by (simp add: msg_queue_def)
qed simp

text \<open>
  C9. With the queue that \<open>main\<close> created, up to ten \<open>dump\<close> commands return at once and the monitor
  thread then makes exactly that many reports, none of them for an unknown message, and waits; the
  eleventh command waits for the monitor.
\<close>

theorem dump_requests_served:
  assumes "lab_main os args qs = Lab_done waits qs'" "qs' ''/monitor_queue'' = Some (monitor_queue s)"
  shows "(length envs \<le> 10 \<longrightarrow> (\<exists>s' q. dump_times envs s = Returns 1 s' \<and>
      monitor_rounds (length envs) (monitor_queue s') = (replicate (length envs) Dumpstate, q) \<and> monitor_thread q = Mq_block)) \<and>
    (10 < length envs \<longrightarrow> (\<exists>s'. dump_times envs s = Waits s'))"
proof -
  from assms(1) have "create_queues os queue_names qs = Some qs'"
    by (auto simp: lab_main_def split: option.splits if_splits launched.splits prod.splits)
  from create_queues_fresh [OF this] assms(2)
  have q: "msg_queue (monitor_queue s)" "mq_msgs (monitor_queue s) = []" "mq_maxmsg (monitor_queue s) = 10"
    by (auto simp: queue_names_def NUM_MESSAGES_def)
  let ?q = "(monitor_queue s)\<lparr>mq_msgs := map dump_request envs\<rparr>"
  have m: "monitor_rounds (length envs) ?q = (replicate (length envs) Dumpstate, (monitor_queue s)\<lparr>mq_msgs := []\<rparr>)"
    using monitor_serves [of ?q envs] q(1) by (simp add: msg_queue_def)
  have b: "monitor_thread ((monitor_queue s)\<lparr>mq_msgs := []\<rparr>) = Mq_block"
    using q(1) by (simp add: monitor_thread_def mq_receive_def msg_queue_def)
  have "length envs \<le> 10 \<Longrightarrow> dump_times envs s = Returns 1 (s\<lparr>monitor_queue := ?q\<rparr>)"
    using dump_times_queue [of s envs] q by simp
  moreover have "10 < length envs \<Longrightarrow> \<exists>s'. dump_times envs s = Waits s'"
    using dump_times_full [of s envs] q by simp
  ultimately show ?thesis using m b by auto
qed

theorem dump_requests_served_witness:
  "\<exists>s'. dump_times (replicate 11 idle_env) shell_start = Waits s'"
proof -
  obtain ws qs' where m: "lab_main sample_lab [] (\<lambda>_. None) = Lab_done ws qs'"
    "qs' ''/monitor_queue'' = Some (monitor_queue shell_start)"
    by (simp add: lab_main_def sample_lab_def getopt_def queue_names_def create_message_queue_def Let_def shell_start_def
        create_system_server_def create_input_def launch_wlinkd_daemon_def sample_launch_def prepare_project_root_def cstr_def)
  from dump_requests_served [OF m, of "replicate 11 idle_env"] show ?thesis by simp
qed

section \<open>From the button to WPS\<close>

text \<open>The signals the driver has sent to a process.\<close>

definition signals_to :: "int \<Rightarrow> button_dev \<Rightarrow> nat" where
  "signals_to pid d = length (filter (\<lambda>(p, n). p = pid \<and> n = int BUTTON_SIGNR) (signals d))"

lemma presses_signal:
  "user_space_task d = Some pid \<Longrightarrow> \<forall>r \<in> set sent. 0 \<le> r \<Longrightarrow> alive pid \<Longrightarrow>
     \<exists>d'. button_presses alive sent d = Some d' \<and> signals_to pid d' = signals_to pid d + length sent"
proof (induction sent arbitrary: d)
  case (Cons r sent)
  let ?d = "d\<lparr>signals := signals d @ [(pid, SIGNR)], kdt_wait_flag := 1\<rparr>"
  have "kdt_gpio_irq_signal_handler alive r d = Some ?d"
    using Cons.prems by (simp add: kdt_gpio_irq_signal_handler_def)
  moreover have "signals_to pid ?d = Suc (signals_to pid d)" by (simp add: signals_to_def SIGNR_def BUTTON_SIGNR_def)
  ultimately show ?case using Cons.IH [of ?d] Cons.prems by simp
qed simp

text \<open>
  A start of WPS: a child that has become \<open>hostapd_cli\<close> with the push-button command.
\<close>

definition wps_started :: "wps_ev \<Rightarrow> bool" where
  "wps_started e \<longleftrightarrow>
     (\<exists>pid > 0. e = Wps_forked pid (Wps_exec ''/usr/sbin/hostapd_cli'' [''hostapd_cli'', ''-i'', ''wlan0'', ''wps_pbc'']))"

lemma wps_started_child:
  "wps_started (Wps_forked pid (wps_child ok)) \<longleftrightarrow> 0 < pid \<and> ok" "\<not> wps_started Wps_fork_failed"
  by (auto simp: wps_started_def wps_child_def hostapd_path_def hostapd_argv_def)

lemma wps_starts:
  assumes "\<forall>(presses, pid, ok) \<in> set rounds. pid \<noteq> 0"
  shows "length (filter wps_started (fst (button_watcher_thread rounds False))) =
    length (filter (\<lambda>(presses, pid, ok). 0 < presses \<and> 0 < pid \<and> ok) rounds)"
proof -
  define e :: "nat \<times> int \<times> bool \<Rightarrow> wps_ev" where
    "e = (\<lambda>(presses, pid, ok). if pid > 0 then Wps_forked pid (wps_child ok) else Wps_fork_failed)"
  have eq: "(\<lambda>x. (case x of (presses, pid, ok) \<Rightarrow> 0 < presses) \<and> wps_started (e x)) =
      (\<lambda>(presses, pid, ok). 0 < presses \<and> 0 < pid \<and> ok)"
    by (auto simp: fun_eq_iff e_def wps_started_child)
  have "length (filter wps_started (map e (filter (\<lambda>(presses, pid, ok). 0 < presses) rounds))) =
      length (filter (\<lambda>(presses, pid, ok). 0 < presses \<and> 0 < pid \<and> ok) rounds)"
    unfolding filter_map filter_filter comp_def length_map eq ..
  then show ?thesis by (simp add: button_rounds [OF assms] e_def)
qed

text \<open>
  C10. A press of the button reaches WPS: once the system server has registered itself with the button
  driver, as it does at its start after it has set its signal handler, and as long as it lives, every
  press sends it one signal of the number it handles. When the button watcher has seen the signals of \<open>n\<close> presses,
  it has started \<open>hostapd_cli -i wlan0 wps_pbc\<close> once for each of its rounds that saw a signal and whose \<open>fork\<close> and
  \<open>execl\<close> succeeded, so at most \<open>n\<close> times, and never without a press; if no \<open>fork\<close> and no \<open>execl\<close> fails, at least
  once when \<open>n\<close> is positive.
\<close>

theorem button_press_starts_wps:
  assumes "system_server os = (ev, True)" "0 \<le> btn_fd os"
    and "kdt_driver_read pid True 4 d = (r, txt, d1)" "\<forall>x \<in> set sent. 0 \<le> x" "alive pid"
    and "button_presses alive sent d1 = Some d2" "sum_list (map fst rounds) = signals_to pid d2 - signals_to pid d1"
    and "\<forall>(presses, child, ok) \<in> set rounds. child \<noteq> 0"
  shows "take 2 ev = [Handle_signal BUTTON_SIGNR, Read_button 4] \<and> r = 1 \<and>
    (let starts = length (filter wps_started (fst (button_watcher_thread rounds False))) in
      starts = length (filter (\<lambda>(presses, child, ok). 0 < presses \<and> 0 < child \<and> ok) rounds) \<and>
      starts \<le> length sent \<and>
      ((\<forall>(presses, child, ok) \<in> set rounds. 0 < child \<and> ok) \<longrightarrow> (0 < length sent \<longleftrightarrow> 0 < starts)))"
proof -
  have e: "take 2 ev = [Handle_signal BUTTON_SIGNR, Read_button 4]"
    using assms(1,2) by (auto simp: system_server_def Let_def split: prod.splits if_splits)
  have d1: "user_space_task d1 = Some pid" "r = 1" using assms(3) by (auto simp: kdt_driver_read_def)
  have n: "sum_list (map fst rounds) = length sent"
    using presses_signal [of d1 pid sent alive, OF d1(1) assms(4,5)] assms(6,7) by simp
  let ?good = "filter (\<lambda>(presses, child, ok). 0 < presses \<and> 0 < child \<and> ok) rounds"
  have "length ?good \<le> sum_list (map fst rounds)" by (induction rounds) auto
  moreover have "0 < sum_list (map fst rounds) \<longleftrightarrow> ?good \<noteq> []"
    if "\<forall>(presses, child, ok) \<in> set rounds. 0 < child \<and> ok"
    using that by (induction rounds) auto
  ultimately show ?thesis using n e d1(2) wps_starts [OF assms(8)] by (simp add: Let_def)
qed

theorem button_press_starts_wps_witness:
  "length (filter wps_started (fst (button_watcher_thread [(0, 60, True), (2, 61, True)] False))) = 1"
proof -
  let ?os = "\<lparr>btn_fd = 3, mq_fds = (\<lambda>_. 4), pthread_result = (\<lambda>_. 0)\<rparr>"
  have s: "system_server ?os = (fst (system_server ?os), True)"
    by (simp add: system_server_def Let_def open_queues_all start_threads_all list_all_iff)
  have r: "kdt_driver_read 77 True 4 button_start = (1, ''t'', button_start\<lparr>user_space_task := Some 77, kdt_wait_flag := 1\<rparr>)"
    by (simp add: kdt_driver_read_def)
  let ?d = "button_start\<lparr>user_space_task := Some 77, kdt_wait_flag := 1\<rparr>"
  let ?e = "?d\<lparr>signals := [(77, SIGNR), (77, SIGNR)]\<rparr>"
  have p: "button_presses (\<lambda>_. True) [0, 0] ?d = Some ?e"
    by (simp add: kdt_gpio_irq_signal_handler_def button_start_def)
  have n: "sum_list (map fst [(0 :: nat, 60 :: int, True), (2, 61, True)]) = signals_to 77 ?e - signals_to 77 ?d"
    by (simp add: signals_to_def SIGNR_def BUTTON_SIGNR_def button_start_def)
  from button_press_starts_wps [OF s _ r _ _ p n] show ?thesis by (simp add: Let_def)
qed

end
